(* ===== verification/Prelude.thy ===== *)
theory Prelude
  imports Main "HOL-Library.Word" "HOL-Library.Monad_Syntax"
begin

text \<open>
  Shared material of the development: the machine types of the C sources, byte buffers
  (slices, overwriting, uninitialised memory), scatter/gather vectors, big-endian fields
  and circular index arithmetic.  The pure list lemmas of the components are collected
  here, so that the component theories only unfold their own operations.

  Conventions.  \<open>size_t\<close>, \<open>unsigned long\<close> and pointers are 64 bits wide, as in the arm64 build of
  the library; the 32-bit builds (armeabi-v7a, x86), where they have half the width, are not covered.  A C \<open>int\<close> that is only compared, counted or
  returned is an \<^typ>\<open>int\<close>; one that is used bitwise is a 32 bit word.
\<close>

unbundle bit_operations_syntax

type_synonym byte = "8 word"
type_synonym u16 = "16 word"
type_synonym u32 = "32 word"
type_synonym u64 = "64 word"

named_theorems buf_simps \<open>slices, overwriting and lengths of byte buffers\<close>
named_theorems ring_simps \<open>circular index arithmetic\<close>

section \<open>Byte buffers\<close>

definition chunk :: "'a list \<Rightarrow> nat \<Rightarrow> nat \<Rightarrow> 'a list" where
  "chunk xs off n = take n (drop off xs)"

definition overwrite :: "'a list \<Rightarrow> nat \<Rightarrow> 'a list \<Rightarrow> 'a list" where
  "overwrite xs off ys = take off xs @ ys @ drop (off + length ys) xs"

text \<open>
  A buffer of \<open>n\<close> bytes on the C stack of which only a prefix has been stored: the rest
  holds whatever the memory held before, given by \<open>junk\<close>.
\<close>

definition fill :: "(nat \<Rightarrow> 'a) \<Rightarrow> nat \<Rightarrow> 'a list \<Rightarrow> 'a list" where
  "fill junk n bs = bs @ map junk [length bs..<n]"

lemma length_chunk [simp]: "length (chunk xs off n) = min n (length xs - off)"
  by (simp add: chunk_def)

lemma length_overwrite [simp]:
  "off + length ys \<le> length xs \<Longrightarrow> length (overwrite xs off ys) = length xs"
  by (simp add: overwrite_def)

lemma nth_overwrite:
  "off + length ys \<le> length xs \<Longrightarrow> i < length xs \<Longrightarrow>
   overwrite xs off ys ! i = (if off \<le> i \<and> i < off + length ys then ys ! (i - off) else xs ! i)"
  by (auto simp: overwrite_def nth_append min_def)

lemma overwrite_Nil [simp]: "overwrite xs off [] = xs"
  by (simp add: overwrite_def)

lemma length_fill [simp]: "length (fill junk n bs) = max n (length bs)"
  by (simp add: fill_def)

lemma fill_full [simp]: "n \<le> length bs \<Longrightarrow> fill junk n bs = bs"
  by (simp add: fill_def)

lemma nth_fill: "i < n \<Longrightarrow> fill junk n bs ! i = (if i < length bs then bs ! i else junk i)"
  by (auto simp: fill_def nth_append)

lemmas [buf_simps] = chunk_def overwrite_def fill_def

lemma take_append_drop: "xs = take n xs @ ys \<Longrightarrow> ys = drop n xs"
  by (metis append_take_drop_id same_append_eq)

lemma option_eqI: "(\<And>r. x = Some r \<longleftrightarrow> y = Some r) \<Longrightarrow> x = y"
  by (metis not_Some_eq)

section \<open>C strings\<close>

text \<open>The string at an address: the bytes before the first zero.\<close>

definition cstr :: "byte list \<Rightarrow> byte list" where
  "cstr bs = takeWhile (\<lambda>b. b \<noteq> 0) bs"

lemma cstr_ok [simp]: "0 \<notin> set (cstr bs)"
  by (auto simp: cstr_def dest: set_takeWhileD)

section \<open>Scatter/gather vectors\<close>

text \<open>
  A \<open>struct iovec\<close> whose base points into one buffer: the base is the offset from the
  start of that buffer.  \<open>readv\<close> stores into the regions in order, \<open>writev\<close> reads them
  in order.
\<close>

record iovec =
  iov_base :: u64
  iov_len :: u64

fun iov_scatter :: "byte list \<Rightarrow> iovec list \<Rightarrow> byte list \<Rightarrow> byte list" where
  "iov_scatter d [] bs = d"
| "iov_scatter d (v # vs) bs =
     (let n = unat (iov_len v)
      in iov_scatter (overwrite d (unat (iov_base v)) (take n bs)) vs (drop n bs))"

fun iov_gather :: "byte list \<Rightarrow> iovec list \<Rightarrow> byte list" where
  "iov_gather d [] = []"
| "iov_gather d (v # vs) = chunk d (unat (iov_base v)) (unat (iov_len v)) @ iov_gather d vs"

fun iov_total :: "iovec list \<Rightarrow> nat" where
  "iov_total [] = 0"
| "iov_total (v # vs) = unat (iov_len v) + iov_total vs"

fun iov_within :: "nat \<Rightarrow> iovec list \<Rightarrow> bool" where
  "iov_within m [] = True"
| "iov_within m (v # vs) = (unat (iov_base v) + unat (iov_len v) \<le> m \<and> iov_within m vs)"

section \<open>Circular buffers\<close>

definition ring_get :: "'a list \<Rightarrow> nat \<Rightarrow> nat \<Rightarrow> 'a list" where
  "ring_get d s n = map (\<lambda>i. d ! ((s + i) mod length d)) [0..<n]"

definition ring_put :: "'a list \<Rightarrow> nat \<Rightarrow> 'a list \<Rightarrow> 'a list" where
  "ring_put d s bs =
     (if length bs \<le> length d - s then overwrite d s bs
      else overwrite (overwrite d s (take (length d - s) bs)) 0 (drop (length d - s) bs))"

lemma length_ring_get [simp]: "length (ring_get d s n) = n"
  by (simp add: ring_get_def)

lemma nth_ring_get [simp]: "i < n \<Longrightarrow> ring_get d s n ! i = d ! ((s + i) mod length d)"
  by (simp add: ring_get_def)

lemma ring_get_0 [simp]: "ring_get d s 0 = []"
  by (simp add: ring_get_def)

lemma ring_get_mod: "ring_get d (s mod length d) n = ring_get d s n"
  by (simp add: ring_get_def mod_add_left_eq)

lemma ring_get_cong: "s mod length d = t mod length d \<Longrightarrow> ring_get d s n = ring_get d t n"
  by (metis ring_get_mod)

lemma mod_shift:
  assumes "n \<le> k"
  shows "((r + n) mod m + k - n) mod m = (r + k) mod (m :: nat)"
proof -
  from assms obtain j where "k = n + j" by (auto simp: le_iff_add)
  then show ?thesis by (simp add: mod_add_left_eq add.assoc)
qed

lemma ring_get_add:
  "ring_get d s (a + b) = ring_get d s a @ ring_get d ((s + a) mod length d) b"
proof (rule nth_equalityI)
  fix i assume i: "i < length (ring_get d s (a + b))"
  show "ring_get d s (a + b) ! i = (ring_get d s a @ ring_get d ((s + a) mod length d) b) ! i"
  proof (cases "i < a")
    case False
    then obtain j where "i = a + j" using le_Suc_ex not_less by blast
    with i show ?thesis by (simp add: nth_append mod_add_left_eq add.assoc)
  qed (use i in \<open>simp add: nth_append\<close>)
qed simp

lemma ring_get_take: "a \<le> n \<Longrightarrow> take a (ring_get d s n) = ring_get d s a"
  by (rule nth_equalityI) auto

lemma ring_get_drop: "a \<le> n \<Longrightarrow> drop a (ring_get d s n) = ring_get d ((s + a) mod length d) (n - a)"
  by (rule nth_equalityI) (auto simp: mod_add_left_eq add.assoc)

lemma ring_get_straight:
  assumes "s + n \<le> length d"
  shows "ring_get d s n = chunk d s n"
  using assms by (intro nth_equalityI) (auto simp: chunk_def)

lemma ring_get_wrapped:
  assumes "s < length d" and "length d - s \<le> n" and "n \<le> length d"
  shows "ring_get d s n = chunk d s (length d - s) @ chunk d 0 (n - (length d - s))"
proof -
  have "ring_get d s n = ring_get d s ((length d - s) + (n - (length d - s)))"
    using assms by simp
  also have "\<dots> = ring_get d s (length d - s) @ ring_get d 0 (n - (length d - s))"
    using assms by (subst ring_get_add) simp
  also have "\<dots> = chunk d s (length d - s) @ chunk d 0 (n - (length d - s))"
    using assms by (simp add: ring_get_straight)
  finally show ?thesis .
qed

lemma length_ring_put [simp]:
  "s \<le> length d \<Longrightarrow> length bs \<le> length d \<Longrightarrow> length (ring_put d s bs) = length d"
  by (auto simp: ring_put_def)

text \<open>
  The byte stored at offset \<open>i\<close> of the written region is read back there, and a position
  that lies before the region (counted backwards around the ring) keeps its byte.
\<close>

lemma ring_put_inside:
  assumes "s < length d" and "length bs \<le> length d" and "i < length bs"
  shows "ring_put d s bs ! ((s + i) mod length d) = bs ! i"
proof (cases "s + i < length d")
  case True
  then show ?thesis using assms
    by (auto simp: ring_put_def nth_overwrite)
next
  case False
  then have "(s + i) mod length d = s + i - length d"
    using assms by (simp add: mod_if)
  then show ?thesis using False assms
    by (auto simp: ring_put_def nth_overwrite intro!: arg_cong [where f = "nth bs"])
qed

lemma ring_put_outside:
  assumes "s < length d" and "length bs \<le> length d" and "length bs \<le> k" and "k < length d"
  shows "ring_put d s bs ! ((s + k) mod length d) = d ! ((s + k) mod length d)"
proof (cases "s + k < length d")
  case True
  then show ?thesis using assms
    by (auto simp: ring_put_def nth_overwrite)
next
  case False
  then have "(s + k) mod length d = s + k - length d"
    using assms by (simp add: mod_if)
  then show ?thesis using False assms
    by (auto simp: ring_put_def nth_overwrite)
qed

lemma ring_get_put_same:
  assumes "s < length d" and "length bs \<le> length d"
  shows "ring_get (ring_put d s bs) s (length bs) = bs"
  using assms by (intro nth_equalityI) (auto simp: ring_put_inside)

lemma ring_get_put_before:
  assumes s: "s = (t + n) mod length d" and n: "n + length bs \<le> length d" and "0 < length d"
  shows "ring_get (ring_put d s bs) t n = ring_get d t n"
proof (rule nth_equalityI)
  fix i assume "i < length (ring_get (ring_put d s bs) t n)"
  then have i: "i < n" by simp
  define k where "k = length d - n + i"
  have "(s + k) mod length d = (t + n + k) mod length d"
    unfolding s by (simp add: mod_add_left_eq)
  also have "t + n + k = t + i + length d"
    using n i by (simp add: k_def)
  finally have eq: "(t + i) mod length d = (s + k) mod length d"
    by (metis mod_add_self2)
  have "ring_put d s bs ! ((s + k) mod length d) = d ! ((s + k) mod length d)"
    using assms i by (intro ring_put_outside) (auto simp: k_def)
  then show "ring_get (ring_put d s bs) t n ! i = ring_get d t n ! i"
    using assms i by (simp add: eq)
qed simp

section \<open>Unsigned words as natural numbers\<close>

lemma unat_minus: "unat b \<le> unat a \<Longrightarrow> unat (a - b) = unat a - unat (b :: 'a::len word)"
  by (simp add: unat_sub word_le_nat_alt)

lemma unat_plus: "unat a + unat b < 2 ^ LENGTH('a) \<Longrightarrow> unat (a + b) = unat a + unat (b :: 'a::len word)"
  by (simp add: unat_add_lem)

lemma unat_nat: "n < 2 ^ LENGTH('a) \<Longrightarrow> unat (of_nat n :: 'a::len word) = n"
  by (simp add: unat_of_nat take_bit_nat_eq_self)

lemma unat_less: "unat (a :: 'a::len word) < 2 ^ LENGTH('a)"
  by (rule unsigned_less)

lemma unat_0_eq [simp]: "unat a = 0 \<longleftrightarrow> a = (0 :: 'a::len word)"
  by (simp add: unat_eq_zero)

end
