(* ===== verification/Ring_Buffer.thy ===== *)
theory Ring_Buffer
  imports Prelude
begin

text \<open>
  The byte queues of the tunnel.  \<open>HevRingBuffer\<close> (\<open>hev-ring-buffer.c\<close>) buffers the data of
  one TCP session between the SOCKS5 socket and lwIP; its bytes stay in place after they have
  been read until lwIP reports them acknowledged.  \<open>HevCircularBuffer\<close>
  (\<open>hev-circular-buffer.c\<close>) is the plain queue of the splice loop of the task system.

  Both implement the interface \<open>byte_fifo\<close>: the regions handed to \<open>readv\<close>/\<open>writev\<close> are
  inside the buffer, what is written is appended, what is read is the oldest data.
  \<open>HevRingBuffer\<close> moreover implements \<open>window_fifo\<close>: bytes that were read and not yet
  released are never overwritten.
\<close>

section \<open>The interfaces\<close>

locale byte_fifo =
  fixes inv :: "'q \<Rightarrow> bool"
    and mem :: "'q \<Rightarrow> byte list"
    and set_mem :: "'q \<Rightarrow> byte list \<Rightarrow> 'q"
    and content :: "'q \<Rightarrow> byte list"
    and space :: "'q \<Rightarrow> nat"
    and writing :: "'q \<Rightarrow> iovec list"
    and write_finish :: "'q \<Rightarrow> u64 \<Rightarrow> 'q"
    and reading :: "'q \<Rightarrow> iovec list"
    and read_finish :: "'q \<Rightarrow> u64 \<Rightarrow> 'q"
  assumes writing_within: "inv q \<Longrightarrow> iov_within (length (mem q)) (writing q)"
    and writing_total: "inv q \<Longrightarrow> iov_total (writing q) = space q"
    and writing_none: "inv q \<Longrightarrow> writing q = [] \<longleftrightarrow> space q = 0"
    and reading_within: "inv q \<Longrightarrow> iov_within (length (mem q)) (reading q)"
    and reading_gather: "inv q \<Longrightarrow> iov_gather (mem q) (reading q) = content q"
    and reading_none: "inv q \<Longrightarrow> reading q = [] \<longleftrightarrow> content q = []"
    and write_inv: "inv q \<Longrightarrow> length bs \<le> space q \<Longrightarrow>
      inv (write_finish (set_mem q (iov_scatter (mem q) (writing q) bs)) (of_nat (length bs)))"
    and write_content: "inv q \<Longrightarrow> length bs \<le> space q \<Longrightarrow>
      content (write_finish (set_mem q (iov_scatter (mem q) (writing q) bs)) (of_nat (length bs)))
        = content q @ bs"
    and read_inv: "inv q \<Longrightarrow> n \<le> length (content q) \<Longrightarrow> inv (read_finish q (of_nat n))"
    and read_content: "inv q \<Longrightarrow> n \<le> length (content q) \<Longrightarrow>
      content (read_finish q (of_nat n)) = drop n (content q)"
begin

definition store :: "'q \<Rightarrow> byte list \<Rightarrow> 'q" where
  "store q bs = write_finish (set_mem q (iov_scatter (mem q) (writing q) bs)) (of_nat (length bs))"

definition consume :: "'q \<Rightarrow> nat \<Rightarrow> 'q" where
  "consume q n = read_finish q (of_nat n)"

lemma store_inv: "inv q \<Longrightarrow> length bs \<le> space q \<Longrightarrow> inv (store q bs)"
  by (simp add: store_def write_inv)

lemma store_content: "inv q \<Longrightarrow> length bs \<le> space q \<Longrightarrow> content (store q bs) = content q @ bs"
  by (simp add: store_def write_content)

lemma consume_inv: "inv q \<Longrightarrow> n \<le> length (content q) \<Longrightarrow> inv (consume q n)"
  by (simp add: consume_def read_inv)

lemma consume_content: "inv q \<Longrightarrow> n \<le> length (content q) \<Longrightarrow> content (consume q n) = drop n (content q)"
  by (simp add: consume_def read_content)

text \<open>
  A run of the queue: each operation stores a chunk that fits or consumes bytes that are
  there.  Bytes leave in the order they entered, none lost and none twice.
\<close>

fun run :: "'q \<Rightarrow> (byte list + nat) list \<Rightarrow> ('q \<times> byte list \<times> byte list) option" where
  "run q [] = Some (q, [], [])"
| "run q (Inl bs # es) =
     (if length bs \<le> space q
      then map_option (\<lambda>(q', i, out). (q', bs @ i, out)) (run (store q bs) es)
      else None)"
| "run q (Inr n # es) =
     (if n \<le> length (content q)
      then map_option (\<lambda>(q', i, out). (q', i, take n (content q) @ out)) (run (consume q n) es)
      else None)"

lemma run_fifo:
  "run q es = Some (q', i, out) \<Longrightarrow> inv q \<Longrightarrow> inv q' \<and> out @ content q' = content q @ i"
proof (induction q es arbitrary: q' i out rule: run.induct)
  case (2 q bs es)
  then show ?case by (auto simp: store_inv store_content split: if_splits)
next
  case (3 q n es)
  then obtain i1 o1 where "n \<le> length (content q)" "run (consume q n) es = Some (q', i1, o1)"
      "i = i1" "out = take n (content q) @ o1"
    by (auto split: if_splits)
  with 3 have "inv q' \<and> o1 @ content q' = drop n (content q) @ i"
    by (auto simp: consume_inv consume_content)
  with \<open>out = _\<close> show ?case by (auto simp flip: append_assoc) (simp add: append_assoc)
qed auto

end

locale window_fifo = byte_fifo +
  fixes unacked :: "'a \<Rightarrow> byte list"
    and release :: "'a \<Rightarrow> u64 \<Rightarrow> 'a"
  assumes write_unacked: "inv q \<Longrightarrow> length bs \<le> space q \<Longrightarrow>
      unacked (write_finish (set_mem q (iov_scatter (mem q) (writing q) bs)) (of_nat (length bs)))
        = unacked q"
    and read_unacked: "inv q \<Longrightarrow> n \<le> length (content q) \<Longrightarrow>
      unacked (read_finish q (of_nat n)) = unacked q @ take n (content q)"
    and release_inv: "inv q \<Longrightarrow> n \<le> length (unacked q) \<Longrightarrow> inv (release q (of_nat n))"
    and release_unacked: "inv q \<Longrightarrow> n \<le> length (unacked q) \<Longrightarrow>
      unacked (release q (of_nat n)) = drop n (unacked q)"
    and release_content: "inv q \<Longrightarrow> n \<le> length (unacked q) \<Longrightarrow>
      content (release q (of_nat n)) = content q"

section \<open>HevRingBuffer\<close>

record HevRingBuffer =
  rb_rp :: u64
  rb_wp :: u64
  rb_rda_size :: u64
  rb_use_size :: u64
  rb_max_size :: u64
  rb_data :: "byte list"

text \<open>The new buffer has unspecified contents \<open>mem\<close>.\<close>

definition hev_ring_buffer_alloca :: "u64 \<Rightarrow> byte list \<Rightarrow> HevRingBuffer" where
  "hev_ring_buffer_alloca s mem =
     \<lparr>rb_rp = 0, rb_wp = 0, rb_rda_size = 0, rb_use_size = 0, rb_max_size = s, rb_data = mem\<rparr>"

definition hev_ring_buffer_get_max_size :: "HevRingBuffer \<Rightarrow> u64" where
  "hev_ring_buffer_get_max_size self = rb_max_size self"

definition hev_ring_buffer_get_use_size :: "HevRingBuffer \<Rightarrow> u64" where
  "hev_ring_buffer_get_use_size self = rb_use_size self"

text \<open>The filled part of the \<open>iov\<close> array; its length is the return value.\<close>

definition hev_ring_buffer_reading :: "HevRingBuffer \<Rightarrow> iovec list" where
  "hev_ring_buffer_reading self =
     (if 0 = rb_rda_size self then []
      else let upper_size = rb_max_size self - rb_rp self in
        if rb_rda_size self \<le> upper_size
        then [\<lparr>iov_base = rb_rp self, iov_len = rb_rda_size self\<rparr>]
        else [\<lparr>iov_base = rb_rp self, iov_len = upper_size\<rparr>,
              \<lparr>iov_base = 0, iov_len = rb_rda_size self - upper_size\<rparr>])"

definition hev_ring_buffer_read_finish :: "HevRingBuffer \<Rightarrow> u64 \<Rightarrow> HevRingBuffer" where
  "hev_ring_buffer_read_finish self sz =
     self\<lparr>rb_rp := (rb_rp self + sz) mod rb_max_size self,
          rb_rda_size := rb_rda_size self - sz\<rparr>"

definition hev_ring_buffer_read_release :: "HevRingBuffer \<Rightarrow> u64 \<Rightarrow> HevRingBuffer" where
  "hev_ring_buffer_read_release self sz =
     (let self = self\<lparr>rb_use_size := rb_use_size self - sz\<rparr>
      in if rb_use_size self = 0 then self\<lparr>rb_rp := 0, rb_wp := 0\<rparr> else self)"

definition hev_ring_buffer_writing :: "HevRingBuffer \<Rightarrow> iovec list" where
  "hev_ring_buffer_writing self =
     (if rb_use_size self = rb_max_size self then []
      else let upper_size = rb_max_size self - rb_wp self;
               spc_size = rb_max_size self - rb_use_size self in
        if spc_size \<le> upper_size
        then [\<lparr>iov_base = rb_wp self, iov_len = spc_size\<rparr>]
        else [\<lparr>iov_base = rb_wp self, iov_len = upper_size\<rparr>,
              \<lparr>iov_base = 0, iov_len = spc_size - upper_size\<rparr>])"

definition hev_ring_buffer_write_finish :: "HevRingBuffer \<Rightarrow> u64 \<Rightarrow> HevRingBuffer" where
  "hev_ring_buffer_write_finish self sz =
     self\<lparr>rb_wp := (rb_wp self + sz) mod rb_max_size self,
          rb_use_size := rb_use_size self + sz,
          rb_rda_size := rb_rda_size self + sz\<rparr>"

subsection \<open>Invariant and abstraction\<close>

text \<open>
  The capacity is positive and small enough that \<open>rp + size\<close> cannot wrap.  The write
  position is \<open>rda_size\<close> bytes after the read position; the bytes that were read but not
  released are the \<open>use_size - rda_size\<close> bytes before it.
\<close>

definition rb_inv :: "HevRingBuffer \<Rightarrow> bool" where
  "rb_inv b \<longleftrightarrow>
     length (rb_data b) = unat (rb_max_size b) \<and>
     0 < unat (rb_max_size b) \<and> unat (rb_max_size b) < 2 ^ 63 \<and>
     unat (rb_rp b) < unat (rb_max_size b) \<and>
     unat (rb_wp b) = (unat (rb_rp b) + unat (rb_rda_size b)) mod unat (rb_max_size b) \<and>
     unat (rb_rda_size b) \<le> unat (rb_use_size b) \<and>
     unat (rb_use_size b) \<le> unat (rb_max_size b)"

definition rb_content :: "HevRingBuffer \<Rightarrow> byte list" where
  "rb_content b = ring_get (rb_data b) (unat (rb_rp b)) (unat (rb_rda_size b))"

definition rb_held :: "HevRingBuffer \<Rightarrow> nat" where
  "rb_held b = unat (rb_use_size b) - unat (rb_rda_size b)"

definition rb_unacked :: "HevRingBuffer \<Rightarrow> byte list" where
  "rb_unacked b =
     ring_get (rb_data b) (unat (rb_rp b) + unat (rb_max_size b) - rb_held b) (rb_held b)"

definition rb_space :: "HevRingBuffer \<Rightarrow> nat" where
  "rb_space b = unat (rb_max_size b) - unat (rb_use_size b)"

definition rb_set_data :: "HevRingBuffer \<Rightarrow> byte list \<Rightarrow> HevRingBuffer" where
  "rb_set_data b d = b\<lparr>rb_data := d\<rparr>"

lemma rb_inv_alloca:
  "length mem = unat s \<Longrightarrow> 0 < s \<Longrightarrow> unat s < 2 ^ 63 \<Longrightarrow> rb_inv (hev_ring_buffer_alloca s mem)"
  by (simp add: rb_inv_def hev_ring_buffer_alloca_def word_less_nat_alt)

lemma rb_inv_wp: "rb_inv b \<Longrightarrow> unat (rb_wp b) < unat (rb_max_size b)"
  by (auto simp: rb_inv_def)

lemma rb_writing_cases:
  assumes "rb_inv b"
  obtains (full) "hev_ring_buffer_writing b = []" "rb_space b = 0"
  | (straight) l where "hev_ring_buffer_writing b = [\<lparr>iov_base = rb_wp b, iov_len = l\<rparr>]"
      "unat l = rb_space b" "0 < rb_space b" "unat (rb_wp b) + rb_space b \<le> unat (rb_max_size b)"
  | (wrapped) l1 l2 where "hev_ring_buffer_writing b =
        [\<lparr>iov_base = rb_wp b, iov_len = l1\<rparr>, \<lparr>iov_base = 0, iov_len = l2\<rparr>]"
      "unat l1 = unat (rb_max_size b) - unat (rb_wp b)" "unat l1 < rb_space b"
      "unat l2 = rb_space b - unat l1"
proof (cases "rb_use_size b = rb_max_size b")
  case True
  then show ?thesis by (intro full) (simp_all add: hev_ring_buffer_writing_def rb_space_def)
next
  case False
  let ?up = "rb_max_size b - rb_wp b" and ?spc = "rb_max_size b - rb_use_size b"
  have le: "unat (rb_use_size b) \<le> unat (rb_max_size b)" "unat (rb_wp b) < unat (rb_max_size b)"
    using assms rb_inv_wp [OF assms] by (auto simp: rb_inv_def)
  then have u: "unat ?spc = rb_space b" "unat ?up = unat (rb_max_size b) - unat (rb_wp b)"
    by (simp_all add: unat_minus rb_space_def)
  have pos: "0 < rb_space b"
    using False le by (simp add: rb_space_def order_le_less) (metis word_unat_eq_iff)
  show ?thesis
  proof (cases "?spc \<le> ?up")
    case True
    then have "rb_space b \<le> unat (rb_max_size b) - unat (rb_wp b)"
      by (simp add: word_le_nat_alt u)
    then show ?thesis
      using True False le pos u(1)
      by (intro straight [of ?spc]) (simp_all add: hev_ring_buffer_writing_def)
  next
    case up: False
    then have lt: "unat (rb_max_size b) - unat (rb_wp b) < rb_space b"
      by (simp add: word_le_nat_alt u)
    then have "unat (?spc - ?up) = rb_space b - unat ?up"
      by (subst unat_minus) (simp_all add: u)
    with lt show ?thesis
      using up False u
      by (intro wrapped [of ?up "?spc - ?up"])
        (simp_all add: hev_ring_buffer_writing_def Let_def)
  qed
qed

lemma rb_reading_cases:
  assumes "rb_inv b"
  obtains (empty) "hev_ring_buffer_reading b = []" "unat (rb_rda_size b) = 0"
  | (straight) "hev_ring_buffer_reading b = [\<lparr>iov_base = rb_rp b, iov_len = rb_rda_size b\<rparr>]"
      "0 < unat (rb_rda_size b)" "unat (rb_rp b) + unat (rb_rda_size b) \<le> unat (rb_max_size b)"
  | (wrapped) l1 l2 where "hev_ring_buffer_reading b =
        [\<lparr>iov_base = rb_rp b, iov_len = l1\<rparr>, \<lparr>iov_base = 0, iov_len = l2\<rparr>]"
      "unat l1 = unat (rb_max_size b) - unat (rb_rp b)" "unat l1 < unat (rb_rda_size b)"
      "unat l2 = unat (rb_rda_size b) - unat l1"
proof (cases "rb_rda_size b = 0")
  case True
  then show ?thesis by (intro empty) (simp_all add: hev_ring_buffer_reading_def)
next
  case False
  let ?up = "rb_max_size b - rb_rp b"
  have le: "unat (rb_rp b) < unat (rb_max_size b)"
    using assms by (auto simp: rb_inv_def)
  then have u: "unat ?up = unat (rb_max_size b) - unat (rb_rp b)"
    by (simp add: unat_minus)
  show ?thesis
  proof (cases "rb_rda_size b \<le> ?up")
    case True
    then have "unat (rb_rda_size b) \<le> unat (rb_max_size b) - unat (rb_rp b)"
      by (simp add: word_le_nat_alt u)
    then show ?thesis
      using True False le
      by (intro straight) (simp_all add: hev_ring_buffer_reading_def unat_gt_0)
  next
    case up: False
    then have lt: "unat (rb_max_size b) - unat (rb_rp b) < unat (rb_rda_size b)"
      by (simp add: word_le_nat_alt u)
    then show ?thesis
      using up False u
      by (intro wrapped [of ?up "rb_rda_size b - ?up"])
        (simp_all add: hev_ring_buffer_reading_def Let_def unat_minus)
  qed
qed

subsection \<open>Storing\<close>

lemma rb_scatter:
  assumes "rb_inv b" and "length bs \<le> rb_space b"
  shows "iov_scatter (rb_data b) (hev_ring_buffer_writing b) bs
    = ring_put (rb_data b) (unat (rb_wp b)) bs"
  using assms(1)
proof (cases rule: rb_writing_cases)
  case full
  with assms show ?thesis by (simp add: ring_put_def)
next
  case (straight l)
  with assms show ?thesis by (simp add: ring_put_def rb_inv_def)
next
  case (wrapped l1 l2)
  with assms rb_inv_wp [OF assms(1)] show ?thesis
    by (auto simp: ring_put_def rb_inv_def Let_def)
qed

lemma rb_store_fields:
  assumes "rb_inv b" and "length bs \<le> rb_space b"
  defines "b' \<equiv> hev_ring_buffer_write_finish
      (rb_set_data b (iov_scatter (rb_data b) (hev_ring_buffer_writing b) bs)) (of_nat (length bs))"
  shows "rb_data b' = ring_put (rb_data b) (unat (rb_wp b)) bs"
    and "rb_rp b' = rb_rp b" and "rb_max_size b' = rb_max_size b"
    and "unat (rb_rda_size b') = unat (rb_rda_size b) + length bs"
    and "unat (rb_use_size b') = unat (rb_use_size b) + length bs"
    and "unat (rb_wp b') = (unat (rb_wp b) + length bs) mod unat (rb_max_size b)"
proof -
  have m: "length bs \<le> unat (rb_max_size b)" "unat (rb_max_size b) < 2 ^ 63"
    "unat (rb_use_size b) + length bs \<le> unat (rb_max_size b)"
    "unat (rb_rda_size b) \<le> unat (rb_use_size b)" "unat (rb_wp b) < unat (rb_max_size b)"
    using assms(1,2) rb_inv_wp [OF assms(1)] by (auto simp: rb_inv_def rb_space_def)
  then have l: "unat (of_nat (length bs) :: u64) = length bs"
    by (intro unat_nat) simp
  note defs = b'_def hev_ring_buffer_write_finish_def rb_set_data_def
  show "rb_data b' = ring_put (rb_data b) (unat (rb_wp b)) bs"
    using assms(1,2) by (simp add: defs rb_scatter)
  show "rb_rp b' = rb_rp b" and "rb_max_size b' = rb_max_size b"
    by (simp_all add: defs)
  show "unat (rb_rda_size b') = unat (rb_rda_size b) + length bs"
    and "unat (rb_use_size b') = unat (rb_use_size b) + length bs"
    using m l by (simp_all add: defs unat_plus)
  show "unat (rb_wp b') = (unat (rb_wp b) + length bs) mod unat (rb_max_size b)"
    using m l by (simp add: defs unat_mod unat_plus)
qed

lemma rb_inv_store:
  assumes "rb_inv b" and "length bs \<le> rb_space b"
  shows "rb_inv (hev_ring_buffer_write_finish
      (rb_set_data b (iov_scatter (rb_data b) (hev_ring_buffer_writing b) bs)) (of_nat (length bs)))"
  using assms rb_inv_wp [OF assms(1)]
  by (auto simp: rb_inv_def rb_store_fields [OF assms] rb_space_def mod_add_left_eq add.assoc)

lemma rb_content_store:
  assumes "rb_inv b" and "length bs \<le> rb_space b"
  shows "rb_content (hev_ring_buffer_write_finish
      (rb_set_data b (iov_scatter (rb_data b) (hev_ring_buffer_writing b) bs)) (of_nat (length bs)))
    = rb_content b @ bs"
proof -
  let ?d = "rb_data b" and ?m = "unat (rb_max_size b)"
  let ?d' = "ring_put ?d (unat (rb_wp b)) bs"
  have i: "length ?d = ?m" "unat (rb_wp b) = (unat (rb_rp b) + unat (rb_rda_size b)) mod ?m"
      "unat (rb_rda_size b) + length bs \<le> ?m" "0 < ?m" "unat (rb_wp b) < ?m"
    using assms rb_inv_wp [OF assms(1)] by (auto simp: rb_inv_def rb_space_def)
  have "ring_get ?d' (unat (rb_rp b)) (unat (rb_rda_size b) + length bs)
      = ring_get ?d' (unat (rb_rp b)) (unat (rb_rda_size b)) @ ring_get ?d' (unat (rb_wp b)) (length bs)"
    using i by (subst ring_get_add) simp
  also have "\<dots> = rb_content b @ bs"
    using i by (simp add: rb_content_def ring_get_put_same ring_get_put_before)
  finally show ?thesis by (simp add: rb_content_def rb_store_fields [OF assms])
qed

lemma rb_unacked_store:
  assumes "rb_inv b" and "length bs \<le> rb_space b"
  shows "rb_unacked (hev_ring_buffer_write_finish
      (rb_set_data b (iov_scatter (rb_data b) (hev_ring_buffer_writing b) bs)) (of_nat (length bs)))
    = rb_unacked b"
proof -
  let ?d = "rb_data b" and ?m = "unat (rb_max_size b)"
  have i: "length ?d = ?m" "unat (rb_wp b) = (unat (rb_rp b) + unat (rb_rda_size b)) mod ?m"
      "unat (rb_use_size b) + length bs \<le> ?m" "0 < ?m" "unat (rb_wp b) < ?m"
      "unat (rb_rda_size b) \<le> unat (rb_use_size b)"
    using assms rb_inv_wp [OF assms(1)] by (auto simp: rb_inv_def rb_space_def)
  let ?t = "unat (rb_rp b) + ?m - rb_held b"
  have held: "rb_held b \<le> unat (rb_use_size b)" "rb_held b + unat (rb_rda_size b) = unat (rb_use_size b)"
    using i by (auto simp: rb_held_def)
  have "unat (rb_wp b) = (?t + unat (rb_use_size b)) mod ?m"
  proof -
    have "?t + unat (rb_use_size b) = (unat (rb_rp b) + unat (rb_rda_size b)) + ?m"
      using held i by linarith
    then show ?thesis using i by (metis mod_add_self2)
  qed
  then have "ring_get (ring_put ?d (unat (rb_wp b)) bs) ?t (unat (rb_use_size b))
      = ring_get ?d ?t (unat (rb_use_size b))"
    using i by (intro ring_get_put_before) auto
  then have "ring_get (ring_put ?d (unat (rb_wp b)) bs) ?t (rb_held b) = ring_get ?d ?t (rb_held b)"
    using held by (metis ring_get_take)
  then show ?thesis
    by (simp add: rb_unacked_def rb_held_def rb_store_fields [OF assms])
qed

text \<open>Whatever is stored in the regions offered for writing, the bytes in use stay as they are.\<close>

lemma rb_writing_disjoint:
  assumes "rb_inv b" and "length bs \<le> rb_space b"
  defines "b' \<equiv> rb_set_data b (iov_scatter (rb_data b) (hev_ring_buffer_writing b) bs)"
  shows "rb_content b' = rb_content b" and "rb_unacked b' = rb_unacked b"
proof -
  let ?n = "unat (rb_rda_size b)"
  let ?s = "hev_ring_buffer_write_finish b' (of_nat (length bs))"
  note f = rb_store_fields [OF assms(1,2), folded b'_def]
  have d: "rb_data b' = ring_put (rb_data b) (unat (rb_wp b)) bs" "rb_rp b' = rb_rp b" "rb_rda_size b' = rb_rda_size b"
      "rb_use_size b' = rb_use_size b" "rb_max_size b' = rb_max_size b"
    using rb_scatter [OF assms(1,2)] by (simp_all add: b'_def rb_set_data_def)
  have "rb_content b' = take ?n (rb_content ?s)"
    by (simp add: rb_content_def f d ring_get_take)
  then show "rb_content b' = rb_content b"
    using rb_content_store [OF assms(1,2), folded b'_def] by (simp add: rb_content_def)
  have "rb_unacked b' = rb_unacked ?s" by (simp add: rb_unacked_def rb_held_def f d)
  then show "rb_unacked b' = rb_unacked b" using rb_unacked_store [OF assms(1,2), folded b'_def] by simp
qed

subsection \<open>Reading and releasing\<close>

lemma rb_read_fields:
  assumes "rb_inv b" and "n \<le> unat (rb_rda_size b)"
  defines "b' \<equiv> hev_ring_buffer_read_finish b (of_nat n)"
  shows "rb_data b' = rb_data b" and "rb_wp b' = rb_wp b" and "rb_max_size b' = rb_max_size b"
    and "rb_use_size b' = rb_use_size b"
    and "unat (rb_rda_size b') = unat (rb_rda_size b) - n"
    and "unat (rb_rp b') = (unat (rb_rp b) + n) mod unat (rb_max_size b)"
proof -
  have m: "n \<le> unat (rb_max_size b)" "unat (rb_max_size b) < 2 ^ 63" "unat (rb_rp b) < unat (rb_max_size b)"
    using assms(1,2) by (auto simp: rb_inv_def)
  then have l: "unat (of_nat n :: u64) = n"
    by (intro unat_nat) simp
  note defs = b'_def hev_ring_buffer_read_finish_def
  show "rb_data b' = rb_data b" and "rb_wp b' = rb_wp b" and "rb_max_size b' = rb_max_size b"
    and "rb_use_size b' = rb_use_size b"
    by (simp_all add: defs)
  show "unat (rb_rda_size b') = unat (rb_rda_size b) - n"
    using assms(2) l by (simp add: defs unat_minus)
  show "unat (rb_rp b') = (unat (rb_rp b) + n) mod unat (rb_max_size b)"
    using m l by (simp add: defs unat_mod unat_plus)
qed

lemma rb_inv_read:
  "rb_inv b \<Longrightarrow> n \<le> unat (rb_rda_size b) \<Longrightarrow> rb_inv (hev_ring_buffer_read_finish b (of_nat n))"
  by (auto simp: rb_inv_def rb_read_fields mod_shift)

lemma rb_content_read:
  "rb_inv b \<Longrightarrow> n \<le> unat (rb_rda_size b) \<Longrightarrow>
   rb_content (hev_ring_buffer_read_finish b (of_nat n)) = drop n (rb_content b)"
  by (simp add: rb_content_def rb_read_fields ring_get_drop) (simp add: rb_inv_def)

lemma rb_unacked_read:
  assumes "rb_inv b" and "n \<le> unat (rb_rda_size b)"
  shows "rb_unacked (hev_ring_buffer_read_finish b (of_nat n)) = rb_unacked b @ take n (rb_content b)"
proof -
  let ?d = "rb_data b" and ?m = "unat (rb_max_size b)" and ?r = "unat (rb_rp b)"
  have i: "length ?d = ?m" "0 < ?m" "?r < ?m" "rb_held b + unat (rb_rda_size b) \<le> ?m"
      "unat (rb_rda_size b) \<le> unat (rb_use_size b)" "unat (rb_use_size b) \<le> ?m"
    using assms by (auto simp: rb_inv_def rb_held_def)
  have h: "unat (rb_use_size b) - (unat (rb_rda_size b) - n) = rb_held b + n"
    using assms i by (simp add: rb_held_def)
  have "((?r + n) mod ?m + ?m - (rb_held b + n)) mod ?m = (?r + ?m - rb_held b) mod ?m"
  proof (cases "?r + n < ?m")
    case True
    then show ?thesis using i assms by simp
  next
    case False
    then have "(?r + n) mod ?m = ?r + n - ?m" using i assms by (simp add: mod_if)
    then have "(?r + n) mod ?m + ?m - (rb_held b + n) = ?r - rb_held b"
      "?r + ?m - rb_held b = (?r - rb_held b) + ?m"
      using False i assms by linarith+
    then show ?thesis by simp
  qed
  then have "ring_get ?d ((?r + n) mod ?m + ?m - (rb_held b + n)) (rb_held b + n)
      = ring_get ?d (?r + ?m - rb_held b) (rb_held b + n)"
    using i by (intro ring_get_cong) simp
  also have "\<dots> = rb_unacked b @ ring_get ?d ?r n"
    using i by (subst ring_get_add) (simp add: rb_unacked_def)
  finally show ?thesis
    using assms by (simp add: rb_unacked_def rb_held_def rb_read_fields rb_content_def ring_get_take h)
qed

lemma rb_release_fields:
  assumes "rb_inv b" and "n \<le> rb_held b"
  defines "b' \<equiv> hev_ring_buffer_read_release b (of_nat n)"
  shows "rb_data b' = rb_data b" and "rb_rda_size b' = rb_rda_size b" and "rb_max_size b' = rb_max_size b"
    and "unat (rb_use_size b') = unat (rb_use_size b) - n"
    and "rb_rp b' = (if unat (rb_use_size b) = n then 0 else rb_rp b)"
    and "rb_wp b' = (if unat (rb_use_size b) = n then 0 else rb_wp b)"
proof -
  have "n \<le> unat (rb_use_size b)" using assms(2) by (simp add: rb_held_def)
  moreover have "n < 2 ^ 64" using calculation unat_less [of "rb_use_size b"] by simp
  then have l: "unat (of_nat n :: u64) = n" by (intro unat_nat) simp
  ultimately have u: "unat (rb_use_size b - of_nat n) = unat (rb_use_size b) - n"
    by (simp add: unat_minus)
  then have z: "rb_use_size b - of_nat n = 0 \<longleftrightarrow> unat (rb_use_size b) = n"
    using \<open>n \<le> unat (rb_use_size b)\<close> l by (auto simp: word_unat_eq_iff)
  show "rb_data b' = rb_data b" and "rb_rda_size b' = rb_rda_size b" and "rb_max_size b' = rb_max_size b"
    and "unat (rb_use_size b') = unat (rb_use_size b) - n"
    and "rb_rp b' = (if unat (rb_use_size b) = n then 0 else rb_rp b)"
    and "rb_wp b' = (if unat (rb_use_size b) = n then 0 else rb_wp b)"
    using u z by (simp_all add: b'_def hev_ring_buffer_read_release_def Let_def)
qed

lemma rb_use_all:
  assumes "rb_inv b" and "n \<le> rb_held b" and "unat (rb_use_size b) = n"
  shows "rb_rda_size b = 0"
proof -
  have "unat (rb_rda_size b) \<le> unat (rb_use_size b)"
    "unat (rb_use_size b) \<le> unat (rb_use_size b) - unat (rb_rda_size b)"
    using assms by (simp_all add: rb_inv_def rb_held_def)
  then have "unat (rb_rda_size b) = 0" by linarith
  then show ?thesis by simp
qed

lemma rb_inv_release:
  assumes "rb_inv b" and "n \<le> rb_held b"
  shows "rb_inv (hev_ring_buffer_read_release b (of_nat n))"
  using assms rb_use_all [OF assms]
  by (auto simp: rb_inv_def [of "hev_ring_buffer_read_release b (of_nat n)"] rb_release_fields)
    (auto simp: rb_held_def rb_inv_def)

lemma rb_content_release:
  "rb_inv b \<Longrightarrow> n \<le> rb_held b \<Longrightarrow>
   rb_content (hev_ring_buffer_read_release b (of_nat n)) = rb_content b"
  by (auto simp: rb_content_def rb_release_fields dest: rb_use_all)

lemma rb_unacked_release:
  assumes "rb_inv b" and "n \<le> rb_held b"
  shows "rb_unacked (hev_ring_buffer_read_release b (of_nat n)) = drop n (rb_unacked b)"
proof (cases "unat (rb_use_size b) = n")
  case True
  with assms have "rb_held b = n" by (auto simp: rb_held_def)
  with True assms show ?thesis by (simp add: rb_unacked_def rb_held_def rb_release_fields)
next
  case False
  let ?m = "unat (rb_max_size b)" and ?r = "unat (rb_rp b)"
  have "length (rb_data b) = ?m" "rb_held b \<le> ?m" "unat (rb_use_size b) - n - unat (rb_rda_size b) = rb_held b - n"
    using assms by (auto simp: rb_inv_def rb_held_def)
  moreover have "?r + ?m - (rb_held b - n) = ?r + ?m - rb_held b + n"
    using calculation assms by linarith
  ultimately show ?thesis
    using False assms
    by (simp add: rb_unacked_def rb_held_def [of "hev_ring_buffer_read_release b (of_nat n)"]
        rb_release_fields ring_get_drop) (metis ring_get_mod)
qed

lemma rb_length_content [simp]: "length (rb_content b) = unat (rb_rda_size b)"
  by (simp add: rb_content_def)

lemma rb_length_unacked [simp]: "length (rb_unacked b) = rb_held b"
  by (simp add: rb_unacked_def)

lemma rb_content_Nil: "rb_content b = [] \<longleftrightarrow> rb_rda_size b = 0"
  using rb_length_content [of b] by (metis length_0_conv unat_0_eq)

lemma rb_reading_gather:
  assumes "rb_inv b"
  shows "iov_gather (rb_data b) (hev_ring_buffer_reading b) = rb_content b"
  using assms
proof (cases rule: rb_reading_cases)
  case empty
  then show ?thesis by (simp add: rb_content_def)
next
  case straight
  then show ?thesis using assms by (simp add: rb_content_def ring_get_straight rb_inv_def)
next
  case (wrapped l1 l2)
  then show ?thesis using assms
    by (simp add: rb_content_def rb_inv_def ring_get_wrapped)
qed

lemma rb_writing_within:
  assumes "rb_inv b"
  shows "iov_within (length (rb_data b)) (hev_ring_buffer_writing b)"
proof -
  have len: "length (rb_data b) = unat (rb_max_size b)" using assms by (simp add: rb_inv_def)
  show ?thesis
    by (rule rb_writing_cases [OF assms])
      (use len rb_inv_wp [OF assms] in \<open>auto simp: rb_space_def\<close>)
qed

lemma rb_writing_total: "rb_inv b \<Longrightarrow> iov_total (hev_ring_buffer_writing b) = rb_space b"
  by (erule rb_writing_cases) auto

lemma rb_writing_none: "rb_inv b \<Longrightarrow> hev_ring_buffer_writing b = [] \<longleftrightarrow> rb_space b = 0"
  by (erule rb_writing_cases) auto

lemma rb_reading_within:
  assumes "rb_inv b"
  shows "iov_within (length (rb_data b)) (hev_ring_buffer_reading b)"
  by (rule rb_reading_cases [OF assms]) (use assms rb_inv_wp [OF assms] in \<open>auto simp: rb_inv_def \<close>)

lemma rb_reading_none: "rb_inv b \<Longrightarrow> hev_ring_buffer_reading b = [] \<longleftrightarrow> rb_content b = []"
  by (erule rb_reading_cases) (auto simp: rb_content_Nil)

interpretation rbq: window_fifo rb_inv rb_data rb_set_data rb_content rb_space
  hev_ring_buffer_writing hev_ring_buffer_write_finish
  hev_ring_buffer_reading hev_ring_buffer_read_finish
  rb_unacked hev_ring_buffer_read_release
  by unfold_locales
    (simp_all add: rb_writing_within rb_writing_total rb_writing_none rb_reading_within
      rb_reading_gather rb_reading_none rb_inv_store rb_content_store rb_inv_read rb_content_read
      rb_unacked_store rb_unacked_read rb_inv_release rb_unacked_release rb_content_release)

section \<open>HevCircularBuffer\<close>

record HevCircularBuffer =
  cb_rp :: u64
  cb_use_size :: u64
  cb_max_size :: u64
  cb_ref_count :: u32
  cb_data :: "byte list"

text \<open>\<open>None\<close> is a failed allocation; \<open>mem\<close> is the unspecified content of a successful one.\<close>

definition hev_circular_buffer_new :: "byte list option \<Rightarrow> u64 \<Rightarrow> HevCircularBuffer option" where
  "hev_circular_buffer_new alloc max_size =
     (case alloc of
        None \<Rightarrow> None
      | Some mem \<Rightarrow> Some \<lparr>cb_rp = 0, cb_use_size = 0, cb_max_size = max_size, cb_ref_count = 1, cb_data = mem\<rparr>)"

definition hev_circular_buffer_ref :: "HevCircularBuffer \<Rightarrow> HevCircularBuffer" where
  "hev_circular_buffer_ref self = self\<lparr>cb_ref_count := cb_ref_count self + 1\<rparr>"

text \<open>\<open>None\<close> when the last reference is gone and the buffer is freed.\<close>

definition hev_circular_buffer_unref :: "HevCircularBuffer \<Rightarrow> HevCircularBuffer option" where
  "hev_circular_buffer_unref self =
     (let self = self\<lparr>cb_ref_count := cb_ref_count self - 1\<rparr>
      in if cb_ref_count self \<noteq> 0 then Some self else None)"

definition hev_circular_buffer_get_max_size :: "HevCircularBuffer \<Rightarrow> u64" where
  "hev_circular_buffer_get_max_size self = cb_max_size self"

definition hev_circular_buffer_get_use_size :: "HevCircularBuffer \<Rightarrow> u64" where
  "hev_circular_buffer_get_use_size self = cb_use_size self"

definition hev_circular_buffer_reading :: "HevCircularBuffer \<Rightarrow> iovec list" where
  "hev_circular_buffer_reading self =
     (let upper_size = cb_max_size self - cb_rp self in
      if 0 = cb_use_size self then []
      else if cb_use_size self \<le> upper_size
      then [\<lparr>iov_base = cb_rp self, iov_len = cb_use_size self\<rparr>]
      else [\<lparr>iov_base = cb_rp self, iov_len = upper_size\<rparr>,
            \<lparr>iov_base = 0, iov_len = cb_use_size self - upper_size\<rparr>])"

definition hev_circular_buffer_read_finish :: "HevCircularBuffer \<Rightarrow> u64 \<Rightarrow> HevCircularBuffer" where
  "hev_circular_buffer_read_finish self sz =
     self\<lparr>cb_rp := (cb_rp self + sz) mod cb_max_size self, cb_use_size := cb_use_size self - sz\<rparr>"

definition hev_circular_buffer_writing :: "HevCircularBuffer \<Rightarrow> iovec list" where
  "hev_circular_buffer_writing self =
     (let wp = (cb_rp self + cb_use_size self) mod cb_max_size self;
          upper_size = cb_max_size self - wp;
          spc_size = cb_max_size self - cb_use_size self in
      if cb_use_size self = cb_max_size self then []
      else if spc_size \<le> upper_size
      then [\<lparr>iov_base = wp, iov_len = spc_size\<rparr>]
      else [\<lparr>iov_base = wp, iov_len = upper_size\<rparr>,
            \<lparr>iov_base = 0, iov_len = spc_size - upper_size\<rparr>])"

definition hev_circular_buffer_write_finish :: "HevCircularBuffer \<Rightarrow> u64 \<Rightarrow> HevCircularBuffer" where
  "hev_circular_buffer_write_finish self sz = self\<lparr>cb_use_size := cb_use_size self + sz\<rparr>"

text \<open>
  A circular buffer is a ring buffer none of whose bytes are held back: the lemmas above
  carry over along this view.
\<close>

definition cb_ring :: "HevCircularBuffer \<Rightarrow> HevRingBuffer" where
  "cb_ring c = \<lparr>rb_rp = cb_rp c, rb_wp = (cb_rp c + cb_use_size c) mod cb_max_size c,
     rb_rda_size = cb_use_size c, rb_use_size = cb_use_size c, rb_max_size = cb_max_size c,
     rb_data = cb_data c\<rparr>"

definition cb_inv :: "HevCircularBuffer \<Rightarrow> bool" where
  "cb_inv c \<longleftrightarrow> rb_inv (cb_ring c)"

definition cb_content :: "HevCircularBuffer \<Rightarrow> byte list" where
  "cb_content c = rb_content (cb_ring c)"

definition cb_space :: "HevCircularBuffer \<Rightarrow> nat" where
  "cb_space c = rb_space (cb_ring c)"

definition cb_set_data :: "HevCircularBuffer \<Rightarrow> byte list \<Rightarrow> HevCircularBuffer" where
  "cb_set_data c d = c\<lparr>cb_data := d\<rparr>"

lemma cb_inv_new:
  assumes "length mem = unat s" and "0 < s" and "unat s < 2 ^ 63"
    and "hev_circular_buffer_new (Some mem) s = Some c"
  shows "cb_inv c"
  using assms by (auto simp: hev_circular_buffer_new_def cb_inv_def cb_ring_def rb_inv_def word_less_nat_alt)

lemma cb_reading_ring: "hev_circular_buffer_reading c = hev_ring_buffer_reading (cb_ring c)"
  by (simp add: hev_circular_buffer_reading_def hev_ring_buffer_reading_def cb_ring_def Let_def)

lemma cb_writing_ring: "hev_circular_buffer_writing c = hev_ring_buffer_writing (cb_ring c)"
  by (simp add: hev_circular_buffer_writing_def hev_ring_buffer_writing_def cb_ring_def Let_def)

lemma cb_store_ring:
  assumes "cb_inv c" and "length bs \<le> cb_space c"
  shows "cb_ring (hev_circular_buffer_write_finish
      (cb_set_data c (iov_scatter (cb_data c) (hev_circular_buffer_writing c) bs)) (of_nat (length bs)))
    = hev_ring_buffer_write_finish
      (rb_set_data (cb_ring c) (iov_scatter (rb_data (cb_ring c)) (hev_ring_buffer_writing (cb_ring c)) bs))
      (of_nat (length bs))"
proof -
  have "(cb_rp c + (cb_use_size c + of_nat (length bs))) mod cb_max_size c
      = ((cb_rp c + cb_use_size c) mod cb_max_size c + of_nat (length bs)) mod cb_max_size c"
  proof -
    have m: "unat (cb_use_size c) + length bs \<le> unat (cb_max_size c)" "unat (cb_max_size c) < 2 ^ 63"
        "unat (cb_rp c) < unat (cb_max_size c)"
      using assms by (auto simp: cb_inv_def rb_inv_def cb_ring_def cb_space_def rb_space_def)
    then have l: "unat (of_nat (length bs) :: u64) = length bs" by (intro unat_nat) simp
    have "unat ((cb_rp c + cb_use_size c) mod cb_max_size c) < unat (cb_max_size c)"
      using m by (simp add: unat_mod)
    then have "unat ((cb_rp c + cb_use_size c) mod cb_max_size c + of_nat (length bs))
        = unat ((cb_rp c + cb_use_size c) mod cb_max_size c) + length bs"
      using m l by (subst unat_plus) simp_all
    then show ?thesis
      using m l by (simp only: word_unat_eq_iff unat_mod) (simp add: unat_mod unat_plus mod_add_left_eq add.assoc)
  qed
  then show ?thesis
    by (simp add: cb_ring_def hev_circular_buffer_write_finish_def hev_ring_buffer_write_finish_def
        cb_set_data_def rb_set_data_def cb_writing_ring)
qed

lemma cb_read_ring:
  assumes "cb_inv c" and "n \<le> length (cb_content c)"
  shows "cb_ring (hev_circular_buffer_read_finish c (of_nat n))
    = (hev_ring_buffer_read_finish (cb_ring c) (of_nat n))\<lparr>rb_use_size := cb_use_size c - of_nat n\<rparr>"
proof -
  have m: "n \<le> unat (cb_use_size c)" "unat (cb_use_size c) \<le> unat (cb_max_size c)"
      "unat (cb_max_size c) < 2 ^ 63" "unat (cb_rp c) < unat (cb_max_size c)"
    using assms by (auto simp: cb_inv_def rb_inv_def cb_ring_def cb_content_def)
  then have l: "unat (of_nat n :: u64) = n" by (intro unat_nat) simp
  have "((cb_rp c + of_nat n) mod cb_max_size c + (cb_use_size c - of_nat n)) mod cb_max_size c
      = (cb_rp c + cb_use_size c) mod cb_max_size c"
  proof -
    have "unat (cb_use_size c - of_nat n) = unat (cb_use_size c) - n"
      using m l by (simp add: unat_minus)
    moreover have "unat ((cb_rp c + of_nat n) mod cb_max_size c) < unat (cb_max_size c)"
      using m by (simp add: unat_mod)
    ultimately have "unat ((cb_rp c + of_nat n) mod cb_max_size c + (cb_use_size c - of_nat n))
        = unat ((cb_rp c + of_nat n) mod cb_max_size c) + (unat (cb_use_size c) - n)"
      using m by (subst unat_plus) simp_all
    then show ?thesis
      using m l by (simp only: word_unat_eq_iff unat_mod) (simp add: unat_mod unat_plus mod_shift)
  qed
  then show ?thesis
    by (simp add: cb_ring_def hev_circular_buffer_read_finish_def hev_ring_buffer_read_finish_def)
qed

lemma rb_inv_shrink: "rb_inv b \<Longrightarrow> rb_inv (b\<lparr>rb_use_size := rb_rda_size b\<rparr>)"
  by (auto simp: rb_inv_def)

lemma cb_inv_read:
  assumes "cb_inv c" and "n \<le> length (cb_content c)"
  shows "cb_inv (hev_circular_buffer_read_finish c (of_nat n))"
proof -
  have "rb_inv (hev_ring_buffer_read_finish (cb_ring c) (of_nat n))"
    using assms by (intro rb_inv_read) (simp_all add: cb_inv_def cb_content_def)
  from rb_inv_shrink [OF this] show ?thesis
    unfolding cb_inv_def cb_read_ring [OF assms]
    by (simp add: hev_ring_buffer_read_finish_def cb_ring_def)
qed

lemma cb_content_read:
  "cb_inv c \<Longrightarrow> n \<le> length (cb_content c) \<Longrightarrow>
   cb_content (hev_circular_buffer_read_finish c (of_nat n)) = drop n (cb_content c)"
  using rb_content_read [of "cb_ring c" n] cb_read_ring [of c n]
  by (simp add: cb_content_def cb_inv_def) (simp add: rb_content_def)

lemma cb_ring_data [simp]: "rb_data (cb_ring c) = cb_data c"
  by (simp add: cb_ring_def)

lemmas cb_view = cb_inv_def cb_content_def cb_space_def cb_writing_ring cb_reading_ring

interpretation cbq: byte_fifo cb_inv cb_data cb_set_data cb_content cb_space
  hev_circular_buffer_writing hev_circular_buffer_write_finish
  hev_circular_buffer_reading hev_circular_buffer_read_finish
proof (unfold_locales, goal_cases)
  case (1 q) then show ?case using rb_writing_within [of "cb_ring q"] by (simp add: cb_view)
next
  case (2 q) then show ?case using rb_writing_total [of "cb_ring q"] by (simp add: cb_view)
next
  case (3 q) then show ?case using rb_writing_none [of "cb_ring q"] by (simp add: cb_view)
next
  case (4 q) then show ?case using rb_reading_within [of "cb_ring q"] by (simp add: cb_view)
next
  case (5 q) then show ?case using rb_reading_gather [of "cb_ring q"] by (simp add: cb_view)
next
  case (6 q) then show ?case using rb_reading_none [of "cb_ring q"] by (simp add: cb_view)
next
  case (7 q bs)
  then show ?case
    using rb_inv_store [of "cb_ring q" bs] cb_store_ring [of q bs] by (simp add: cb_inv_def cb_space_def)
next
  case (8 q bs)
  then show ?case
    using rb_content_store [of "cb_ring q" bs] cb_store_ring [of q bs]
    by (simp add: cb_inv_def cb_space_def cb_content_def)
qed (simp_all add: cb_inv_read cb_content_read)

section \<open>Traces\<close>

text \<open>
  The life of a session buffer: bytes are stored through the writing regions, the reader takes
  a prefix of the reading regions, lwIP acknowledges bytes it was given.  The accumulated
  inputs, outputs and the number of acknowledged bytes are returned; \<open>None\<close> means that the
  caller broke the contract (wrote more than the regions hold, took or released more than
  there is).
\<close>

datatype rb_op = RbWrite "byte list" | RbRead nat | RbAck nat

fun rb_exec :: "HevRingBuffer \<Rightarrow> rb_op list \<Rightarrow> (HevRingBuffer \<times> byte list \<times> byte list \<times> nat) option" where
  "rb_exec b [] = Some (b, [], [], 0)"
| "rb_exec b (RbWrite bs # ops) =
     (let v = hev_ring_buffer_writing b in
      if iov_total v < length bs then None
      else map_option (\<lambda>(b', i, out, k). (b', bs @ i, out, k))
        (rb_exec (hev_ring_buffer_write_finish (rb_set_data b (iov_scatter (rb_data b) v bs)) (of_nat (length bs))) ops))"
| "rb_exec b (RbRead n # ops) =
     (let avail = iov_gather (rb_data b) (hev_ring_buffer_reading b) in
      if length avail < n then None
      else map_option (\<lambda>(b', i, out, k). (b', i, take n avail @ out, k))
        (rb_exec (hev_ring_buffer_read_finish b (of_nat n)) ops))"
| "rb_exec b (RbAck n # ops) =
     (if rb_held b < n then None
      else map_option (\<lambda>(b', i, out, k). (b', i, out, n + k))
        (rb_exec (hev_ring_buffer_read_release b (of_nat n)) ops))"

lemma rb_exec_trace:
  "rb_exec b ops = Some (b', i, out, k) \<Longrightarrow> rb_inv b \<Longrightarrow>
   rb_inv b' \<and> out @ rb_content b' = rb_content b @ i \<and> drop k (rb_unacked b @ out) = rb_unacked b' \<and>
   k \<le> rb_held b + length out"
proof (induction b ops arbitrary: b' i out k rule: rb_exec.induct)
  case (2 b bs ops)
  let ?b = "hev_ring_buffer_write_finish (rb_set_data b (iov_scatter (rb_data b) (hev_ring_buffer_writing b) bs)) (of_nat (length bs))"
  have fit: "length bs \<le> rb_space b" using 2(2,3) by (auto simp: Let_def rb_writing_total split: if_splits)
  with 2(2,3) obtain i' where e: "rb_exec ?b ops = Some (b', i', out, k)" "i = bs @ i'"
    by (auto simp: Let_def rb_writing_total split: if_splits)
  have u: "rb_unacked ?b = rb_unacked b" "rb_held ?b = rb_held b"
    using rb_unacked_store[OF 2(3) fit] rb_length_unacked[of ?b] by auto
  have "rb_inv b' \<and> out @ rb_content b' = rb_content ?b @ i' \<and> drop k (rb_unacked ?b @ out) = rb_unacked b' \<and>
      k \<le> rb_held ?b + length out"
    using 2(1)[OF refl _ e(1) rb_inv_store[OF 2(3) fit]] fit 2(3) by (simp add: rb_writing_total)
  then show ?case using e(2) u by (simp add: rb_content_store[OF 2(3) fit])
next
  case (3 b n ops)
  let ?b = "hev_ring_buffer_read_finish b (of_nat n)"
  have n: "n \<le> length (rb_content b)" using 3(2,3) by (auto simp: Let_def rb_reading_gather split: if_splits)
  with 3(2,3) obtain out' where e: "rb_exec ?b ops = Some (b', i, out', k)" "out = take n (rb_content b) @ out'"
    by (auto simp: Let_def rb_reading_gather split: if_splits)
  have u: "rb_unacked ?b = rb_unacked b @ take n (rb_content b)" "rb_held ?b = rb_held b + n"
    using rb_unacked_read[OF 3(3)] n rb_length_unacked[of ?b] by auto
  have "rb_inv b' \<and> out' @ rb_content b' = drop n (rb_content b) @ i \<and>
      drop k (rb_unacked ?b @ out') = rb_unacked b' \<and> k \<le> rb_held ?b + length out'"
    using 3(1)[OF refl _ e(1)] 3(3) n rb_inv_read[OF 3(3)] rb_content_read[OF 3(3)]
    by (simp add: rb_reading_gather)
  then show ?case using e(2) n u append_take_drop_id[of n "rb_content b"]
    by (metis append.assoc length_append length_take min.absorb2 add.assoc)
next
  case (4 b n ops)
  let ?b = "hev_ring_buffer_read_release b (of_nat n)"
  have n: "n \<le> rb_held b" using 4(2) by (auto split: if_splits)
  with 4(2) obtain k' where e: "rb_exec ?b ops = Some (b', i, out, k')" "k = n + k'"
    by (auto split: if_splits)
  have u: "rb_unacked ?b = drop n (rb_unacked b)" "rb_held ?b = rb_held b - n"
    using rb_unacked_release[OF 4(3) n] rb_length_unacked[of ?b] by auto
  have "rb_inv b' \<and> out @ rb_content b' = rb_content b @ i \<and>
      drop k' (rb_unacked ?b @ out) = rb_unacked b' \<and> k' \<le> rb_held ?b + length out"
    using 4(1)[OF _ e(1)] 4(3) n rb_inv_release[OF 4(3) n] rb_content_release[OF 4(3) n] by simp
  then show ?case using e(2) n u by (auto simp: add.commute[of n] simp flip: drop_drop)
qed auto

text \<open>
  C1: Whatever the order in which a new ring buffer of the session is filled, drained and
  acknowledged, the bytes given to lwIP are a prefix of the bytes received, the rest is still
  queued, and the bytes given to lwIP and not yet acknowledged, which lwIP reads in place to
  send and resend them, are still in the buffer unchanged.
\<close>

theorem ring_buffer_trace:
  assumes "length mem = unat s" and "0 < s" and "unat s < 2 ^ 63"
    and "rb_exec (hev_ring_buffer_alloca s mem) ops = Some (b, i, out, k)"
  shows "rb_inv b \<and> i = out @ rb_content b \<and> rb_unacked b = drop k out \<and> k \<le> length out"
  using rb_exec_trace[OF assms(4) rb_inv_alloca[OF assms(1-3)]]
  by (auto simp: hev_ring_buffer_alloca_def rb_content_def rb_unacked_def rb_held_def)

theorem ring_buffer_trace_witness:
  "let b = hev_ring_buffer_alloca 4 [9, 9, 9, 9];
       ops = [RbWrite [1, 2, 3], RbRead 3, RbAck 2, RbWrite [4, 5, 6], RbRead 1] in
   \<exists>b' k. rb_exec b ops = Some (b', [1, 2, 3, 4, 5, 6], [1, 2, 3, 4], k) \<and> rb_inv b' \<and>
     rb_content b' = [5, 6] \<and> rb_unacked b' = [3, 4]"
proof -
  have "map_option snd (rb_exec (hev_ring_buffer_alloca 4 [9, 9, 9, 9])
      [RbWrite [1, 2, 3], RbRead 3, RbAck 2, RbWrite [4, 5, 6], RbRead 1]) = Some ([1, 2, 3, 4, 5, 6], [1, 2, 3, 4], 2)"
    by code_simp
  then obtain b' where b': "rb_exec (hev_ring_buffer_alloca 4 [9, 9, 9, 9])
      [RbWrite [1, 2, 3], RbRead 3, RbAck 2, RbWrite [4, 5, 6], RbRead 1] = Some (b', [1, 2, 3, 4, 5, 6], [1, 2, 3, 4], 2)"
    by auto
  with ring_buffer_trace[OF _ _ _ b'] show ?thesis by (auto simp: Let_def)
qed

text \<open>
  C12: The regions offered for reading and for writing lie inside the buffer, the readable regions hold
  exactly the queued bytes, and the writable regions are all that is left of the capacity beside the
  queued bytes and the bytes held for lwIP.  No byte in use is offered for writing: whatever is
  stored into the writable regions, the queued bytes and the held bytes stay as they were.
\<close>

theorem ring_buffer_regions:
  assumes "rb_inv b"
  shows "iov_within (length (rb_data b)) (hev_ring_buffer_writing b)
     \<and> iov_within (length (rb_data b)) (hev_ring_buffer_reading b)
     \<and> iov_gather (rb_data b) (hev_ring_buffer_reading b) = rb_content b
     \<and> iov_total (hev_ring_buffer_writing b) + length (rb_content b) + length (rb_unacked b)
         = unat (hev_ring_buffer_get_max_size b)
     \<and> (length bs \<le> iov_total (hev_ring_buffer_writing b) \<longrightarrow>
        (let b' = rb_set_data b (iov_scatter (rb_data b) (hev_ring_buffer_writing b) bs)
         in rb_content b' = rb_content b \<and> rb_unacked b' = rb_unacked b))"
proof -
  have "rb_space b + unat (rb_rda_size b) + rb_held b = unat (rb_max_size b)"
    using assms by (simp add: rb_space_def rb_held_def rb_inv_def)
  then show ?thesis
    using assms rb_writing_within rb_reading_within rb_reading_gather rb_writing_disjoint[of b bs]
    by (simp add: rb_writing_total hev_ring_buffer_get_max_size_def Let_def)
qed

theorem ring_buffer_regions_witness:
  "let b = \<lparr>rb_rp = 2, rb_wp = 0, rb_rda_size = 2, rb_use_size = 3, rb_max_size = 4, rb_data = [1, 2, 3, 4]\<rparr>;
       b' = rb_set_data b (iov_scatter (rb_data b) (hev_ring_buffer_writing b) [9]) in
   iov_gather (rb_data b) (hev_ring_buffer_reading b) = [3, 4] \<and> rb_data b' = [9, 2, 3, 4] \<and>
   rb_content b' = [3, 4] \<and> rb_unacked b' = [2]"
proof -
  let ?b = "\<lparr>rb_rp = 2, rb_wp = 0, rb_rda_size = 2, rb_use_size = 3, rb_max_size = 4, rb_data = [1, 2, 3, 4]\<rparr>"
  have "rb_inv ?b" by (simp add: rb_inv_def)
  moreover have "rb_content ?b = [3, 4]" "rb_unacked ?b = [2]" "iov_total (hev_ring_buffer_writing ?b) = 1"
    "rb_data (rb_set_data ?b (iov_scatter (rb_data ?b) (hev_ring_buffer_writing ?b) [9])) = [9, 2, 3, 4]" by code_simp+
  ultimately show ?thesis using ring_buffer_regions[of ?b "[9]"] by (simp add: Let_def)
qed

text \<open>The same for the circular buffer of the splice loop, where a read releases at once.\<close>

datatype cb_op = CbWrite "byte list" | CbRead nat

fun cb_exec :: "HevCircularBuffer \<Rightarrow> cb_op list \<Rightarrow> (HevCircularBuffer \<times> byte list \<times> byte list) option" where
  "cb_exec c [] = Some (c, [], [])"
| "cb_exec c (CbWrite bs # ops) =
     (let v = hev_circular_buffer_writing c in
      if iov_total v < length bs then None
      else map_option (\<lambda>(c', i, out). (c', bs @ i, out))
        (cb_exec (hev_circular_buffer_write_finish (cb_set_data c (iov_scatter (cb_data c) v bs)) (of_nat (length bs))) ops))"
| "cb_exec c (CbRead n # ops) =
     (let avail = iov_gather (cb_data c) (hev_circular_buffer_reading c) in
      if length avail < n then None
      else map_option (\<lambda>(c', i, out). (c', i, take n avail @ out))
        (cb_exec (hev_circular_buffer_read_finish c (of_nat n)) ops))"

fun cb_ev :: "cb_op \<Rightarrow> byte list + nat" where
  "cb_ev (CbWrite bs) = Inl bs"
| "cb_ev (CbRead n) = Inr n"

lemma cb_exec_run: "cb_inv c \<Longrightarrow> cb_exec c ops = cbq.run c (map cb_ev ops)"
proof (induction c ops rule: cb_exec.induct)
  case (2 c bs ops)
  then show ?case
    by (auto simp: Let_def cbq.writing_total cbq.store_def cbq.write_inv)
next
  case (3 c n ops)
  then show ?case
    by (auto simp: Let_def cbq.reading_gather cbq.consume_def cbq.read_inv)
qed simp

text \<open>
  C8: A circular buffer is a queue: after any sequence of stores and reads on a new buffer,
  the bytes read followed by the bytes still queued are exactly the bytes stored.
\<close>

theorem circular_buffer_trace:
  assumes "length mem = unat s" and "0 < s" and "unat s < 2 ^ 63"
    and "hev_circular_buffer_new (Some mem) s = Some c"
    and "cb_exec c ops = Some (c', i, out)"
  shows "cb_inv c' \<and> i = out @ cb_content c'"
proof -
  have "cb_inv c" using cb_inv_new assms(1-4) by blast
  moreover have "cb_content c = []"
    using assms(4) by (auto simp: hev_circular_buffer_new_def cb_content_def cb_ring_def rb_content_def)
  ultimately show ?thesis
    using cbq.run_fifo[of c "map cb_ev ops" c' i out] cb_exec_run assms(5) by auto
qed

theorem circular_buffer_trace_witness:
  "\<exists>c c'. hev_circular_buffer_new (Some [0, 0, 0]) 3 = Some c \<and>
     cb_exec c [CbWrite [1, 2], CbRead 1, CbWrite [3, 4], CbRead 2] = Some (c', [1, 2, 3, 4], [1, 2, 3]) \<and>
     cb_content c' = [4]"
proof -
  define c where "c = the (hev_circular_buffer_new (Some [0, 0, 0]) 3)"
  have c: "hev_circular_buffer_new (Some [0, 0, 0]) 3 = Some c"
    by (simp add: c_def hev_circular_buffer_new_def)
  have "map_option snd (cb_exec c [CbWrite [1, 2], CbRead 1, CbWrite [3, 4], CbRead 2]) = Some ([1, 2, 3, 4], [1, 2, 3])"
    unfolding c_def by code_simp
  then obtain c' where c': "cb_exec c [CbWrite [1, 2], CbRead 1, CbWrite [3, 4], CbRead 2] = Some (c', [1, 2, 3, 4], [1, 2, 3])"
    by auto
  with c circular_buffer_trace[OF _ _ _ c c'] show ?thesis by auto
qed

end
