(* ===== verification/Task_IO.thy ===== *)
theory Task_IO
  imports Prelude Ring_Buffer
begin

text \<open>
  The cooperative socket I/O of the task system (\<open>hev-task-io-socket.c\<close>, \<open>hev-task-io.c\<close>)
  over a non-blocking stream socket.

  The kernel is the environment: a \<open>net\<close> record holds, for one connected socket, the script
  of what successive system calls will find (\<open>net_rx\<close>, \<open>net_tx\<close>, \<open>net_conn\<close>), the bytes the
  kernel has accepted for sending (\<open>net_out\<close>), whether the sending side was shut down, and the
  content \<open>net_junk\<close> of memory the program has not initialised.  An exhausted script means the
  call is never answered: the operation does not return, value \<open>None\<close>.  The objects of the
  program extend this record, as the C structs embed the socket they own.

  A loop of the source is a \<^theory_text>\<open>partial_function (option)\<close>; \<open>recv_complete\<close> and
  \<open>send_complete\<close> show that it returns when the peer answers.
\<close>

datatype HevTaskYieldType = HEV_TASK_YIELD | HEV_TASK_WAITIO

text \<open>What one \<open>recv\<close>, \<open>send\<close> or \<open>connect\<close> finds.\<close>

datatype rx_ev = RxData "byte list" | RxEof | RxAgain | RxErr
datatype tx_ev = TxOk nat | TxAgain | TxErr
datatype conn_ev = ConnOk | ConnInProgress | ConnIsConn | ConnErr

record net =
  net_rx :: "rx_ev list"
  net_tx :: "tx_ev list"
  net_conn :: "conn_ev list"
  net_out :: "byte list"
  net_shut :: bool
  net_junk :: "nat \<Rightarrow> byte"

datatype io_res = Ret int | Eagain

type_synonym 'a yielder = "HevTaskYieldType \<Rightarrow> 'a net_scheme \<Rightarrow> (int \<times> 'a net_scheme) option"

section \<open>System calls on a stream socket\<close>

text \<open>
  \<open>recv\<close> delivers at most \<open>len\<close> bytes of the first segment and leaves the rest; the end of
  the stream is reported again by every later call.
\<close>

definition sys_recv :: "nat \<Rightarrow> 'a net_scheme \<Rightarrow> (io_res \<times> byte list \<times> 'a net_scheme) option" where
  "sys_recv len w =
     (case net_rx w of
        [] \<Rightarrow> None
      | RxData bs # es \<Rightarrow>
          (let n = min len (length bs)
           in Some (Ret (int n), take n bs,
                w\<lparr>net_rx := (if n < length bs then RxData (drop n bs) # es else es)\<rparr>))
      | RxEof # es \<Rightarrow> Some (Ret 0, [], w)
      | RxAgain # es \<Rightarrow> Some (Eagain, [], w\<lparr>net_rx := es\<rparr>)
      | RxErr # es \<Rightarrow> Some (Ret (-1), [], w\<lparr>net_rx := es\<rparr>))"

text \<open>\<open>send\<close> accepts a prefix of the bytes offered.\<close>

definition sys_send :: "byte list \<Rightarrow> 'a net_scheme \<Rightarrow> (io_res \<times> 'a net_scheme) option" where
  "sys_send bs w =
     (case net_tx w of
        [] \<Rightarrow> None
      | TxOk k # es \<Rightarrow>
          (let n = min k (length bs)
           in Some (Ret (int n), w\<lparr>net_tx := es, net_out := net_out w @ take n bs\<rparr>))
      | TxAgain # es \<Rightarrow> Some (Eagain, w\<lparr>net_tx := es\<rparr>)
      | TxErr # es \<Rightarrow> Some (Ret (-1), w\<lparr>net_tx := es\<rparr>))"

text \<open>The bytes the peer has sent that no call has taken yet.\<close>

fun rx_bytes :: "rx_ev list \<Rightarrow> byte list" where
  "rx_bytes [] = []"
| "rx_bytes (RxData bs # es) = bs @ rx_bytes es"
| "rx_bytes (RxEof # es) = []"
| "rx_bytes (RxAgain # es) = rx_bytes es"
| "rx_bytes (RxErr # es) = rx_bytes es"

lemma sys_recv_Some:
  assumes "sys_recv len w = Some (r, bs, w')"
  shows "rx_bytes (net_rx w) = bs @ rx_bytes (net_rx w')"
    and "net_out w' = net_out w" and "net_tx w' = net_tx w" and "net_conn w' = net_conn w"
    and "net_shut w' = net_shut w"
    and "net_junk w' = net_junk w" and "length bs \<le> len"
    and "r = Ret s \<Longrightarrow> s \<le> 0 \<Longrightarrow> bs = []" and "r = Eagain \<Longrightarrow> bs = []"
    and "r = Ret s \<Longrightarrow> 0 < s \<Longrightarrow> s = int (length bs)"
  using assms by (auto simp: sys_recv_def Let_def min_def split: list.splits rx_ev.splits if_splits)

lemma sys_send_Some:
  assumes "sys_send bs w = Some (r, w')"
  shows "net_rx w' = net_rx w" and "net_conn w' = net_conn w" and "net_shut w' = net_shut w" and "net_junk w' = net_junk w"
    and "r = Ret s \<Longrightarrow> 0 < s \<Longrightarrow> s \<le> int (length bs) \<and> net_out w' = net_out w @ take (nat s) bs"
    and "r = Ret s \<Longrightarrow> s \<le> 0 \<Longrightarrow> net_out w' = net_out w"
    and "r = Eagain \<Longrightarrow> net_out w' = net_out w"
  using assms by (auto simp: sys_send_def Let_def min_def split: list.splits tx_ev.splits if_splits)

section \<open>hev-task-io-socket.c\<close>

text \<open>
  \<open>hev_task_io_socket_recv\<close>: \<open>got\<close> is what is already in the buffer (\<open>size\<close> of the source
  is its length).  Returns the result, the received prefix of the buffer and the new state.
\<close>

partial_function (option) hev_task_io_socket_recv ::
  "'a yielder \<Rightarrow> bool \<Rightarrow> nat \<Rightarrow> byte list \<Rightarrow> 'a net_scheme \<Rightarrow> (int \<times> byte list \<times> 'a net_scheme) option" where
  "hev_task_io_socket_recv yielder waitall len got w =
     Option.bind (sys_recv (len - length got) w) (\<lambda>(r, bs, w).
       case r of
         Eagain \<Rightarrow>
           Option.bind (yielder HEV_TASK_WAITIO w) (\<lambda>(y, w).
             if y \<noteq> 0 then Some (-2, got, w)
             else hev_task_io_socket_recv yielder waitall len got w)
       | Ret s \<Rightarrow>
           if \<not> waitall then Some (s, got @ bs, w)
           else if s \<le> 0 then
             (if got \<noteq> [] then Some (int (length got), got, w) else Some (s, got, w))
           else if length (got @ bs) < len
             then hev_task_io_socket_recv yielder waitall len (got @ bs) w
             else Some (int (length (got @ bs)), got @ bs, w))"

text \<open>\<open>hev_task_io_socket_send\<close>: \<open>sent\<close> is the number of bytes accepted so far.\<close>

partial_function (option) hev_task_io_socket_send ::
  "'a yielder \<Rightarrow> bool \<Rightarrow> byte list \<Rightarrow> nat \<Rightarrow> 'a net_scheme \<Rightarrow> (int \<times> 'a net_scheme) option" where
  "hev_task_io_socket_send yielder waitall buf sent w =
     Option.bind (sys_send (drop sent buf) w) (\<lambda>(r, w).
       case r of
         Eagain \<Rightarrow>
           Option.bind (yielder HEV_TASK_WAITIO w) (\<lambda>(y, w).
             if y \<noteq> 0 then Some (-2, w)
             else hev_task_io_socket_send yielder waitall buf sent w)
       | Ret s \<Rightarrow>
           if \<not> waitall then Some (s, w)
           else if s \<le> 0 then (if sent \<noteq> 0 then Some (int sent, w) else Some (s, w))
           else if sent + nat s < length buf
             then hev_task_io_socket_send yielder waitall buf (sent + nat s) w
             else Some (int (sent + nat s), w))"

text \<open>
  The inner loop of \<open>sendmsg\<close> that moves the vector past the \<open>s\<close> bytes just transferred: whole
  regions are skipped, the first partly used one is shortened from its front.
\<close>

fun iov_advance :: "nat \<Rightarrow> byte list list \<Rightarrow> byte list list" where
  "iov_advance s [] = []"
| "iov_advance s (v # vs) = (if s < length v then drop s v # vs else iov_advance (s - length v) vs)"

partial_function (option) hev_task_io_socket_sendmsg ::
  "'a yielder \<Rightarrow> bool \<Rightarrow> nat \<Rightarrow> byte list list \<Rightarrow> nat \<Rightarrow> 'a net_scheme \<Rightarrow> (int \<times> 'a net_scheme) option" where
  "hev_task_io_socket_sendmsg yielder waitall len iov sent w =
     Option.bind (sys_send (concat iov) w) (\<lambda>(r, w).
       case r of
         Eagain \<Rightarrow>
           Option.bind (yielder HEV_TASK_WAITIO w) (\<lambda>(y, w).
             if y \<noteq> 0 then Some (-2, w)
             else hev_task_io_socket_sendmsg yielder waitall len iov sent w)
       | Ret s \<Rightarrow>
           if \<not> waitall then Some (s, w)
           else if s \<le> 0 then (if sent \<noteq> 0 then Some (int sent, w) else Some (s, w))
           else if sent + nat s < len
             then hev_task_io_socket_sendmsg yielder waitall len (iov_advance (nat s) iov) (sent + nat s) w
             else Some (int (sent + nat s), w))"

text \<open>
  The regions that \<open>recvmsg\<close> fills lie in objects of the caller: \<open>mem\<close> is the list of their contents,
  \<open>mv_obj\<close> the number of the object and \<open>mv_base\<close> the offset in it that \<open>iov_base\<close> points to.  A store
  outside of its object is a bad access (\<^const>\<open>None\<close>).
\<close>

record mem_vec =
  mv_obj :: nat
  mv_base :: nat
  mv_len :: nat

definition mv_total :: "mem_vec list \<Rightarrow> nat" where
  "mv_total iov = sum_list (map mv_len iov)"

definition mem_store :: "nat \<Rightarrow> nat \<Rightarrow> byte list \<Rightarrow> byte list list \<Rightarrow> byte list list option" where
  "mem_store obj base bs mem =
     (if bs = [] then Some mem
      else if obj < length mem \<and> base + length bs \<le> length (mem ! obj)
      then Some (mem[obj := overwrite (mem ! obj) base bs]) else None)"

fun mem_scatter :: "mem_vec list \<Rightarrow> byte list \<Rightarrow> byte list list \<Rightarrow> byte list list option" where
  "mem_scatter [] bs mem = Some mem"
| "mem_scatter (v # vs) bs mem = do {
     mem \<leftarrow> mem_store (mv_obj v) (mv_base v) (take (mv_len v) bs) mem;
     mem_scatter vs (drop (mv_len v) bs) mem }"

text \<open>
  The system call fills the regions in order.  A vector whose lengths add up to more than \<open>SSIZE_MAX\<close> is
  refused with \<open>EINVAL\<close>.
\<close>

definition ssize_max :: nat where
  "ssize_max = 2 ^ 63 - 1"

definition sys_recvmsg ::
  "mem_vec list \<Rightarrow> byte list list \<Rightarrow> 'a net_scheme \<Rightarrow> (io_res \<times> byte list list \<times> 'a net_scheme) option" where
  "sys_recvmsg iov mem w =
     (if ssize_max < mv_total iov then Some (Ret (-1), mem, w)
      else do {
        (r, bs, w) \<leftarrow> sys_recv (mv_total iov) w;
        mem \<leftarrow> mem_scatter iov bs mem;
        Some (r, mem, w) })"

text \<open>The inner loop of \<open>recvmsg\<close>: the first partly used region moves its base and becomes shorter.\<close>

fun mem_advance :: "nat \<Rightarrow> mem_vec list \<Rightarrow> mem_vec list" where
  "mem_advance s [] = []"
| "mem_advance s (v # vs) =
     (if s < mv_len v then v\<lparr>mv_base := mv_base v + s, mv_len := mv_len v - s\<rparr> # vs
      else mem_advance (s - mv_len v) vs)"

partial_function (option) hev_task_io_socket_recvmsg ::
  "'a yielder \<Rightarrow> bool \<Rightarrow> nat \<Rightarrow> mem_vec list \<Rightarrow> nat \<Rightarrow> byte list list \<Rightarrow> 'a net_scheme \<Rightarrow>
   (int \<times> byte list list \<times> 'a net_scheme) option" where
  "hev_task_io_socket_recvmsg yielder waitall len iov sz mem w =
     Option.bind (sys_recvmsg iov mem w) (\<lambda>(r, mem, w).
       case r of
         Eagain \<Rightarrow>
           Option.bind (yielder HEV_TASK_WAITIO w) (\<lambda>(y, w).
             if y \<noteq> 0 then Some (-2, mem, w)
             else hev_task_io_socket_recvmsg yielder waitall len iov sz mem w)
       | Ret s \<Rightarrow>
           if \<not> waitall then Some (s, mem, w)
           else if s \<le> 0 then (if sz \<noteq> 0 then Some (int sz, mem, w) else Some (s, mem, w))
           else if sz + nat s < len
             then hev_task_io_socket_recvmsg yielder waitall len (mem_advance (nat s) iov) (sz + nat s) mem w
             else Some (int (sz + nat s), mem, w))"

definition sys_connect :: "'a net_scheme \<Rightarrow> (conn_ev \<times> 'a net_scheme) option" where
  "sys_connect w = (case net_conn w of [] \<Rightarrow> None | e # es \<Rightarrow> Some (e, w\<lparr>net_conn := es\<rparr>))"

partial_function (option) hev_task_io_socket_connect ::
  "'a yielder \<Rightarrow> 'a net_scheme \<Rightarrow> (int \<times> 'a net_scheme) option" where
  "hev_task_io_socket_connect yielder w =
     Option.bind (sys_connect w) (\<lambda>(e, w).
       case e of
         ConnOk \<Rightarrow> Some (0, w)
       | ConnInProgress \<Rightarrow>
           Option.bind (yielder HEV_TASK_WAITIO w) (\<lambda>(y, w).
             if y \<noteq> 0 then Some (-2, w) else hev_task_io_socket_connect yielder w)
       | ConnIsConn \<Rightarrow> Some (0, w)
       | ConnErr \<Rightarrow> Some (-1, w))"

section \<open>What the loops transfer\<close>

text \<open>
  A yielder gives the processor away: it may change the object it belongs to, but neither the
  socket nor what the peer sends.
\<close>

definition same_net :: "'a net_scheme \<Rightarrow> 'a net_scheme \<Rightarrow> bool" where
  "same_net w w' \<longleftrightarrow>
     net_rx w' = net_rx w \<and> net_tx w' = net_tx w \<and> net_conn w' = net_conn w \<and>
     net_out w' = net_out w \<and> net_shut w' = net_shut w \<and> net_junk w' = net_junk w"

lemma same_netD [dest]:
  assumes "same_net w w'"
  shows "net_rx w' = net_rx w" "net_tx w' = net_tx w" "net_conn w' = net_conn w"
    "net_out w' = net_out w" "net_shut w' = net_shut w" "net_junk w' = net_junk w"
  using assms by (simp_all add: same_net_def)

lemma same_net_refl [simp]: "same_net w w"
  by (simp add: same_net_def)

text \<open>What a receiving and a sending operation do to the socket.\<close>

definition rx_step :: "'a net_scheme \<Rightarrow> byte list \<Rightarrow> 'a net_scheme \<Rightarrow> bool" where
  "rx_step w bs w' \<longleftrightarrow>
     rx_bytes (net_rx w) = bs @ rx_bytes (net_rx w') \<and> net_out w' = net_out w \<and>
     net_tx w' = net_tx w \<and> net_conn w' = net_conn w \<and> net_shut w' = net_shut w \<and> net_junk w' = net_junk w"

definition tx_step :: "'a net_scheme \<Rightarrow> byte list \<Rightarrow> 'a net_scheme \<Rightarrow> bool" where
  "tx_step w bs w' \<longleftrightarrow>
     net_out w' = net_out w @ bs \<and> net_rx w' = net_rx w \<and>
     net_conn w' = net_conn w \<and> net_shut w' = net_shut w \<and> net_junk w' = net_junk w"

lemma rx_step_trans: "rx_step w as w' \<Longrightarrow> rx_step w' bs w'' \<Longrightarrow> rx_step w (as @ bs) w''"
  by (simp add: rx_step_def)

lemma tx_step_trans: "tx_step w as w' \<Longrightarrow> tx_step w' bs w'' \<Longrightarrow> tx_step w (as @ bs) w''"
  by (simp add: tx_step_def)

lemma rx_step_same: "same_net w w' \<Longrightarrow> rx_step w [] w'"
  by (simp add: rx_step_def same_net_def)

lemma tx_step_same: "same_net w w' \<Longrightarrow> tx_step w [] w'"
  by (simp add: tx_step_def same_net_def)

lemma sys_recv_rx_step: "sys_recv len w = Some (r, bs, w') \<Longrightarrow> rx_step w bs w'"
  by (simp add: rx_step_def sys_recv_Some)

lemma sys_recv_cases:
  assumes "sys_recv len w = Some (r, bs, w')"
  obtains (again) "r = Eagain" "bs = []" "rx_step w [] w'"
  | (stop) s where "r = Ret s" "s \<le> 0" "bs = []" "rx_step w [] w'"
  | (data) "r = Ret (int (length bs))" "0 < length bs" "length bs \<le> len" "rx_step w bs w'"
  using sys_recv_rx_step[OF assms] sys_recv_Some[OF assms]
  by (cases r) (metis append_Nil2 linorder_not_less of_nat_0_less_iff rx_step_def)+

lemma sys_send_cases:
  assumes "sys_send bs w = Some (r, w')"
  obtains (again) "r = Eagain" "tx_step w [] w'"
  | (stop) s where "r = Ret s" "s \<le> 0" "tx_step w [] w'"
  | (data) n where "r = Ret (int n)" "0 < n" "n \<le> length bs" "tx_step w (take n bs) w'"
proof (cases r)
  case (Ret s)
  show thesis
  proof (cases "0 < s")
    case True
    with Ret show thesis
      using sys_send_Some(1-4)[OF assms] sys_send_Some(5)[OF assms, of s] data[of "nat s"]
      by (simp add: tx_step_def nat_le_iff)
  next
    case False
    with Ret show thesis using sys_send_Some[OF assms] stop[of s] by (simp add: tx_step_def)
  qed
next
  case Eagain
  with again show thesis using sys_send_Some[OF assms] by (simp add: tx_step_def)
qed

lemmas recv_induct = hev_task_io_socket_recv.raw_induct [rotated, consumes 1, case_names step]
lemmas send_induct = hev_task_io_socket_send.raw_induct [rotated, consumes 1, case_names step]
lemmas sendmsg_induct = hev_task_io_socket_sendmsg.raw_induct [rotated, consumes 1, case_names step]
lemmas connect_induct = hev_task_io_socket_connect.raw_induct [rotated, consumes 1, case_names step]
lemmas recvmsg_induct = hev_task_io_socket_recvmsg.raw_induct [rotated, consumes 1, case_names step]

locale io_yielder =
  fixes yielder :: "'a yielder"
  assumes yielder_keeps: "yielder t w = Some (y, w') \<Longrightarrow> same_net w w'"
begin

text \<open>
  \<open>MSG_WAITALL\<close>: what is handed to the caller is the next prefix of the stream, and the result is
  its length unless nothing at all was received or the caller was told to stop.
\<close>


lemma recv_prefix_from:
  assumes "hev_task_io_socket_recv yl wa len got w = Some (res, buf, w')"
    and "yl = yielder" and "wa" and "length got < len"
  shows "\<exists>bs. buf = got @ bs \<and> length buf \<le> len \<and> rx_step w bs w' \<and>
     (res = int (length buf) \<or> res = -2 \<or> buf = [] \<and> res \<le> 0)"
  using assms
proof (induction "(res, buf, w')" rule: recv_induct)
  case (step f yl wa len got w)
  then obtain r1 bs w1 where sys: "sys_recv (len - length got) w = Some (r1, bs, w1)"
    by (auto split: bind_splits)
  note IH = step(1)[of yielder True len, OF _ refl TrueI]
  from sys show ?case
  proof (cases rule: sys_recv_cases)
    case again
    with step(2-) sys obtain y w2 where y: "yielder HEV_TASK_WAITIO w1 = Some (y, w2)"
      by (auto split: bind_splits)
    with again have w2: "rx_step w [] w2"
      by (metis append_Nil rx_step_same rx_step_trans yielder_keeps)
    show ?thesis
    proof (cases "y = 0")
      case True
      with again step(2-) sys y have "f yielder True len got w2 = Some (res, buf, w')" by simp
      from IH[OF this step(5)] show ?thesis using rx_step_trans[OF w2] by (metis append_Nil)
    next
      case False
      with again step(2-) sys y w2 show ?thesis by auto
    qed
  next
    case (stop s)
    with step(2-) sys show ?thesis by (auto split: if_splits)
  next
    case data
    show ?thesis
    proof (cases "length (got @ bs) < len")
      case True
      with data step(2-) sys have "f yielder True len (got @ bs) w1 = Some (res, buf, w')" by simp
      from IH[OF this True] show ?thesis
        using rx_step_trans[OF data(4)] by (metis append.assoc)
    next
      case False
      with data step(2-) sys show ?thesis by auto
    qed
  qed
qed

lemma send_prefix_from:
  assumes "hev_task_io_socket_send yl wa buf sent w = Some r"
    and "yl = yielder" and "wa" and "sent < length buf"
  shows "\<exists>n. tx_step w (take n (drop sent buf)) (snd r) \<and> sent + n \<le> length buf \<and>
     (fst r = int (sent + n) \<or> fst r = -2 \<or> sent + n = 0 \<and> fst r \<le> 0)"
  using assms
proof (induction rule: send_induct)
  case (step f yl wa buf sent w r)
  then obtain r1 w1 where sys: "sys_send (drop sent buf) w = Some (r1, w1)"
    by (auto split: bind_splits)
  note IH = step(1)[of yielder True buf _ _ r, OF _ refl TrueI]
  from sys show ?case
  proof (cases rule: sys_send_cases)
    case again
    with step(2-) sys obtain y w2 where y: "yielder HEV_TASK_WAITIO w1 = Some (y, w2)"
      by (auto split: bind_splits)
    with again have w2: "tx_step w [] w2"
      by (metis append_Nil tx_step_same tx_step_trans yielder_keeps)
    show ?thesis
    proof (cases "y = 0")
      case True
      with again step(2-) sys y have "f yielder True buf sent w2 = Some r" by simp
      from IH[OF this step(5)] w2 show ?thesis using tx_step_trans[OF w2] by (metis append_Nil)
    next
      case False
      with again step(2-) sys y w2 show ?thesis by (auto intro: exI[of _ 0])
    qed
  next
    case (stop s)
    with step(2-) sys show ?thesis by (auto split: if_splits intro: exI[of _ 0])
  next
    case (data n)
    show ?thesis
    proof (cases "sent + n < length buf")
      case True
      with data step(2-) sys have "f yielder True buf (sent + n) w1 = Some r" by simp
      from IH[OF this True] obtain m where m: "tx_step w1 (take m (drop (sent + n) buf)) (snd r)"
        "sent + n + m \<le> length buf" "fst r = int (sent + n + m) \<or> fst r = -2"
        using data by auto
      have "tx_step w (take (n + m) (drop sent buf)) (snd r)"
        using tx_step_trans[OF data(4) m(1)] by (simp only: take_add drop_drop add.commute[of sent n])
      with m show ?thesis by (intro exI[of _ "n + m"]) auto
    next
      case False
      with data step(2-) sys show ?thesis by (auto intro!: exI[of _ n])
    qed
  qed
qed

lemma recv_prefix:
  assumes "hev_task_io_socket_recv yielder True len [] w = Some (res, buf, w')" and "0 < len"
  shows "rx_step w buf w'" and "length buf \<le> len" and "0 < res \<Longrightarrow> res = int (length buf)"
  using recv_prefix_from[OF assms(1) refl TrueI] assms(2) by auto

lemma send_prefix:
  assumes "hev_task_io_socket_send yielder True buf 0 w = Some (res, w')" and "buf \<noteq> []"
  obtains n where "tx_step w (take n buf) w'" and "n \<le> length buf" and "0 < res \<Longrightarrow> res = int n"
proof -
  obtain n where n: "tx_step w (take n buf) w'" "n \<le> length buf"
    "res = int n \<or> res = -2 \<or> n = 0 \<and> res \<le> 0"
    using send_prefix_from[OF assms(1) refl TrueI] assms(2) by auto
  then show thesis by (intro that[of n]) auto
qed

end

text \<open>
  A yielder that always lets the caller go on, from states in which \<open>calm\<close> holds: the case of
  an object without timeout.  Then the loops return whatever way the stream was cut into
  segments, and however often the socket was not ready.
\<close>

fun rx_ready :: "rx_ev list \<Rightarrow> bool" where
  "rx_ready [] = True"
| "rx_ready (RxData bs # es) = (bs \<noteq> [] \<and> rx_ready es)"
| "rx_ready (RxAgain # es) = rx_ready es"
| "rx_ready (RxEof # es) = False"
| "rx_ready (RxErr # es) = False"

text \<open>How many calls in a row will accept at least one byte.\<close>

fun tx_room :: "tx_ev list \<Rightarrow> nat" where
  "tx_room [] = 0"
| "tx_room (TxOk n # es) = (if n = 0 then 0 else Suc (tx_room es))"
| "tx_room (TxAgain # es) = tx_room es"
| "tx_room (TxErr # es) = 0"

fun rx_work :: "rx_ev list \<Rightarrow> nat" where
  "rx_work [] = 0"
| "rx_work (RxData bs # es) = Suc (length bs) + rx_work es"
| "rx_work (_ # es) = Suc (rx_work es)"

lemma sys_recv_ready:
  assumes "rx_ready (net_rx w)" and "0 < len" and "rx_bytes (net_rx w) \<noteq> []"
  obtains (again) es where "sys_recv len w = Some (Eagain, [], w\<lparr>net_rx := es\<rparr>)" "rx_ready es"
    "rx_bytes es = rx_bytes (net_rx w)" "rx_work es < rx_work (net_rx w)"
  | (data) bs es where "sys_recv len w = Some (Ret (int (length bs)), bs, w\<lparr>net_rx := es\<rparr>)" "rx_ready es"
    "bs \<noteq> []" "length bs \<le> len" "rx_bytes (net_rx w) = bs @ rx_bytes es" "rx_work es < rx_work (net_rx w)"
proof (cases "net_rx w")
  case (Cons e es)
  with assms show thesis
  proof (cases e)
    case (RxData bs)
    with Cons assms show thesis
      by (cases "len < length bs")
        (auto simp: sys_recv_def min_def Let_def
          intro!: data[of "take (min len (length bs)) bs" "if len < length bs then RxData (drop len bs) # es else es"])
  qed (use Cons assms in \<open>auto simp: sys_recv_def intro!: again[of es]\<close>)
qed (use assms in simp)

fun tx_ready :: "tx_ev list \<Rightarrow> bool" where
  "tx_ready [] = True"
| "tx_ready (TxOk n # es) = (n \<noteq> 0 \<and> tx_ready es)"
| "tx_ready (TxAgain # es) = tx_ready es"
| "tx_ready (TxErr # es) = False"

lemma sys_recv_rx_ready:
  assumes "rx_ready (net_rx w)" and "sys_recv len w = Some (r, bs, w')" and "0 < len"
  shows "rx_ready (net_rx w')" and "r = Ret s \<Longrightarrow> 0 < s"
  using assms by (auto simp: sys_recv_def Let_def split: list.splits rx_ev.splits if_splits)

lemma sys_send_tx_ready:
  assumes "tx_ready (net_tx w)" and "sys_send bs w = Some (r, w')" and "bs \<noteq> []"
  shows "tx_ready (net_tx w')" and "r = Ret s \<Longrightarrow> 0 < s"
  using assms by (auto simp: sys_send_def Let_def split: list.splits tx_ev.splits if_splits)

context io_yielder
begin

text \<open>As long as the connection does not break, a transfer that is not given up is complete.\<close>

lemma recv_exact_from:
  assumes "hev_task_io_socket_recv yl wa len got w = Some (res, buf, w')"
    and "yl = yielder" and "wa" and "length got < len" and "rx_ready (net_rx w)"
  shows "rx_ready (net_rx w') \<and> (res = -2 \<or> res = int len \<and> length buf = len)"
  using assms
proof (induction "(res, buf, w')" rule: recv_induct)
  case (step f yl wa len got w)
  then obtain r1 bs w1 where sys: "sys_recv (len - length got) w = Some (r1, bs, w1)"
    by (auto split: bind_splits)
  have rdy: "rx_ready (net_rx w1)" and ns: "\<And>s. r1 = Ret s \<Longrightarrow> 0 < s"
    using sys_recv_rx_ready[OF step.prems(4) sys] step.prems(3) by auto
  note IH = step(1)[of yielder True len, OF _ refl TrueI]
  from sys show ?case
  proof (cases rule: sys_recv_cases)
    case again
    with step(2-) sys obtain y w2 where y: "yielder HEV_TASK_WAITIO w1 = Some (y, w2)"
      by (auto split: bind_splits)
    then have "rx_ready (net_rx w2)" using rdy yielder_keeps by force
    with IH[of got w2] step(2-) again sys y show ?thesis by (cases "y = 0") auto
  next
    case (stop s)
    with ns show ?thesis by fastforce
  next
    case data
    with IH[of "got @ bs" w1] step(2-) sys rdy show ?thesis
      by (cases "length (got @ bs) < len") auto
  qed
qed

lemma recv_exact:
  assumes "hev_task_io_socket_recv yielder True len [] w = Some (res, buf, w')"
    and "0 < len" and "rx_ready (net_rx w)"
  shows "rx_ready (net_rx w')" and "0 < res \<Longrightarrow> length buf = len \<and> res = int len"
  using recv_exact_from[OF assms(1) refl TrueI] assms(2,3) by auto

lemma send_exact_from:
  assumes "hev_task_io_socket_send yl wa buf sent w = Some (res, w')"
    and "yl = yielder" and "wa" and "sent < length buf" and "tx_ready (net_tx w)"
  shows "tx_ready (net_tx w') \<and> (res = -2 \<or> res = int (length buf))"
  using assms
proof (induction "(res, w')" rule: send_induct)
  case (step f yl wa buf sent w)
  then obtain r1 w1 where sys: "sys_send (drop sent buf) w = Some (r1, w1)"
    by (auto split: bind_splits)
  have rdy: "tx_ready (net_tx w1)" and ns: "\<And>s. r1 = Ret s \<Longrightarrow> 0 < s"
    using sys_send_tx_ready[OF step.prems(4) sys] step.prems(3) by auto
  note IH = step(1)[of yielder True buf, OF _ refl TrueI]
  from sys show ?case
  proof (cases rule: sys_send_cases)
    case again
    with step(2-) sys obtain y w2 where y: "yielder HEV_TASK_WAITIO w1 = Some (y, w2)"
      by (auto split: bind_splits)
    then have "tx_ready (net_tx w2)" using rdy yielder_keeps by force
    with IH[of sent w2] step(2-) again sys y show ?thesis by (cases "y = 0") auto
  next
    case (stop s)
    with ns show ?thesis by fastforce
  next
    case (data n)
    with IH[of "sent + n" w1] step(2-) sys rdy show ?thesis
      by (cases "sent + n < length buf") auto
  qed
qed

lemma send_exact:
  assumes "hev_task_io_socket_send yielder True buf 0 w = Some (res, w')"
    and "buf \<noteq> []" and "tx_ready (net_tx w)"
  shows "tx_ready (net_tx w')" and "0 < res \<Longrightarrow> tx_step w buf w'"
proof -
  have *: "tx_ready (net_tx w') \<and> (res = -2 \<or> res = int (length buf))"
    using send_exact_from[OF assms(1) refl TrueI] assms(2,3) by auto
  then show "tx_ready (net_tx w')" by simp
  assume "0 < res"
  with * send_prefix[OF assms(1,2)] show "tx_step w buf w'"
    by (metis less_numeral_extra(3) neg_numeral_le_zero not_less of_nat_eq_iff take_all_iff order_refl)
qed

end

locale patient_yielder = io_yielder +
  fixes calm :: "'a net_scheme \<Rightarrow> bool"
  assumes calm_yield: "calm w \<Longrightarrow> \<exists>w'. yielder HEV_TASK_WAITIO w = Some (0, w') \<and> calm w'"
    and calm_rx: "calm w \<Longrightarrow> calm (w\<lparr>net_rx := es\<rparr>)"
    and calm_tx: "calm w \<Longrightarrow> calm (w\<lparr>net_tx := ts, net_out := out\<rparr>)"
begin

lemma recv_complete_from:
  assumes "rx_ready (net_rx w)" and "length got < len" and "calm w"
    and "len \<le> length got + length (rx_bytes (net_rx w))"
  shows "\<exists>w'. hev_task_io_socket_recv yielder True len got w =
      Some (int len, got @ take (len - length got) (rx_bytes (net_rx w)), w') \<and>
      rx_ready (net_rx w') \<and> calm w'"
  using assms
proof (induction "rx_work (net_rx w)" arbitrary: w got rule: less_induct)
  case less
  from less.prems have ne: "rx_bytes (net_rx w) \<noteq> []" and pos: "0 < len - length got" by auto
  show ?case
  proof (rule sys_recv_ready[OF less.prems(1) pos ne], goal_cases again data)
    case (again es)
    obtain w2 where y: "yielder HEV_TASK_WAITIO (w\<lparr>net_rx := es\<rparr>) = Some (0, w2)" and "calm w2"
      using calm_yield[OF calm_rx[OF less.prems(3)]] by blast
    have "net_rx w2 = es" using yielder_keeps[OF y] by auto
    with less.hyps[of w2 got] less.prems again y \<open>calm w2\<close> show ?thesis
      by (subst hev_task_io_socket_recv.simps) simp
  next
    case (data bs es)
    show ?thesis
    proof (cases "length (got @ bs) < len")
      case True
      with less.hyps[of "w\<lparr>net_rx := es\<rparr>" "got @ bs"] less.prems data calm_rx show ?thesis
        by (subst hev_task_io_socket_recv.simps) simp
    next
      case False
      with less.prems data calm_rx show ?thesis
        by (subst hev_task_io_socket_recv.simps) simp
    qed
  qed
qed

lemma recv_complete:
  assumes "rx_ready (net_rx w)" and "0 < len" and "calm w" and "len \<le> length (rx_bytes (net_rx w))"
  obtains w' where "hev_task_io_socket_recv yielder True len [] w =
      Some (int len, take len (rx_bytes (net_rx w)), w')"
    and "rx_ready (net_rx w')" and "calm w'" and "rx_step w (take len (rx_bytes (net_rx w))) w'"
  using recv_complete_from[of w "[]" len] assms recv_prefix(1) by auto

lemma send_complete_from:
  assumes "length buf \<le> sent + tx_room (net_tx w)" and "sent < length buf" and "calm w"
  shows "\<exists>w'. hev_task_io_socket_send yielder True buf sent w = Some (int (length buf), w') \<and>
     tx_room (net_tx w) \<le> tx_room (net_tx w') + (length buf - sent) \<and> calm w'"
  using assms
proof (induction "length (net_tx w)" arbitrary: w sent rule: less_induct)
  case less
  then obtain e es where Cons: "net_tx w = e # es" by (cases "net_tx w") auto
  show ?case
  proof (cases e)
    case (TxOk k)
    define n where "n = min k (length buf - sent)"
    define w1 where "w1 = w\<lparr>net_tx := es, net_out := net_out w @ take n (drop sent buf)\<rparr>"
    have n: "0 < n" "sent + n \<le> length buf" and room: "tx_room (net_tx w) = Suc (tx_room es)"
      using TxOk Cons less.prems by (auto simp: n_def split: if_splits)
    have sys: "sys_send (drop sent buf) w = Some (Ret (int n), w1)"
      using TxOk Cons by (simp add: sys_send_def n_def w1_def Let_def)
    have w1: "calm w1" "net_tx w1 = es" using calm_tx less.prems(3) by (simp_all add: w1_def)
    show ?thesis
    proof (cases "sent + n < length buf")
      case True
      have "\<exists>w'. hev_task_io_socket_send yielder True buf (sent + n) w1 = Some (int (length buf), w') \<and>
         tx_room (net_tx w1) \<le> tx_room (net_tx w') + (length buf - (sent + n)) \<and> calm w'"
        using less.hyps[of w1 "sent + n"] less.prems(1) w1 Cons n room True by simp
      with sys n True room w1 show ?thesis
        by (subst hev_task_io_socket_send.simps) auto
    next
      case False
      with sys n room w1 show ?thesis
        by (subst hev_task_io_socket_send.simps) auto
    qed
  next
    case TxAgain
    obtain w2 where y: "yielder HEV_TASK_WAITIO (w\<lparr>net_tx := es\<rparr>) = Some (0, w2)" and "calm w2"
      using calm_yield[OF calm_tx[where ts=es and out="net_out w", OF less.prems(3)]] by auto
    have "net_tx w2 = es" using yielder_keeps[OF y] by auto
    with less.hyps[of w2 sent] less.prems TxAgain Cons y \<open>calm w2\<close> show ?thesis
      by (subst hev_task_io_socket_send.simps) (simp add: sys_send_def)
  qed (use Cons less.prems in auto)
qed

lemma send_complete:
  assumes "length buf \<le> tx_room (net_tx w)" and "buf \<noteq> []" and "calm w"
  obtains w' where "hev_task_io_socket_send yielder True buf 0 w = Some (int (length buf), w')"
    and "tx_room (net_tx w) \<le> tx_room (net_tx w') + length buf"
    and "calm w'" and "tx_step w buf w'"
proof -
  obtain w' where w': "hev_task_io_socket_send yielder True buf 0 w = Some (int (length buf), w')"
    "tx_room (net_tx w) \<le> tx_room (net_tx w') + length buf" "calm w'"
    using send_complete_from[of buf 0 w] assms by auto
  from send_prefix[OF w'(1) assms(2)] obtain n where "tx_step w (take n buf) w'" "n = length buf"
    using assms(2) by auto
  with w' that show thesis by simp
qed

end

text \<open>A part of the state that neither the yielder nor the socket touches survives a transfer.\<close>

locale framed_yielder = io_yielder +
  fixes view :: "'a net_scheme \<Rightarrow> 'v"
  assumes yielder_view: "yielder t w = Some (y, w') \<Longrightarrow> view w' = view w"
    and view_rx: "view (w\<lparr>net_rx := es\<rparr>) = view w"
    and view_tx: "view (w\<lparr>net_tx := ts, net_out := out\<rparr>) = view w"
    and view_conn: "view (w\<lparr>net_conn := cs\<rparr>) = view w"
begin

lemma sys_recv_view: "sys_recv len w = Some (r, bs, w') \<Longrightarrow> view w' = view w"
  by (auto simp: sys_recv_def Let_def view_rx split: list.splits rx_ev.splits if_splits)

lemma sys_send_view: "sys_send bs w = Some (r, w') \<Longrightarrow> view w' = view w"
  using view_tx[where w=w and out="net_out w"]
  by (auto simp: sys_send_def Let_def view_tx split: list.splits tx_ev.splits if_splits)

lemma recv_view:
  assumes "hev_task_io_socket_recv yl wa len got w = Some (res, buf, w')" and "yl = yielder"
  shows "view w' = view w"
  using assms
proof (induction "(res, buf, w')" rule: recv_induct)
  case (step f yl wa len got w)
  from step(2) obtain r1 bs w1 where sys: "sys_recv (len - length got) w = Some (r1, bs, w1)"
    by (auto split: bind_splits)
  note w1 = sys_recv_view[OF sys]
  show ?case
  proof (cases r1)
    case (Ret s)
    with step(1)[of yl wa len "got @ bs" w1] step(2-) sys w1 show ?thesis
      by (auto split: if_splits)
  next
    case Eagain
    with step(2-) sys obtain y w2 where y: "yielder HEV_TASK_WAITIO w1 = Some (y, w2)"
      by (auto split: bind_splits)
    with step(1)[of yl wa len got w2] step(2-) Eagain sys w1 yielder_view[OF y] show ?thesis
      by (auto split: if_splits)
  qed
qed

lemma send_view:
  assumes "hev_task_io_socket_send yl wa buf sent w = Some (res, w')" and "yl = yielder"
  shows "view w' = view w"
  using assms
proof (induction "(res, w')" rule: send_induct)
  case (step f yl wa buf sent w)
  from step(2) obtain r1 w1 where sys: "sys_send (drop sent buf) w = Some (r1, w1)"
    by (auto split: bind_splits)
  note w1 = sys_send_view[OF sys]
  show ?case
  proof (cases r1)
    case (Ret s)
    with step(1)[of yl wa buf "sent + nat s" w1] step(2-) sys w1 show ?thesis
      by (auto split: if_splits)
  next
    case Eagain
    with step(2-) sys obtain y w2 where y: "yielder HEV_TASK_WAITIO w1 = Some (y, w2)"
      by (auto split: bind_splits)
    with step(1)[of yl wa buf sent w2] step(2-) Eagain sys w1 yielder_view[OF y] show ?thesis
      by (auto split: if_splits)
  qed
qed

lemma connect_view:
  assumes "hev_task_io_socket_connect yl w = Some (res, w')" and "yl = yielder"
  shows "view w' = view w \<and> net_rx w' = net_rx w \<and> net_tx w' = net_tx w \<and> net_out w' = net_out w"
  using assms
proof (induction "(res, w')" rule: connect_induct)
  case (step f yl w)
  from step(2) obtain e w1 where sys: "sys_connect w = Some (e, w1)"
    by (auto split: bind_splits)
  then have w1: "view w1 = view w" "net_rx w1 = net_rx w" "net_tx w1 = net_tx w" "net_out w1 = net_out w"
    using view_conn by (auto simp: sys_connect_def split: list.splits)
  show ?case
  proof (cases "e = ConnInProgress")
    case True
    with step(2-) sys obtain y w2 where y: "yielder HEV_TASK_WAITIO w1 = Some (y, w2)"
      by (auto split: bind_splits)
    then have "view w2 = view w1" "same_net w1 w2" using yielder_view yielder_keeps by auto
    with step(1)[of yl w2] step(2-) True sys w1 y show ?thesis
      by (auto split: if_splits)
  next
    case False
    with step(2) sys w1 show ?thesis by (cases e) auto
  qed
qed

end

section \<open>Vectors\<close>

lemma concat_iov_advance: "s \<le> length (concat iov) \<Longrightarrow> concat (iov_advance s iov) = drop s (concat iov)"
  by (induction s iov rule: iov_advance.induct) auto

lemma mem_store_Nil [simp]: "mem_store obj base [] mem = Some mem"
  by (simp add: mem_store_def)

lemma mem_scatter_Nil [simp]: "mem_scatter iov [] mem = Some mem"
  by (induction iov) simp_all

lemma mem_store_append:
  "mem_store obj base (xs @ ys) mem = Option.bind (mem_store obj base xs mem) (mem_store obj (base + length xs) ys)"
proof -
  have "overwrite (overwrite m base xs) (base + length xs) ys = overwrite m base (xs @ ys)"
    if "base + length xs \<le> length m" for m :: "byte list"
    using that by (simp add: overwrite_def ac_simps)
  then show ?thesis by (auto simp: mem_store_def)
qed

lemma mem_scatter_append:
  "length xs \<le> mv_total iov \<Longrightarrow>
   mem_scatter iov (xs @ ys) mem = Option.bind (mem_scatter iov xs mem) (mem_scatter (mem_advance (length xs) iov) ys)"
proof (induction iov arbitrary: xs mem)
  case Nil
  then show ?case by (simp add: mv_total_def)
next
  case (Cons v iov)
  show ?case
  proof (cases "length xs < mv_len v")
    case True
    then have "take (mv_len v) (xs @ ys) = xs @ take (mv_len v - length xs) ys"
      "drop (mv_len v) (xs @ ys) = drop (mv_len v - length xs) ys" "take (mv_len v) xs = xs" "drop (mv_len v) xs = []"
      by simp_all
    with True show ?thesis by (simp only: mem_scatter.simps mem_store_append) (simp split: Option.bind_split)
  next
    case False
    then have "take (mv_len v) (xs @ ys) = take (mv_len v) xs" "drop (mv_len v) (xs @ ys) = drop (mv_len v) xs @ ys"
      "length (drop (mv_len v) xs) \<le> mv_total iov" using Cons.prems by (simp_all add: mv_total_def)
    with False Cons.IH[of "drop (mv_len v) xs"] show ?thesis by (simp split: Option.bind_split)
  qed
qed

lemma mv_total_advance: "s \<le> mv_total iov \<Longrightarrow> mv_total (mem_advance s iov) = mv_total iov - s"
  by (induction s iov rule: mem_advance.induct) (auto simp: mv_total_def)

text \<open>
  Scatter/gather is only a matter of where the bytes live: \<open>sendmsg\<close> does what \<open>send\<close> does with
  the regions laid end to end, \<open>recvmsg\<close> stores into its regions what \<open>recv\<close> receives at once.
\<close>

lemma sendmsg_imp_send:
  assumes "hev_task_io_socket_sendmsg yl wa len iov sent w = Some r" and "concat iov = drop sent buf"
    and "sent \<le> length buf" and "len = length buf"
  shows "hev_task_io_socket_send yl wa buf sent w = Some r"
  using assms
proof (induction rule: sendmsg_induct)
  case (step f yl wa len iov sent w r)
  then obtain r1 w1 where sys: "sys_send (drop sent buf) w = Some (r1, w1)"
    by (auto split: bind_splits)
  from sys show ?case
  proof (cases rule: sys_send_cases)
    case again
    with step(1)[of yl wa len iov sent _ r] step(2-) sys show ?thesis
      by (subst hev_task_io_socket_send.simps) (auto split: bind_splits if_splits)
  next
    case (stop s)
    with step(2-) sys show ?thesis
      by (subst hev_task_io_socket_send.simps) auto
  next
    case (data n)
    with step(1)[of yl wa len "iov_advance n iov" "sent + n" w1 r] step(2-) concat_iov_advance[of n iov] sys show ?thesis
      by (subst hev_task_io_socket_send.simps) (auto split: if_splits simp: add.commute)
  qed
qed

lemma send_imp_sendmsg:
  assumes "hev_task_io_socket_send yl wa buf sent w = Some r" and "concat iov = drop sent buf"
    and "sent \<le> length buf"
  shows "hev_task_io_socket_sendmsg yl wa (length buf) iov sent w = Some r"
  using assms
proof (induction arbitrary: iov rule: send_induct)
  case (step f yl wa buf sent w r)
  then obtain r1 w1 where sys: "sys_send (drop sent buf) w = Some (r1, w1)"
    by (auto split: bind_splits)
  from sys show ?case
  proof (cases rule: sys_send_cases)
    case again
    with step(1)[of yl wa buf sent _ r iov] step(2-) sys show ?thesis
      by (subst hev_task_io_socket_sendmsg.simps) (auto split: bind_splits if_splits)
  next
    case (stop s)
    with step(2-) sys show ?thesis
      by (subst hev_task_io_socket_sendmsg.simps) auto
  next
    case (data n)
    with step(1)[of yl wa buf "sent + n" w1 r "iov_advance n iov"] step(2-) concat_iov_advance[of n iov] sys show ?thesis
      by (subst hev_task_io_socket_sendmsg.simps) (auto split: if_splits simp: add.commute)
  qed
qed

lemma sendmsg_eq_send:
  "hev_task_io_socket_sendmsg yl wa (length (concat iov)) iov 0 w = hev_task_io_socket_send yl wa (concat iov) 0 w"
proof (rule option_eqI)
  fix r
  show "hev_task_io_socket_sendmsg yl wa (length (concat iov)) iov 0 w = Some r \<longleftrightarrow>
    hev_task_io_socket_send yl wa (concat iov) 0 w = Some r"
    by (rule iffI, erule sendmsg_imp_send, simp_all only: drop_0 le0, erule send_imp_sendmsg, simp_all)
qed

lemma sys_recvmsg_fits:
  "mv_total iov \<le> ssize_max \<Longrightarrow> sys_recvmsg iov mem w =
     do { (r, bs, w) \<leftarrow> sys_recv (mv_total iov) w; mem \<leftarrow> mem_scatter iov bs mem; Some (r, mem, w) }"
  by (simp add: sys_recvmsg_def)

lemma recvmsg_imp_recv:
  assumes "hev_task_io_socket_recvmsg yl wa len iov sz mem w = Some (res, mem', w')"
    and "mv_total iov = len - sz" and "sz \<le> len" and "len \<le> ssize_max" and "sz = length got"
  shows "\<exists>g. hev_task_io_socket_recv yl wa len got w = Some (res, got @ g, w') \<and> mem_scatter iov g mem = Some mem'"
  using assms
proof (induction "(res, mem', w')" arbitrary: got rule: recvmsg_induct)
  case (step f yl wa len iov sz mem w)
  have eq: "sys_recvmsg iov mem w = do { (r, bs, w) \<leftarrow> sys_recv (len - length got) w; mem \<leftarrow> mem_scatter iov bs mem; Some (r, mem, w) }"
    using sys_recvmsg_fits[of iov mem w] step(3-) by simp
  obtain x where "sys_recvmsg iov mem w = Some x" using step(2) by (auto split: Option.bind_splits)
  then obtain r1 bs m1 w1 where sys: "sys_recv (len - length got) w = Some (r1, bs, w1)"
      and m1: "mem_scatter iov bs mem = Some m1" and sm: "sys_recvmsg iov mem w = Some (r1, m1, w1)"
    unfolding eq by (auto split: bind_splits)
  from sys show ?case
  proof (cases rule: sys_recv_cases)
    case again
    with step(2) sm obtain y w2 where y: "yl HEV_TASK_WAITIO w1 = Some (y, w2)" by (auto split: bind_splits)
    show ?thesis
    proof (cases "y = 0")
      case True
      with again sm y m1 step(2) have "f yl wa len iov sz mem w2 = Some (res, mem', w')" by simp
      from step(1)[OF this step(3-)] show ?thesis using again sys y True
        by (subst hev_task_io_socket_recv.simps) simp
    next
      case False
      with again sm y m1 step(2) sys show ?thesis by (subst hev_task_io_socket_recv.simps) simp
    qed
  next
    case (stop s)
    with step(2-) sys sm m1 show ?thesis by (subst hev_task_io_socket_recv.simps) (auto split: if_splits)
  next
    case data
    have tot: "length bs \<le> mv_total iov" using data(3) step(3,6) by simp
    note app = mem_scatter_append[OF tot, of _ mem]
    show ?thesis
    proof (cases "wa \<and> sz + length bs < len")
      case True
      with data sm step(2) have "f yl wa len (mem_advance (length bs) iov) (sz + length bs) m1 w1 = Some (res, mem', w')" by simp
      from step(1)[OF this, of "got @ bs"] step(3-) mv_total_advance[OF tot] True obtain g where
        "hev_task_io_socket_recv yl wa len (got @ bs) w1 = Some (res, (got @ bs) @ g, w')"
        "mem_scatter (mem_advance (length bs) iov) g m1 = Some mem'" by auto
      with True data sys m1 app step(6) show ?thesis
        by (intro exI[of _ "bs @ g"]) (subst hev_task_io_socket_recv.simps, simp)
    next
      case False
      with data sm step(2,6) sys m1 show ?thesis
        by (intro exI[of _ bs]) (subst hev_task_io_socket_recv.simps, auto split: if_splits)
    qed
  qed
qed

lemma recv_imp_recvmsg:
  assumes "hev_task_io_socket_recv yl wa len got w = Some (res, buf, w')" and "length got \<le> len" and "len \<le> ssize_max"
  shows "\<exists>g. buf = got @ g \<and> (\<forall>iov mem mem'. mem_scatter iov g mem = Some mem' \<longrightarrow> mv_total iov = len - length got \<longrightarrow>
    hev_task_io_socket_recvmsg yl wa len iov (length got) mem w = Some (res, mem', w'))"
  using assms
proof (induction "(res, buf, w')" rule: recv_induct)
  case (step f yl wa len got w)
  let ?P = "\<lambda>g. \<forall>iov mem mem'. mem_scatter iov g mem = Some mem' \<longrightarrow> mv_total iov = len - length got \<longrightarrow>
    hev_task_io_socket_recvmsg yl wa len iov (length got) mem w = Some (res, mem', w')"
  have eq: "sys_recvmsg iov mem w = do { (r, bs, w) \<leftarrow> sys_recv (len - length got) w; mem \<leftarrow> mem_scatter iov bs mem; Some (r, mem, w) }"
    if "mv_total iov = len - length got" for iov mem
    using that sys_recvmsg_fits[of iov mem w] step(4) by simp
  from step(2) obtain r1 bs w1 where sys: "sys_recv (len - length got) w = Some (r1, bs, w1)" by (auto split: bind_splits)
  from sys show ?case
  proof (cases rule: sys_recv_cases)
    case again
    with step(2) sys obtain y w2 where y: "yl HEV_TASK_WAITIO w1 = Some (y, w2)" by (auto split: bind_splits)
    show ?thesis
    proof (cases "y = 0")
      case True
      with again sys y step(2) have "f yl wa len got w2 = Some (res, buf, w')" by simp
      from step(1)[OF this step(3-)] obtain g where g: "buf = got @ g" "\<And>iov mem mem'. mem_scatter iov g mem = Some mem' \<Longrightarrow>
          mv_total iov = len - length got \<Longrightarrow> hev_task_io_socket_recvmsg yl wa len iov (length got) mem w2 = Some (res, mem', w')" by blast
      have "?P g" using again sys y True eq g(2) by (subst hev_task_io_socket_recvmsg.simps) simp
      with g(1) show ?thesis by blast
    next
      case False
      then have "?P []" "buf = got @ []" using again sys y step(2) eq by (subst hev_task_io_socket_recvmsg.simps, auto)
      then show ?thesis by blast
    qed
  next
    case (stop s)
    then have "?P []" "buf = got @ []" using sys step(2) eq
      by (subst hev_task_io_socket_recvmsg.simps, auto split: if_splits)
    then show ?thesis by blast
  next
    case data
    show ?thesis
    proof (cases "wa \<and> length got + length bs < len")
      case True
      with data sys step(2) have "f yl wa len (got @ bs) w1 = Some (res, buf, w')" by simp
      from step(1)[OF this _ step(4)] True obtain g where g: "buf = got @ bs @ g" "\<And>iov mem mem'. mem_scatter iov g mem = Some mem' \<Longrightarrow>
          mv_total iov = len - (length got + length bs) \<Longrightarrow>
          hev_task_io_socket_recvmsg yl wa len iov (length got + length bs) mem w1 = Some (res, mem', w')" by auto
      have "?P (bs @ g)"
      proof (intro allI impI)
        fix iov mem mem' assume a: "mem_scatter iov (bs @ g) mem = Some mem'" "mv_total iov = len - length got"
        have tot: "length bs \<le> mv_total iov" using data(3) a(2) by simp
        then obtain m1 where m1: "mem_scatter iov bs mem = Some m1" "mem_scatter (mem_advance (length bs) iov) g m1 = Some mem'"
          using a(1) mem_scatter_append[OF tot, of g mem] by (auto split: bind_splits)
        from g(2)[OF m1(2)] mv_total_advance[OF tot] a(2) True data sys eq[OF a(2)] m1(1)
        show "hev_task_io_socket_recvmsg yl wa len iov (length got) mem w = Some (res, mem', w')"
          by (subst hev_task_io_socket_recvmsg.simps) simp
      qed
      with g(1) show ?thesis by blast
    next
      case False
      then have "?P bs" "buf = got @ bs" using data sys step(2) eq
        by (subst hev_task_io_socket_recvmsg.simps, auto split: if_splits)
      then show ?thesis by blast
    qed
  qed
qed

lemma recvmsg_eq_recv:
  assumes "mv_total iov \<le> ssize_max"
  shows "hev_task_io_socket_recvmsg yl wa (mv_total iov) iov 0 mem w = do {
     (res, got, w) \<leftarrow> hev_task_io_socket_recv yl wa (mv_total iov) [] w;
     mem \<leftarrow> mem_scatter iov got mem;
     Some (res, mem, w) }"
proof (rule option_eqI)
  fix r :: "int \<times> byte list list \<times> 'a net_scheme"
  obtain res mem' w' where r: "r = (res, mem', w')" by (cases r)
  show "hev_task_io_socket_recvmsg yl wa (mv_total iov) iov 0 mem w = Some r \<longleftrightarrow> do {
     (res, got, w) \<leftarrow> hev_task_io_socket_recv yl wa (mv_total iov) [] w;
     mem \<leftarrow> mem_scatter iov got mem;
     Some (res, mem, w) } = Some r" (is "_ \<longleftrightarrow> ?R")
  proof
    assume "hev_task_io_socket_recvmsg yl wa (mv_total iov) iov 0 mem w = Some r"
    from recvmsg_imp_recv[OF this[unfolded r], of "[]"] assms r show ?R by auto
  next
    assume ?R
    then obtain got where "hev_task_io_socket_recv yl wa (mv_total iov) [] w = Some (res, got, w')" "mem_scatter iov got mem = Some mem'"
      by (auto simp: r split: bind_splits)
    with recv_imp_recvmsg[of yl wa "mv_total iov" "[]" w res got w'] assms r
    show "hev_task_io_socket_recvmsg yl wa (mv_total iov) iov 0 mem w = Some r" by auto
  qed
qed

end
