(* ===== verification/Socks5_Base.thy ===== *)
theory Socks5_Base
  imports Task_IO
begin

text \<open>
  The base object of the SOCKS5 library (\<open>core/src/hev-socks5.c\<close>), the constants of
  \<open>hev-socks5-proto.h\<close>, and the address helpers and the yielder of \<open>hev-socks5-misc.c\<close>.

  A \<open>HevSocks5Addr\<close> is its memory, a list of bytes, since the sources overlay three layouts in
  one union and copy prefixes of it to and from the wire.  \<open>endpoint\<close> is the abstract address;
  \<open>addr_encode\<close> and \<open>addr_decode\<close> relate the two.
\<close>

section \<open>hev-socks5-proto.h\<close>

definition HEV_SOCKS5_VERSION_5 :: byte where "HEV_SOCKS5_VERSION_5 = 5"
definition HEV_SOCKS5_AUTH_VERSION_1 :: byte where "HEV_SOCKS5_AUTH_VERSION_1 = 1"
definition HEV_SOCKS5_AUTH_METHOD_NONE :: byte where "HEV_SOCKS5_AUTH_METHOD_NONE = 0"
definition HEV_SOCKS5_AUTH_METHOD_USER :: byte where "HEV_SOCKS5_AUTH_METHOD_USER = 2"
definition HEV_SOCKS5_AUTH_METHOD_DENY :: byte where "HEV_SOCKS5_AUTH_METHOD_DENY = 255"
definition HEV_SOCKS5_REQ_CMD_CONNECT :: byte where "HEV_SOCKS5_REQ_CMD_CONNECT = 1"
definition HEV_SOCKS5_REQ_CMD_UDP_ASC :: byte where "HEV_SOCKS5_REQ_CMD_UDP_ASC = 3"
definition HEV_SOCKS5_REQ_CMD_FWD_UDP :: byte where "HEV_SOCKS5_REQ_CMD_FWD_UDP = 5"
definition HEV_SOCKS5_RES_REP_SUCC :: byte where "HEV_SOCKS5_RES_REP_SUCC = 0"
definition HEV_SOCKS5_RES_REP_FAIL :: byte where "HEV_SOCKS5_RES_REP_FAIL = 1"
definition HEV_SOCKS5_RES_REP_HOST :: byte where "HEV_SOCKS5_RES_REP_HOST = 4"
definition HEV_SOCKS5_RES_REP_IMPL :: byte where "HEV_SOCKS5_RES_REP_IMPL = 7"
definition HEV_SOCKS5_RES_REP_ADDR :: byte where "HEV_SOCKS5_RES_REP_ADDR = 8"
definition HEV_SOCKS5_ADDR_TYPE_IPV4 :: byte where "HEV_SOCKS5_ADDR_TYPE_IPV4 = 1"
definition HEV_SOCKS5_ADDR_TYPE_IPV6 :: byte where "HEV_SOCKS5_ADDR_TYPE_IPV6 = 4"
definition HEV_SOCKS5_ADDR_TYPE_NAME :: byte where "HEV_SOCKS5_ADDR_TYPE_NAME = 3"

named_theorems proto_defs \<open>the protocol constants\<close>

lemmas [proto_defs] =
  HEV_SOCKS5_VERSION_5_def HEV_SOCKS5_AUTH_VERSION_1_def HEV_SOCKS5_AUTH_METHOD_NONE_def
  HEV_SOCKS5_AUTH_METHOD_USER_def HEV_SOCKS5_AUTH_METHOD_DENY_def HEV_SOCKS5_REQ_CMD_CONNECT_def
  HEV_SOCKS5_REQ_CMD_UDP_ASC_def HEV_SOCKS5_REQ_CMD_FWD_UDP_def HEV_SOCKS5_RES_REP_SUCC_def
  HEV_SOCKS5_RES_REP_FAIL_def HEV_SOCKS5_RES_REP_HOST_def HEV_SOCKS5_RES_REP_IMPL_def
  HEV_SOCKS5_RES_REP_ADDR_def HEV_SOCKS5_ADDR_TYPE_IPV4_def HEV_SOCKS5_ADDR_TYPE_IPV6_def
  HEV_SOCKS5_ADDR_TYPE_NAME_def

section \<open>hev-socks5.c\<close>

datatype HevSocks5Type =
  HEV_SOCKS5_TYPE_NONE | HEV_SOCKS5_TYPE_TCP | HEV_SOCKS5_TYPE_UDP_IN_TCP | HEV_SOCKS5_TYPE_UDP_IN_UDP

datatype HevSocks5AddrFamily =
  HEV_SOCKS5_ADDR_FAMILY_IPV4 | HEV_SOCKS5_ADDR_FAMILY_IPV6 | HEV_SOCKS5_ADDR_FAMILY_UNSPEC

text \<open>
  The object, with the stream socket it owns as the embedded \<open>net\<close>.  The fields after
  \<open>s5_addr_family\<close> are environment: \<open>s5_wake n\<close> says how the \<open>n\<close>-th suspension of the task ends
  (the milliseconds left of a sleep, and whether another task has terminated the session
  meanwhile, which sets the timeout to 0), \<open>s5_clock\<close> counts the suspensions, \<open>s5_sys\<close> scripts the
  results of the system calls on descriptors, and \<open>s5_open\<close> is the set of open descriptors.
\<close>

record HevSocks5 = net +
  s5_fd :: int
  s5_timeout :: int
  s5_udp_associated :: int
  s5_type :: HevSocks5Type
  s5_addr_family :: HevSocks5AddrFamily
  s5_wake :: "nat \<Rightarrow> nat \<times> bool"
  s5_clock :: nat
  s5_sys :: "int list"
  s5_open :: "int set"

definition hev_socks5_get_timeout :: "'a HevSocks5_scheme \<Rightarrow> int" where
  "hev_socks5_get_timeout self = s5_timeout self"

definition hev_socks5_set_timeout :: "int \<Rightarrow> 'a HevSocks5_scheme \<Rightarrow> 'a HevSocks5_scheme" where
  "hev_socks5_set_timeout timeout self = self\<lparr>s5_timeout := timeout\<rparr>"

definition hev_socks5_get_addr_family :: "'a HevSocks5_scheme \<Rightarrow> HevSocks5AddrFamily" where
  "hev_socks5_get_addr_family self = s5_addr_family self"

definition hev_socks5_set_addr_family :: "HevSocks5AddrFamily \<Rightarrow> 'a HevSocks5_scheme \<Rightarrow> 'a HevSocks5_scheme" where
  "hev_socks5_set_addr_family family self = self\<lparr>s5_addr_family := family\<rparr>"

text \<open>
  Memory comes zeroed from \<open>hev_malloc0\<close>, so \<open>udp_associated\<close> is 0 in a new object; it is
  passed as it is here.
\<close>

definition hev_socks5_construct :: "HevSocks5Type \<Rightarrow> 'a HevSocks5_scheme \<Rightarrow> int \<times> 'a HevSocks5_scheme" where
  "hev_socks5_construct type self =
     (0, self\<lparr>s5_fd := -1, s5_timeout := -1, s5_type := type,
              s5_addr_family := HEV_SOCKS5_ADDR_FAMILY_UNSPEC\<rparr>)"

definition sys_close :: "int \<Rightarrow> 'a HevSocks5_scheme \<Rightarrow> 'a HevSocks5_scheme" where
  "sys_close fd self = self\<lparr>s5_open := s5_open self - {fd}\<rparr>"

definition hev_socks5_destruct :: "'a HevSocks5_scheme \<Rightarrow> 'a HevSocks5_scheme" where
  "hev_socks5_destruct self = (if 0 \<le> s5_fd self then sys_close (s5_fd self) self else self)"

section \<open>hev-socks5-misc.c: the yielder\<close>

text \<open>The task is suspended once and resumed.\<close>

definition hev_task_yield :: "'a HevSocks5_scheme \<Rightarrow> 'a HevSocks5_scheme" where
  "hev_task_yield self =
     self\<lparr>s5_clock := Suc (s5_clock self),
          s5_timeout := (if snd (s5_wake self (s5_clock self)) then 0 else s5_timeout self)\<rparr>"

definition hev_task_sleep :: "int \<Rightarrow> 'a HevSocks5_scheme \<Rightarrow> int \<times> 'a HevSocks5_scheme" where
  "hev_task_sleep ms self =
     (if ms = 0 then (0, self) else (int (fst (s5_wake self (s5_clock self))), hev_task_yield self))"

definition hev_socks5_task_io_yielder ::
  "HevTaskYieldType \<Rightarrow> 'a HevSocks5_scheme \<Rightarrow> (int \<times> 'a HevSocks5_scheme) option" where
  "hev_socks5_task_io_yielder type self =
     (if type = HEV_TASK_YIELD then Some (0, hev_task_yield self)
      else if s5_timeout self < 0 then Some (0, hev_task_yield self)
      else (case hev_task_sleep (s5_timeout self) self of
              (timeout, self) \<Rightarrow> if timeout \<le> 0 then Some (-1, self) else Some (0, self)))"

text \<open>Every sleep ends in time and nobody terminates the session.\<close>

definition s5_calm :: "'a HevSocks5_scheme \<Rightarrow> bool" where
  "s5_calm self \<longleftrightarrow> s5_timeout self \<noteq> 0 \<and> (\<forall>n. 0 < fst (s5_wake self n) \<and> \<not> snd (s5_wake self n))"

lemma hev_task_yield_net [simp]: "same_net self (hev_task_yield self)"
  by (simp add: hev_task_yield_def same_net_def)

interpretation s5y: io_yielder hev_socks5_task_io_yielder
  by unfold_locales
    (auto simp: hev_socks5_task_io_yielder_def hev_task_sleep_def split: if_splits)

lemma s5_calm_yield:
  assumes "s5_calm self"
  shows "hev_socks5_task_io_yielder HEV_TASK_WAITIO self = Some (0, hev_task_yield self)"
    and "s5_calm (hev_task_yield self)"
proof -
  have "0 < fst (s5_wake self (s5_clock self))" "s5_timeout self \<noteq> 0"
    using assms by (simp_all add: s5_calm_def)
  then show "hev_socks5_task_io_yielder HEV_TASK_WAITIO self = Some (0, hev_task_yield self)"
    by (simp add: hev_socks5_task_io_yielder_def hev_task_sleep_def)
  show "s5_calm (hev_task_yield self)"
    using assms by (simp add: s5_calm_def hev_task_yield_def)
qed

interpretation s5p: patient_yielder hev_socks5_task_io_yielder s5_calm
  by unfold_locales (simp_all add: s5_calm_yield, simp_all add: s5_calm_def)

text \<open>Everything of an object but its socket, its timeout and the clock.\<close>

definition s5_frame :: "'a HevSocks5_scheme \<Rightarrow>
    int \<times> int \<times> HevSocks5Type \<times> HevSocks5AddrFamily \<times> (nat \<Rightarrow> nat \<times> bool) \<times> int list \<times> int set \<times> 'a" where
  "s5_frame w = (s5_fd w, s5_udp_associated w, s5_type w, s5_addr_family w, s5_wake w, s5_sys w, s5_open w,
     HevSocks5.more w)"

lemma s5_frameD:
  assumes "s5_frame w' = s5_frame w"
  shows "s5_fd w' = s5_fd w" "s5_udp_associated w' = s5_udp_associated w" "s5_type w' = s5_type w"
    "s5_addr_family w' = s5_addr_family w" "s5_wake w' = s5_wake w" "s5_sys w' = s5_sys w"
    "s5_open w' = s5_open w" "HevSocks5.more w' = HevSocks5.more w"
  using assms by (simp_all add: s5_frame_def)

interpretation s5f: framed_yielder hev_socks5_task_io_yielder s5_frame
  by unfold_locales
    (auto simp: hev_socks5_task_io_yielder_def hev_task_sleep_def hev_task_yield_def s5_frame_def split: if_splits)

text \<open>
  A yielder that blocks gives up as soon as the timeout is 0: the way a terminated session is
  made to end.
\<close>

lemma yielder_terminated:
  "s5_timeout self = 0 \<Longrightarrow> hev_socks5_task_io_yielder HEV_TASK_WAITIO self = Some (-1, self)"
  by (simp add: hev_socks5_task_io_yielder_def hev_task_sleep_def)

section \<open>hev-socks5-misc.c: sockets\<close>

definition sys_result :: "'a HevSocks5_scheme \<Rightarrow> (int \<times> 'a HevSocks5_scheme) option" where
  "sys_result self = (case s5_sys self of [] \<Rightarrow> None | r # rs \<Rightarrow> Some (r, self\<lparr>s5_sys := rs\<rparr>))"

definition sys_opened :: "int \<Rightarrow> 'a HevSocks5_scheme \<Rightarrow> 'a HevSocks5_scheme" where
  "sys_opened fd self = (if fd < 0 then self else self\<lparr>s5_open := insert fd (s5_open self)\<rparr>)"

text \<open>
  The results of \<open>hev_task_add_fd\<close>, \<open>hev_task_mod_fd\<close> and of setting the receive buffer of a
  datagram socket do not matter to the function, so these calls take no result here.
\<close>

definition hev_socks5_socket :: "'a HevSocks5_scheme \<Rightarrow> (int \<times> 'a HevSocks5_scheme) option" where
  "hev_socks5_socket self = do {
     (fd, self) \<leftarrow> sys_result self;
     let self = sys_opened fd self;
     if fd < 0 then Some (-1, self)
     else do {
       (res, self) \<leftarrow> sys_result self;
       if res < 0 then Some (-1, sys_close fd self)
       else Some (fd, self) } }"

section \<open>hev-socks5-misc.c: addresses\<close>

text \<open>
  A \<open>uint16_t\<close> in memory, on a little-endian machine; ports are kept in network order, as the
  sources keep them.
\<close>

definition u16_mem :: "u16 \<Rightarrow> byte list" where
  "u16_mem p = [ucast p, ucast (drop_bit 8 p)]"

definition mem_u16 :: "byte list \<Rightarrow> u16" where
  "mem_u16 bs = (ucast (bs ! 0) :: u16) OR push_bit 8 (ucast (bs ! 1))"

definition ntohs :: "u16 \<Rightarrow> u16" where
  "ntohs p = push_bit 8 p OR drop_bit 8 p"

type_synonym HevSocks5Addr = "byte list"

definition sizeof_addr :: nat where "sizeof_addr = 260"

definition AF_INET6 :: u16 where "AF_INET6 = 10"

record sockaddr_in6 =
  sin6_family :: u16
  sin6_port :: u16
  sin6_flowinfo :: "32 word"
  sin6_addr :: "byte list"
  sin6_scope_id :: "32 word"

text \<open>The abstract address, its wire form and the reading of a memory that starts with one.\<close>

datatype endpoint = IPv4 "byte list" u16 | IPv6 "byte list" u16 | Name "byte list" u16

fun endpoint_ok :: "endpoint \<Rightarrow> bool" where
  "endpoint_ok (IPv4 a p) = (length a = 4)"
| "endpoint_ok (IPv6 a p) = (length a = 16)"
| "endpoint_ok (Name n p) = (length n < 256)"

fun addr_encode :: "endpoint \<Rightarrow> byte list" where
  "addr_encode (IPv4 a p) = [HEV_SOCKS5_ADDR_TYPE_IPV4] @ a @ u16_mem p"
| "addr_encode (IPv6 a p) = [HEV_SOCKS5_ADDR_TYPE_IPV6] @ a @ u16_mem p"
| "addr_encode (Name n p) = [HEV_SOCKS5_ADDR_TYPE_NAME, of_nat (length n)] @ n @ u16_mem p"

definition addr_decode :: "HevSocks5Addr \<Rightarrow> endpoint option" where
  "addr_decode m =
     (if m = [] then None
      else if m ! 0 = HEV_SOCKS5_ADDR_TYPE_IPV4 then
        (if 7 \<le> length m then Some (IPv4 (chunk m 1 4) (mem_u16 (chunk m 5 2))) else None)
      else if m ! 0 = HEV_SOCKS5_ADDR_TYPE_IPV6 then
        (if 19 \<le> length m then Some (IPv6 (chunk m 1 16) (mem_u16 (chunk m 17 2))) else None)
      else if m ! 0 = HEV_SOCKS5_ADDR_TYPE_NAME \<and> 2 \<le> length m \<and> 4 + unat (m ! 1) \<le> length m then
        Some (Name (chunk m 2 (unat (m ! 1))) (mem_u16 (chunk m (2 + unat (m ! 1)) 2)))
      else None)"

definition hev_socks5_addr_len :: "HevSocks5Addr \<Rightarrow> int" where
  "hev_socks5_addr_len addr =
     (if addr ! 0 = HEV_SOCKS5_ADDR_TYPE_IPV4 then 7
      else if addr ! 0 = HEV_SOCKS5_ADDR_TYPE_IPV6 then 19
      else if addr ! 0 = HEV_SOCKS5_ADDR_TYPE_NAME then 4 + uint (addr ! 1)
      else -1)"

text \<open>
  \<open>strncpy\<close> copies up to 256 bytes of the name and clears the rest of the 256; \<open>strlen\<close> then
  scans the memory for a zero, which need not exist (\<open>None\<close>: the scan leaves the object).
\<close>

definition strncpy_mem :: "byte list \<Rightarrow> nat \<Rightarrow> byte list \<Rightarrow> nat \<Rightarrow> byte list" where
  "strncpy_mem m off name n = overwrite m off (take n name @ replicate (n - length name) 0)"

fun strlen_mem :: "byte list \<Rightarrow> nat option" where
  "strlen_mem [] = None"
| "strlen_mem (b # bs) = (if b = 0 then Some 0 else map_option Suc (strlen_mem bs))"

definition hev_socks5_addr_from_name ::
  "HevSocks5Addr \<Rightarrow> byte list \<Rightarrow> u16 \<Rightarrow> (int \<times> HevSocks5Addr) option" where
  "hev_socks5_addr_from_name addr name port = do {
     let addr = addr[0 := HEV_SOCKS5_ADDR_TYPE_NAME];
     let addr = strncpy_mem addr 2 name 256;
     n \<leftarrow> strlen_mem (drop 2 addr);
     let addr = addr[1 := of_nat n];
     let len = unat (addr ! 1);
     Some (4 + int len, overwrite addr (2 + len) (u16_mem port)) }"

definition hev_socks5_addr_from_ipv4 :: "HevSocks5Addr \<Rightarrow> byte list \<Rightarrow> u16 \<Rightarrow> int \<times> HevSocks5Addr" where
  "hev_socks5_addr_from_ipv4 addr ipv4 port =
     (let addr = addr[0 := HEV_SOCKS5_ADDR_TYPE_IPV4];
          addr = overwrite addr 1 (take 4 ipv4)
      in (7, overwrite addr 5 (u16_mem port)))"

definition hev_socks5_addr_from_ipv6 :: "HevSocks5Addr \<Rightarrow> byte list \<Rightarrow> u16 \<Rightarrow> int \<times> HevSocks5Addr" where
  "hev_socks5_addr_from_ipv6 addr ipv6 port =
     (let addr = addr[0 := HEV_SOCKS5_ADDR_TYPE_IPV6];
          addr = overwrite addr 1 (take 16 ipv6)
      in (19, overwrite addr 17 (u16_mem port)))"

definition IN6_IS_ADDR_V4MAPPED :: "byte list \<Rightarrow> bool" where
  "IN6_IS_ADDR_V4MAPPED a \<longleftrightarrow> take 12 a = replicate 10 0 @ [0xff, 0xff]"

definition hev_socks5_addr_from_sockaddr6 :: "HevSocks5Addr \<Rightarrow> sockaddr_in6 \<Rightarrow> int \<times> HevSocks5Addr" where
  "hev_socks5_addr_from_sockaddr6 addr saddr =
     (if IN6_IS_ADDR_V4MAPPED (sin6_addr saddr) then
        (let addr = addr[0 := HEV_SOCKS5_ADDR_TYPE_IPV4];
             addr = overwrite addr 5 (u16_mem (sin6_port saddr))
         in (7, overwrite addr 1 (chunk (sin6_addr saddr) 12 4)))
      else
        (let addr = addr[0 := HEV_SOCKS5_ADDR_TYPE_IPV6];
             addr = overwrite addr 17 (u16_mem (sin6_port saddr))
         in (19, overwrite addr 1 (take 16 (sin6_addr saddr)))))"

text \<open>Flow information and scope of the socket address keep whatever its memory held.\<close>

definition hev_socks5_ipv4_into_sockaddr6 :: "HevSocks5Addr \<Rightarrow> sockaddr_in6 \<Rightarrow> sockaddr_in6" where
  "hev_socks5_ipv4_into_sockaddr6 addr saddr =
     saddr\<lparr>sin6_family := AF_INET6, sin6_port := mem_u16 (chunk addr 5 2),
           sin6_addr := replicate 10 0 @ [0xff, 0xff] @ chunk addr 1 4\<rparr>"

definition hev_socks5_ipv6_into_sockaddr6 :: "HevSocks5Addr \<Rightarrow> sockaddr_in6 \<Rightarrow> sockaddr_in6" where
  "hev_socks5_ipv6_into_sockaddr6 addr saddr =
     saddr\<lparr>sin6_family := AF_INET6, sin6_port := mem_u16 (chunk addr 17 2), sin6_addr := chunk addr 1 16\<rparr>"

text \<open>
  Name resolution asks the C library and the DNS: \<open>inet_pton4\<close> and \<open>inet_pton6\<close> give the address
  a literal denotes, \<open>getaddrinfo\<close> the first result for a name and a wanted family.
\<close>

datatype ai_addr = AiInet "byte list" | AiInet6 "byte list" | AiOther

record resolver =
  inet_pton4 :: "byte list \<Rightarrow> byte list option"
  inet_pton6 :: "byte list \<Rightarrow> byte list option"
  getaddrinfo :: "byte list \<Rightarrow> HevSocks5AddrFamily \<Rightarrow> ai_addr option"

definition hev_socks5_name_resolve_ipv4 :: "resolver \<Rightarrow> byte list \<Rightarrow> sockaddr_in6 \<Rightarrow> int \<times> sockaddr_in6" where
  "hev_socks5_name_resolve_ipv4 R name saddr =
     (let a = replicate 10 0 @ drop 10 (sin6_addr saddr)
      in case inet_pton4 R name of
           None \<Rightarrow> (-1, saddr\<lparr>sin6_addr := a\<rparr>)
         | Some v4 \<Rightarrow> (0, saddr\<lparr>sin6_addr := ((overwrite a 12 v4)[10 := 0xff])[11 := 0xff]\<rparr>))"

definition hev_socks5_name_resolve_ipv6 :: "resolver \<Rightarrow> byte list \<Rightarrow> sockaddr_in6 \<Rightarrow> int \<times> sockaddr_in6" where
  "hev_socks5_name_resolve_ipv6 R name saddr =
     (case inet_pton6 R name of None \<Rightarrow> (-1, saddr) | Some v6 \<Rightarrow> (0, saddr\<lparr>sin6_addr := v6\<rparr>))"

definition hev_socks5_name_resolve_name ::
  "resolver \<Rightarrow> byte list \<Rightarrow> sockaddr_in6 \<Rightarrow> HevSocks5AddrFamily \<Rightarrow> int \<times> sockaddr_in6 \<times> HevSocks5AddrFamily" where
  "hev_socks5_name_resolve_name R name saddr family =
     (case getaddrinfo R name family of
        None \<Rightarrow> (-1, saddr, family)
      | Some (AiInet v4) \<Rightarrow>
          (0, saddr\<lparr>sin6_addr := replicate 10 0 @ [0xff, 0xff] @ take 4 v4\<rparr>, HEV_SOCKS5_ADDR_FAMILY_IPV4)
      | Some (AiInet6 v6) \<Rightarrow> (0, saddr\<lparr>sin6_addr := take 16 v6\<rparr>, HEV_SOCKS5_ADDR_FAMILY_IPV6)
      | Some AiOther \<Rightarrow> (-1, saddr, family))"

definition hev_socks5_name_into_sockaddr6 ::
  "resolver \<Rightarrow> byte list \<Rightarrow> u16 \<Rightarrow> sockaddr_in6 \<Rightarrow> HevSocks5AddrFamily \<Rightarrow> int \<times> sockaddr_in6 \<times> HevSocks5AddrFamily" where
  "hev_socks5_name_into_sockaddr6 R name port saddr family =
     (let saddr = saddr\<lparr>sin6_family := AF_INET6, sin6_port := ntohs port\<rparr>
      in case hev_socks5_name_resolve_ipv4 R name saddr of (res, saddr) \<Rightarrow>
         if res = 0 then (0, saddr, HEV_SOCKS5_ADDR_FAMILY_IPV4)
         else case hev_socks5_name_resolve_ipv6 R name saddr of (res, saddr) \<Rightarrow>
         if res = 0 then (0, saddr, HEV_SOCKS5_ADDR_FAMILY_IPV6)
         else hev_socks5_name_resolve_name R name saddr family)"

definition hev_socks5_addr_into_sockaddr6 ::
  "resolver \<Rightarrow> HevSocks5Addr \<Rightarrow> sockaddr_in6 \<Rightarrow> HevSocks5AddrFamily \<Rightarrow> int \<times> sockaddr_in6 \<times> HevSocks5AddrFamily" where
  "hev_socks5_addr_into_sockaddr6 R addr saddr family =
     (if addr ! 0 = HEV_SOCKS5_ADDR_TYPE_IPV4 then
        (0, hev_socks5_ipv4_into_sockaddr6 addr saddr, HEV_SOCKS5_ADDR_FAMILY_IPV4)
      else if addr ! 0 = HEV_SOCKS5_ADDR_TYPE_IPV6 then
        (0, hev_socks5_ipv6_into_sockaddr6 addr saddr, HEV_SOCKS5_ADDR_FAMILY_IPV6)
      else if addr ! 0 = HEV_SOCKS5_ADDR_TYPE_NAME then
        hev_socks5_name_into_sockaddr6 R (cstr (chunk addr 2 (unat (addr ! 1))))
          (ntohs (mem_u16 (chunk addr (2 + unat (addr ! 1)) 2))) saddr family
      else (-1, saddr, family))"

section \<open>Addresses: lemmas\<close>

lemma length_u16_mem [simp]: "length (u16_mem p) = 2"
  by (simp add: u16_mem_def)

lemma mem_u16_mem [simp]: "mem_u16 (u16_mem p) = p"
  by (simp add: mem_u16_def u16_mem_def) (auto intro!: bit_word_eqI simp: bit_simps)

lemma u16_mem_u16:
  assumes "length bs = 2"
  shows "u16_mem (mem_u16 bs) = bs"
proof -
  obtain y z where "bs = [y, z]" using assms by (auto simp: numeral_2_eq_2 length_Suc_conv)
  moreover have "\<not> bit y (8 + n)" for n using bit_imp_le_length[of y "8 + n"] by auto
  ultimately show ?thesis
    by (auto simp: mem_u16_def u16_mem_def bit_simps intro!: bit_word_eqI)
qed

lemma ntohs_ntohs [simp]: "ntohs (ntohs p) = p"
  by (auto intro!: bit_word_eqI simp: ntohs_def bit_simps)

lemma length_addr_encode:
  "endpoint_ok e \<Longrightarrow> int (length (addr_encode e)) = hev_socks5_addr_len (addr_encode e @ rest)"
  by (cases e) (auto simp: hev_socks5_addr_len_def proto_defs unat_of_nat uint_nat)

lemma addr_decode_encode: "endpoint_ok e \<Longrightarrow> addr_decode (addr_encode e @ rest) = Some e"
  by (cases e) (auto simp: addr_decode_def proto_defs unat_of_nat buf_simps)

lemma addr_decode_Cons:
  shows "addr_decode (HEV_SOCKS5_ADDR_TYPE_IPV4 # r) =
      (if 6 \<le> length r then Some (IPv4 (take 4 r) (mem_u16 (take 2 (drop 4 r)))) else None)"
    and "addr_decode (HEV_SOCKS5_ADDR_TYPE_IPV6 # r) =
      (if 18 \<le> length r then Some (IPv6 (take 16 r) (mem_u16 (take 2 (drop 16 r)))) else None)"
    and "addr_decode (HEV_SOCKS5_ADDR_TYPE_NAME # n # r) =
      (if 2 + unat n \<le> length r then Some (Name (take (unat n) r) (mem_u16 (take 2 (drop (unat n) r)))) else None)"
  by (simp_all add: addr_decode_def proto_defs chunk_def)

lemma addr_decode_cases:
  assumes "addr_decode m = Some e"
  obtains (v4) r where "m = HEV_SOCKS5_ADDR_TYPE_IPV4 # r" "6 \<le> length r"
    "e = IPv4 (take 4 r) (mem_u16 (take 2 (drop 4 r)))"
  | (v6) r where "m = HEV_SOCKS5_ADDR_TYPE_IPV6 # r" "18 \<le> length r"
    "e = IPv6 (take 16 r) (mem_u16 (take 2 (drop 16 r)))"
  | (name) n r where "m = HEV_SOCKS5_ADDR_TYPE_NAME # n # r" "2 + unat n \<le> length r"
    "e = Name (take (unat n) r) (mem_u16 (take 2 (drop (unat n) r)))"
proof -
  have "\<exists>t r. m = t # r \<and> (t = HEV_SOCKS5_ADDR_TYPE_IPV4 \<or> t = HEV_SOCKS5_ADDR_TYPE_IPV6 \<or>
      t = HEV_SOCKS5_ADDR_TYPE_NAME \<and> r \<noteq> [])"
    using assms by (cases m; cases "tl m") (auto simp: addr_decode_def split: if_splits)
  then consider r where "m = HEV_SOCKS5_ADDR_TYPE_IPV4 # r" | r where "m = HEV_SOCKS5_ADDR_TYPE_IPV6 # r"
    | n r where "m = HEV_SOCKS5_ADDR_TYPE_NAME # n # r"
    by (metis list.exhaust)
  then show thesis
    using assms by cases (auto simp: addr_decode_Cons split: if_splits intro: v4 v6 name)
qed

text \<open>An address that decodes is the encoding of the result, followed by bytes that do not matter.\<close>

lemma addr_encode_decode:
  assumes "addr_decode m = Some e"
  shows "endpoint_ok e" and "addr_encode e = take (nat (hev_socks5_addr_len m)) m"
proof -
  have tk: "take i r @ take j (drop i r) = take (i + j) r" for i j and r :: "byte list"
    by (simp add: take_add)
  from assms show "endpoint_ok e"
  proof (cases rule: addr_decode_cases)
    case (name n r)
    then show ?thesis using unsigned_less[of n] by simp
  qed simp_all
  from assms show "addr_encode e = take (nat (hev_socks5_addr_len m)) m"
  proof (cases rule: addr_decode_cases)
    case (v4 r)
    then show ?thesis by (simp add: hev_socks5_addr_len_def u16_mem_u16 tk)
  next
    case (v6 r)
    then show ?thesis by (simp add: hev_socks5_addr_len_def proto_defs u16_mem_u16 tk)
  next
    case (name n r)
    have "nat (4 + uint n) = Suc (Suc (unat n + 2))" by (simp add: nat_add_distrib)
    with name show ?thesis
      by (simp add: hev_socks5_addr_len_def proto_defs u16_mem_u16 tk)
  qed
qed

lemma overwrite_prefix:
  "length ys = k \<Longrightarrow> k \<le> length xs \<Longrightarrow> overwrite xs 0 ys = ys @ drop k xs"
  by (simp add: overwrite_def)

lemma addr_from_ipv4_encode:
  assumes "length ip = 4" and "7 \<le> length addr"
  shows "hev_socks5_addr_from_ipv4 addr ip port = (7, addr_encode (IPv4 ip port) @ drop 7 addr)"
  using assms by (cases addr) (auto simp: hev_socks5_addr_from_ipv4_def overwrite_def)

lemma addr_from_ipv6_encode:
  assumes "length ip = 16" and "19 \<le> length addr"
  shows "hev_socks5_addr_from_ipv6 addr ip port = (19, addr_encode (IPv6 ip port) @ drop 19 addr)"
  using assms by (cases addr) (auto simp: hev_socks5_addr_from_ipv6_def overwrite_def)

lemma strlen_mem_name: "0 \<notin> set name \<Longrightarrow> strlen_mem (name @ 0 # rest) = Some (length name)"
  by (induction name) auto

lemma addr_from_name_encode:
  assumes "0 \<notin> set name" and "length name < 256" and "length addr = sizeof_addr"
  shows "hev_socks5_addr_from_name addr name port =
    Some (4 + int (length name),
      addr_encode (Name name port) @
      (if length name = 255 then drop 259 addr else replicate (254 - length name) 0 @ drop 258 addr))"
proof -
  obtain a b m where addr: "addr = a # b # m" and m: "length m = 258"
    using assms(3) by (cases addr rule: list.exhaust; cases "tl addr") (auto simp: sizeof_addr_def)
  define pad where "pad = replicate (256 - length name) 0 @ drop 256 m"
  have pad: "pad = 0 # tl pad" using assms(2) by (cases "256 - length name") (auto simp: pad_def)
  have st: "strncpy_mem (addr[0 := t]) 2 name 256 = t # b # name @ pad" for t
    using assms(2) m by (simp add: strncpy_mem_def overwrite_def addr pad_def)
  have len: "strlen_mem (name @ pad) = Some (length name)"
    using strlen_mem_name[OF assms(1)] pad by metis
  have "drop 2 pad = (if length name = 255 then drop 259 addr else replicate (254 - length name) 0 @ drop 258 addr)"
    using assms(2) by (auto simp: pad_def addr)
  moreover have "unat (word_of_nat (length name) :: byte) = length name"
    using assms(2) by (simp add: unat_of_nat)
  ultimately show ?thesis
    using st len unfolding hev_socks5_addr_from_name_def Let_def by (simp add: overwrite_def del: nat_uint_eq of_nat_unat)
qed

text \<open>
  A socket address and a SOCKS address carry the same information: IPv4 travels as a mapped IPv6
  address inside the program.
\<close>

lemma v4mapped_split:
  "length a = 16 \<Longrightarrow> IN6_IS_ADDR_V4MAPPED a \<Longrightarrow> a = replicate 10 0 @ [0xff, 0xff] @ drop 12 a"
  by (metis IN6_IS_ADDR_V4MAPPED_def append.assoc append_take_drop_id)

lemma addr_from_sockaddr6_encode:
  assumes "length (sin6_addr sa) = 16" and "19 \<le> length addr"
  shows "hev_socks5_addr_from_sockaddr6 addr sa =
    (if IN6_IS_ADDR_V4MAPPED (sin6_addr sa)
     then (7, addr_encode (IPv4 (drop 12 (sin6_addr sa)) (sin6_port sa)) @ drop 7 addr)
     else (19, addr_encode (IPv6 (sin6_addr sa) (sin6_port sa)) @ drop 19 addr))"
  using assms by (cases addr) (auto simp: hev_socks5_addr_from_sockaddr6_def overwrite_def chunk_def)

lemma into_sockaddr6_encode:
  shows "length ip = 4 \<Longrightarrow> hev_socks5_addr_into_sockaddr6 R (addr_encode (IPv4 ip port) @ rest) sa fam =
      (0, sa\<lparr>sin6_family := AF_INET6, sin6_port := port, sin6_addr := replicate 10 0 @ [0xff, 0xff] @ ip\<rparr>,
       HEV_SOCKS5_ADDR_FAMILY_IPV4)"
    and "length ip6 = 16 \<Longrightarrow> hev_socks5_addr_into_sockaddr6 R (addr_encode (IPv6 ip6 port) @ rest) sa fam =
      (0, sa\<lparr>sin6_family := AF_INET6, sin6_port := port, sin6_addr := ip6\<rparr>, HEV_SOCKS5_ADDR_FAMILY_IPV6)"
  by (auto simp: hev_socks5_addr_into_sockaddr6_def hev_socks5_ipv4_into_sockaddr6_def
      hev_socks5_ipv6_into_sockaddr6_def proto_defs chunk_def)

section \<open>Properties\<close>

text \<open>
  An object fresh from its constructor, with given scripts for its socket; sleeping tasks are
  always resumed in time and never terminated by others.  It serves the examples below.
\<close>

definition idle_socks5 :: "rx_ev list \<Rightarrow> tx_ev list \<Rightarrow> HevSocks5" where
  "idle_socks5 rx tx = snd (hev_socks5_construct HEV_SOCKS5_TYPE_TCP
     \<lparr>net_rx = rx, net_tx = tx, net_conn = [], net_out = [], net_shut = False, net_junk = (\<lambda>_. 0),
      s5_fd = 0, s5_timeout = 0, s5_udp_associated = 0, s5_type = HEV_SOCKS5_TYPE_NONE,
      s5_addr_family = HEV_SOCKS5_ADDR_FAMILY_UNSPEC, s5_wake = (\<lambda>_. (1, False)), s5_clock = 0,
      s5_sys = [], s5_open = {}\<rparr>)"

lemma idle_socks5_simps [simp]:
  "s5_calm (idle_socks5 rx tx)" "net_rx (idle_socks5 rx tx) = rx" "net_tx (idle_socks5 rx tx) = tx"
  "net_out (idle_socks5 rx tx) = []"
  by (simp_all add: idle_socks5_def hev_socks5_construct_def s5_calm_def)

text \<open>
  C4: Receiving with \<open>MSG_WAITALL\<close> returns, and returns exactly the next \<open>len\<close> bytes of the
  stream, however the peer's data was cut into segments and however often the socket was not
  ready, provided the connection stays up and no sleep runs into its timeout.  The rest of the
  stream is left for the next call.
\<close>

theorem recv_all_returns:
  assumes "rx_ready (net_rx w)" and "0 < len" and "len \<le> length (rx_bytes (net_rx w))" and "s5_calm w"
  shows "\<exists>w'. hev_task_io_socket_recv hev_socks5_task_io_yielder True len [] w =
      Some (int len, take len (rx_bytes (net_rx w)), w') \<and>
      rx_bytes (net_rx w') = drop len (rx_bytes (net_rx w)) \<and> net_out w' = net_out w"
  by (rule s5p.recv_complete[OF assms(1,2,4,3)]) (auto simp: rx_step_def dest: take_append_drop)

theorem recv_all_returns_witness:
  "\<exists>w'. hev_task_io_socket_recv hev_socks5_task_io_yielder True 3 []
      (idle_socks5 [RxAgain, RxData [1, 2], RxAgain, RxAgain, RxData [3, 4]] []) = Some (3, [1, 2, 3], w') \<and>
    rx_bytes (net_rx w') = [4]"
  using recv_all_returns[of "idle_socks5 [RxAgain, RxData [1, 2], RxAgain, RxAgain, RxData [3, 4]] []" 3] by auto

text \<open>
  C5: Sending with \<open>MSG_WAITALL\<close> returns once the kernel has accepted the whole buffer, whatever
  the sizes of the pieces it accepts; the buffer is on the wire once, in order.
\<close>

theorem send_all_returns:
  assumes "buf \<noteq> []" and "length buf \<le> tx_room (net_tx w)" and "s5_calm w"
  shows "\<exists>w'. hev_task_io_socket_send hev_socks5_task_io_yielder True buf 0 w = Some (int (length buf), w') \<and>
     net_out w' = net_out w @ buf \<and> net_rx w' = net_rx w"
  by (rule s5p.send_complete[OF assms(2,1,3)]) (auto simp: tx_step_def)

theorem send_all_returns_witness:
  "\<exists>w'. hev_task_io_socket_send hev_socks5_task_io_yielder True [1, 2, 3] 0
      (idle_socks5 [] [TxOk 1, TxAgain, TxOk 1, TxOk 5]) = Some (3, w') \<and> net_out w' = [1, 2, 3]"
  using send_all_returns[of "[1, 2, 3]" "idle_socks5 [] [TxOk 1, TxAgain, TxOk 1, TxOk 5]"] by auto

text \<open>
  C6: A transfer never invents, drops or reorders bytes, also when it fails: whatever the result,
  the bytes in the receive buffer are the next bytes of the stream, and what the kernel has
  accepted of a send is a prefix of the buffer; a positive result is the number of those bytes.
\<close>

theorem transfers_are_prefixes:
  "(hev_task_io_socket_recv hev_socks5_task_io_yielder True len [] w = Some (res, buf, w') \<and> 0 < len \<longrightarrow>
      rx_bytes (net_rx w) = buf @ rx_bytes (net_rx w') \<and> length buf \<le> len \<and> (0 < res \<longrightarrow> res = int (length buf))) \<and>
   (hev_task_io_socket_send hev_socks5_task_io_yielder True out 0 v = Some (res', v') \<and> out \<noteq> [] \<longrightarrow>
      (\<exists>n. n \<le> length out \<and> net_out v' = net_out v @ take n out \<and> (0 < res' \<longrightarrow> res' = int n)))"
proof (intro conjI impI)
  assume "hev_task_io_socket_recv hev_socks5_task_io_yielder True len [] w = Some (res, buf, w') \<and> 0 < len"
  then show "rx_bytes (net_rx w) = buf @ rx_bytes (net_rx w')" "length buf \<le> len" "0 < res \<Longrightarrow> res = int (length buf)"
    using s5y.recv_prefix[of len w res buf w'] by (auto simp: rx_step_def)
next
  assume "hev_task_io_socket_send hev_socks5_task_io_yielder True out 0 v = Some (res', v') \<and> out \<noteq> []"
  then obtain n where "tx_step v (take n out) v'" "n \<le> length out" "0 < res' \<Longrightarrow> res' = int n"
    using s5y.send_prefix[of out v res' v'] by blast
  then show "\<exists>n. n \<le> length out \<and> net_out v' = net_out v @ take n out \<and> (0 < res' \<longrightarrow> res' = int n)"
    by (auto simp: tx_step_def)
qed

theorem transfers_are_prefixes_witness:
  "\<exists>w'. hev_task_io_socket_recv hev_socks5_task_io_yielder True 3 [] (idle_socks5 [RxData [7, 8], RxEof] []) =
      Some (2, [7, 8], w') \<and> rx_bytes (net_rx w') = []"
proof -
  let ?w = "idle_socks5 [RxData [7, 8], RxEof] []"
  obtain w' where r: "hev_task_io_socket_recv hev_socks5_task_io_yielder True 3 [] ?w = Some (2, [7, 8], w')"
    by (auto simp: sys_recv_def hev_task_io_socket_recv.simps[where got = "[]"]
        hev_task_io_socket_recv.simps[where got = "[7, 8]"])
  then show ?thesis
    using transfers_are_prefixes[of 3 ?w 2 "[7, 8]" w' "[]" ?w 0 ?w] by simp
qed

text \<open>
  C7: Scatter/gather I/O is a matter of where the bytes live.  \<open>sendmsg\<close> does exactly what \<open>send\<close>
  does with the regions laid end to end.  \<open>recvmsg\<close> takes from the stream what \<open>recv\<close> takes with one
  buffer of the total size, returns what \<open>recv\<close> returns, and leaves in memory what filling the
  regions in order with the bytes received gives: wherever the segments end, a region is continued
  where the last one stopped and no byte lands elsewhere.  This covers calls that fail or never
  return; a byte that would be stored outside of its object is an error on both sides.
\<close>

theorem vector_io_equiv:
  "hev_task_io_socket_sendmsg yl wa (length (concat iov)) iov 0 w =
      hev_task_io_socket_send yl wa (concat iov) 0 w \<and>
   (mv_total vec \<le> ssize_max \<longrightarrow>
      hev_task_io_socket_recvmsg yl wa (mv_total vec) vec 0 mem v = do {
        (res, got, v) \<leftarrow> hev_task_io_socket_recv yl wa (mv_total vec) [] v;
        mem \<leftarrow> mem_scatter vec got mem;
        Some (res, mem, v) })"
  using sendmsg_eq_send recvmsg_eq_recv by blast

theorem vector_io_equiv_witness:
  "map_option (\<lambda>(res, mem, v). (res, mem)) (hev_task_io_socket_recvmsg hev_socks5_task_io_yielder True 5
      [\<lparr>mv_obj = 1, mv_base = 1, mv_len = 2\<rparr>, \<lparr>mv_obj = 0, mv_base = 0, mv_len = 3\<rparr>] 0 [[0, 0, 0, 0], [0, 0, 0]]
      (idle_socks5 [RxData [1], RxData [2, 3], RxAgain, RxData [4, 5, 6]] [])) =
   Some (5, [[3, 4, 5, 0], [0, 1, 2]])"
proof -
  let ?vec = "[\<lparr>mv_obj = 1, mv_base = 1, mv_len = 2\<rparr>, \<lparr>mv_obj = 0, mv_base = 0, mv_len = 3\<rparr>]"
  let ?w = "idle_socks5 [RxData [1], RxData [2, 3], RxAgain, RxData [4, 5, 6]] []"
  obtain w' where "hev_task_io_socket_recv hev_socks5_task_io_yielder True 5 [] ?w = Some (5, [1, 2, 3, 4, 5], w')"
    by (rule s5p.recv_complete[of ?w 5]) simp_all
  then show ?thesis
    using vector_io_equiv[of hev_socks5_task_io_yielder True "[]" ?w ?vec "[[0, 0, 0, 0], [0, 0, 0]]" ?w]
    by (simp add: ssize_max_def mv_total_def mem_store_def overwrite_def)
qed

text \<open>
  C13: Terminating a session ends its blocking operations: once the timeout is 0 a receive that
  finds nothing to read gives up with -2 instead of waiting, and leaves the stream alone.
\<close>

theorem terminated_recv_stops:
  assumes "s5_timeout w = 0" and "net_rx w = RxAgain # es" and "0 < len"
  shows "hev_task_io_socket_recv hev_socks5_task_io_yielder waitall len [] w = Some (-2, [], w\<lparr>net_rx := es\<rparr>)"
  using assms by (subst hev_task_io_socket_recv.simps) (simp add: sys_recv_def yielder_terminated)

theorem terminated_recv_stops_witness:
  "hev_task_io_socket_recv hev_socks5_task_io_yielder True 4 []
     (hev_socks5_set_timeout 0 (idle_socks5 [RxAgain] [])) =
   Some (-2, [], hev_socks5_set_timeout 0 (idle_socks5 [] []))"
  using terminated_recv_stops[of "hev_socks5_set_timeout 0 (idle_socks5 [RxAgain] [])" "[]" 4 True]
  by (simp add: hev_socks5_set_timeout_def idle_socks5_def hev_socks5_construct_def)

text \<open>
  C9: Building an address and reading it back give the same endpoint: the memory that
  \<open>hev_socks5_addr_from_ipv4\<close>, \<open>..._from_ipv6\<close> and \<open>..._from_name\<close> fill decodes to the address and
  port they were given, and \<open>hev_socks5_addr_len\<close> is the number of bytes of its wire form.
\<close>

theorem addr_from_roundtrip:
  assumes "length mem = sizeof_addr" and "length ip4 = 4" and "length ip6 = 16"
    and "0 \<notin> set name" and "length name < 256"
  shows "addr_decode (snd (hev_socks5_addr_from_ipv4 mem ip4 p)) = Some (IPv4 ip4 p) \<and>
     addr_decode (snd (hev_socks5_addr_from_ipv6 mem ip6 p)) = Some (IPv6 ip6 p) \<and>
     (\<exists>m. hev_socks5_addr_from_name mem name p = Some (4 + int (length name), m) \<and>
        addr_decode m = Some (Name name p) \<and> hev_socks5_addr_len m = 4 + int (length name))"
proof -
  have "addr_decode (addr_encode (Name name p) @ r) = Some (Name name p)"
    "hev_socks5_addr_len (addr_encode (Name name p) @ r) = 4 + int (length name)" for r
    using addr_decode_encode[of "Name name p" r] length_addr_encode[of "Name name p" r] assms(5) by auto
  moreover have "7 \<le> length mem" "19 \<le> length mem" using assms(1) by (simp_all add: sizeof_addr_def)
  moreover obtain r where "hev_socks5_addr_from_name mem name p =
      Some (4 + int (length name), addr_encode (Name name p) @ r)"
    using addr_from_name_encode[OF assms(4,5,1)] by blast
  ultimately show ?thesis
    using assms addr_decode_encode[of "IPv4 ip4 p"] addr_decode_encode[of "IPv6 ip6 p"]
    by (simp add: addr_from_ipv4_encode addr_from_ipv6_encode del: addr_encode.simps)
qed

theorem addr_from_roundtrip_witness:
  "addr_decode (snd (hev_socks5_addr_from_ipv4 (replicate sizeof_addr 7) [10, 0, 0, 1] 0x5000)) =
     Some (IPv4 [10, 0, 0, 1] 0x5000)"
  using addr_from_roundtrip[of "replicate sizeof_addr 7" "[10, 0, 0, 1]" "replicate 16 0" "[97]" "0x5000"] by simp

text \<open>
  C10: A SOCKS address carries the address and the port of a socket address and nothing else.  A
  socket address turned into a SOCKS address and read back into a socket address \<open>sa0\<close> gives it the
  family \<open>AF_INET6\<close> and the port and address it started from (IPv4 travels as an IPv4-mapped IPv6
  address), reports the family of the address, and leaves flow information and scope of \<open>sa0\<close> as
  they were: the code never sets them.
\<close>

theorem sockaddr6_roundtrip:
  assumes "length (sin6_addr sa) = 16" and "length mem = sizeof_addr"
  shows "hev_socks5_addr_into_sockaddr6 R (snd (hev_socks5_addr_from_sockaddr6 mem sa)) sa0 fam =
     (0, \<lparr>sin6_family = AF_INET6, sin6_port = sin6_port sa, sin6_flowinfo = sin6_flowinfo sa0,
          sin6_addr = sin6_addr sa, sin6_scope_id = sin6_scope_id sa0\<rparr>,
      if IN6_IS_ADDR_V4MAPPED (sin6_addr sa) then HEV_SOCKS5_ADDR_FAMILY_IPV4
      else HEV_SOCKS5_ADDR_FAMILY_IPV6)"
proof (cases "IN6_IS_ADDR_V4MAPPED (sin6_addr sa)")
  case True
  then have "replicate 10 0 @ [0xff, 0xff] @ drop 12 (sin6_addr sa) = sin6_addr sa"
    using v4mapped_split assms(1) by metis
  with True assms show ?thesis
    using into_sockaddr6_encode(1)[of "drop 12 (sin6_addr sa)"]
    by (simp only: addr_from_sockaddr6_encode sizeof_addr_def) (cases sa0, simp)
next
  case False
  with assms show ?thesis
    using into_sockaddr6_encode(2)[of "sin6_addr sa"]
    by (simp only: addr_from_sockaddr6_encode sizeof_addr_def) (cases sa0, simp)
qed

theorem sockaddr6_roundtrip_witness:
  "let sa = \<lparr>sin6_family = AF_INET6, sin6_port = 0x3500, sin6_flowinfo = 0,
        sin6_addr = replicate 10 0 @ [0xff, 0xff, 8, 8, 8, 8], sin6_scope_id = 0\<rparr>;
       sa0 = \<lparr>sin6_family = 1, sin6_port = 2, sin6_flowinfo = 3, sin6_addr = replicate 16 4, sin6_scope_id = 5\<rparr>;
       R = \<lparr>inet_pton4 = Map.empty, inet_pton6 = Map.empty, getaddrinfo = (\<lambda>_. Map.empty)\<rparr> in
   hev_socks5_addr_into_sockaddr6 R (snd (hev_socks5_addr_from_sockaddr6 (replicate sizeof_addr 0) sa)) sa0
     HEV_SOCKS5_ADDR_FAMILY_UNSPEC =
   (0, sa\<lparr>sin6_flowinfo := 3, sin6_scope_id := 5\<rparr>, HEV_SOCKS5_ADDR_FAMILY_IPV4)"
proof -
  let ?sa = "\<lparr>sin6_family = AF_INET6, sin6_port = 0x3500, sin6_flowinfo = 0,
        sin6_addr = replicate 10 0 @ [0xff, 0xff, 8, 8, 8, 8], sin6_scope_id = 0\<rparr>"
  have "IN6_IS_ADDR_V4MAPPED (sin6_addr ?sa)" by (simp add: IN6_IS_ADDR_V4MAPPED_def)
  then show ?thesis
    using sockaddr6_roundtrip[of ?sa "replicate sizeof_addr 0"] by (simp add: Let_def)
qed

end
