(* ===== verification/Socks5_Client.thy ===== *)
theory Socks5_Client
  imports Socks5_Base
begin

text \<open>
  The SOCKS5 client (\<open>core/src/hev-socks5-client.c\<close>) and its two subclasses for TCP streams
  (\<open>hev-socks5-client-tcp.c\<close>) and UDP relaying (\<open>hev-socks5-client-udp.c\<close>).  The objects extend the
  record of the base object; the virtual methods are the fields of a class record.

  \<open>None\<close> stands for an operation that never returns to its caller: it waits for a peer that is
  silent for ever, or it dereferences a null pointer.
\<close>

record HevSocks5Client = HevSocks5 +
  cl_user :: "byte list option"
  cl_pass :: "byte list option"

record 'o ClientClass =
  cc_binder :: "int \<Rightarrow> sockaddr_in6 \<Rightarrow> 'o \<Rightarrow> (int \<times> 'o) option"
  cc_get_upstream_addr :: "'o \<Rightarrow> HevSocks5Addr option \<times> 'o"
  cc_set_upstream_addr :: "HevSocks5Addr \<Rightarrow> 'o \<Rightarrow> (int \<times> 'o) option"

section \<open>hev-socks5-client.c\<close>

text \<open>Memory of a stack object of \<open>n\<close> bytes before anything is stored in it.\<close>

definition stack_mem :: "nat \<Rightarrow> 'a net_scheme \<Rightarrow> byte list" where
  "stack_mem n w = map (net_junk w) [0..<n]"

definition mem_u32 :: "byte list \<Rightarrow> 32 word" where
  "mem_u32 bs = ucast (mem_u16 (take 2 bs)) OR push_bit 16 (ucast (mem_u16 (drop 2 bs)))"

text \<open>A \<open>struct sockaddr_in6\<close> on the stack: every field reads as the 28 bytes found there.\<close>

definition stack_sockaddr :: "'a net_scheme \<Rightarrow> sockaddr_in6" where
  "stack_sockaddr w =
     (let m = stack_mem 28 w in
      \<lparr>sin6_family = mem_u16 (chunk m 0 2), sin6_port = mem_u16 (chunk m 2 2), sin6_flowinfo = mem_u32 (chunk m 4 4),
       sin6_addr = chunk m 8 16, sin6_scope_id = mem_u32 (chunk m 24 4)\<rparr>)"

lemma length_stack_sockaddr [simp]: "length (sin6_addr (stack_sockaddr w)) = 16"
  by (simp add: stack_sockaddr_def stack_mem_def chunk_def Let_def)

definition hev_socks5_client_connect_server ::
  "resolver \<Rightarrow> 'a HevSocks5Client_scheme ClientClass \<Rightarrow> byte list \<Rightarrow> u16 \<Rightarrow>
   'a HevSocks5Client_scheme \<Rightarrow> (int \<times> 'a HevSocks5Client_scheme) option" where
  "hev_socks5_client_connect_server R klass addr port self =
     (case hev_socks5_name_into_sockaddr6 R addr port (stack_sockaddr self) (hev_socks5_get_addr_family self) of
       (res, saddr, addr_family) \<Rightarrow>
         if res < 0 then Some (-1, self)
         else do {
           (fd, self) \<leftarrow> hev_socks5_socket self;
           if fd < 0 then Some (-1, self)
           else do {
             (res, self) \<leftarrow> cc_binder klass fd saddr self;
             if res < 0 then Some (-1, sys_close fd self)
             else do {
               (res, self) \<leftarrow> hev_task_io_socket_connect hev_socks5_task_io_yielder self;
               if res < 0 then Some (-1, sys_close fd self)
               else Some (0, hev_socks5_set_addr_family addr_family (self\<lparr>s5_fd := fd\<rparr>)) } } })"

definition has_creds :: "'a HevSocks5Client_scheme \<Rightarrow> bool" where
  "has_creds self \<longleftrightarrow> cl_user self \<noteq> None \<and> cl_pass self \<noteq> None"

definition auth_methods_bytes :: "'a HevSocks5Client_scheme \<Rightarrow> byte list" where
  "auth_methods_bytes self =
     [HEV_SOCKS5_VERSION_5, 1,
      if \<not> has_creds self then HEV_SOCKS5_AUTH_METHOD_NONE else HEV_SOCKS5_AUTH_METHOD_USER]"

definition hev_socks5_client_write_auth_methods ::
  "'a HevSocks5Client_scheme \<Rightarrow> (int \<times> 'a HevSocks5Client_scheme) option" where
  "hev_socks5_client_write_auth_methods self = do {
     (res, self) \<leftarrow> hev_task_io_socket_send hev_socks5_task_io_yielder True (auth_methods_bytes self) 0 self;
     Some (if res \<le> 0 then -1 else 0, self) }"

text \<open>The four regions of the message; the lengths are cut to a byte.\<close>

definition auth_creds_iov :: "byte list \<Rightarrow> byte list \<Rightarrow> byte list list" where
  "auth_creds_iov user pass =
     (let ub1 = of_nat (length user) :: byte; ub2 = of_nat (length pass) :: byte
      in [[HEV_SOCKS5_AUTH_VERSION_1, ub1], take (unat ub1) user, [ub2], take (unat ub2) pass])"

definition hev_socks5_client_write_auth_creds ::
  "'a HevSocks5Client_scheme \<Rightarrow> (int \<times> 'a HevSocks5Client_scheme) option" where
  "hev_socks5_client_write_auth_creds self =
     (case (cl_user self, cl_pass self) of
        (Some user, Some pass) \<Rightarrow> do {
          let iov = auth_creds_iov user pass;
          (res, self) \<leftarrow> hev_task_io_socket_sendmsg hev_socks5_task_io_yielder True (length (concat iov)) iov 0 self;
          Some (if res \<le> 0 then -1 else 0, self) }
      | _ \<Rightarrow> Some (0, self))"

fun req_cmd :: "HevSocks5Type \<Rightarrow> byte option" where
  "req_cmd HEV_SOCKS5_TYPE_TCP = Some HEV_SOCKS5_REQ_CMD_CONNECT"
| "req_cmd HEV_SOCKS5_TYPE_UDP_IN_TCP = Some HEV_SOCKS5_REQ_CMD_FWD_UDP"
| "req_cmd HEV_SOCKS5_TYPE_UDP_IN_UDP = Some HEV_SOCKS5_REQ_CMD_UDP_ASC"
| "req_cmd HEV_SOCKS5_TYPE_NONE = None"

definition hev_socks5_client_write_request ::
  "'a HevSocks5Client_scheme ClientClass \<Rightarrow> 'a HevSocks5Client_scheme \<Rightarrow> (int \<times> 'a HevSocks5Client_scheme) option" where
  "hev_socks5_client_write_request klass self =
     (case req_cmd (s5_type self) of
        None \<Rightarrow> Some (-1, self)
      | Some cmd \<Rightarrow>
          (case cc_get_upstream_addr klass self of
             (None, self) \<Rightarrow> None
           | (Some addr, self) \<Rightarrow>
               if hev_socks5_addr_len addr < 0 then Some (-1, self)
               else do {
                 let iov = [[HEV_SOCKS5_VERSION_5, cmd, 0], take (nat (hev_socks5_addr_len addr)) addr];
                 (ret, self) \<leftarrow> hev_task_io_socket_sendmsg hev_socks5_task_io_yielder True
                   (length (concat iov)) iov 0 self;
                 Some (if ret \<le> 0 then -1 else 0, self) }))"

text \<open>
  \<open>recv\<close> into a buffer of \<open>len\<close> uninitialised bytes on the stack: what was not received is junk.
\<close>

definition recv_stack ::
  "nat \<Rightarrow> 'a HevSocks5_scheme \<Rightarrow> (int \<times> byte list \<times> 'a HevSocks5_scheme) option" where
  "recv_stack len self = do {
     (res, buf, self) \<leftarrow> hev_task_io_socket_recv hev_socks5_task_io_yielder True len [] self;
     Some (res, fill (net_junk self) len buf, self) }"

definition hev_socks5_client_read_auth_method ::
  "'a HevSocks5Client_scheme \<Rightarrow> (int \<times> 'a HevSocks5Client_scheme) option" where
  "hev_socks5_client_read_auth_method self = do {
     (res, auth, self) \<leftarrow> recv_stack 2 self;
     if res \<le> 0 then Some (-1, self)
     else if auth ! 0 \<noteq> HEV_SOCKS5_VERSION_5 then Some (-1, self)
     else Some (uint (auth ! 1), self) }"

definition hev_socks5_client_read_auth_creds ::
  "'a HevSocks5Client_scheme \<Rightarrow> (int \<times> 'a HevSocks5Client_scheme) option" where
  "hev_socks5_client_read_auth_creds self = do {
     (ret, res, self) \<leftarrow> recv_stack 2 self;
     if ret \<le> 0 then Some (-1, self)
     else if res ! 0 \<noteq> HEV_SOCKS5_AUTH_VERSION_1 then Some (-1, self)
     else if res ! 1 \<noteq> HEV_SOCKS5_RES_REP_SUCC then Some (-1, self)
     else Some (0, self) }"

definition hev_socks5_client_read_response ::
  "'a HevSocks5Client_scheme ClientClass \<Rightarrow> 'a HevSocks5Client_scheme \<Rightarrow> (int \<times> 'a HevSocks5Client_scheme) option" where
  "hev_socks5_client_read_response klass self = do {
     (ret, res, self) \<leftarrow> recv_stack 4 self;
     if ret \<le> 0 then Some (-1, self)
     else if res ! 0 \<noteq> HEV_SOCKS5_VERSION_5 then Some (-1, self)
     else if res ! 1 \<noteq> HEV_SOCKS5_RES_REP_SUCC then Some (-1, self)
     else if res ! 3 \<noteq> HEV_SOCKS5_ADDR_TYPE_IPV4 \<and> res ! 3 \<noteq> HEV_SOCKS5_ADDR_TYPE_IPV6 then Some (-1, self)
     else do {
       let addrlen = (if res ! 3 = HEV_SOCKS5_ADDR_TYPE_IPV4 then 6 else 18);
       (ret, addr, self) \<leftarrow> recv_stack addrlen self;
       if ret \<le> 0 then Some (-1, self)
       else do {
         (ret, self) \<leftarrow> cc_set_upstream_addr klass (res ! 3 # addr) self;
         Some (if ret < 0 then -1 else 0, self) } } }"

definition hev_socks5_client_connect ::
  "resolver \<Rightarrow> 'a HevSocks5Client_scheme ClientClass \<Rightarrow> byte list \<Rightarrow> u16 \<Rightarrow>
   'a HevSocks5Client_scheme \<Rightarrow> (int \<times> 'a HevSocks5Client_scheme) option" where
  "hev_socks5_client_connect R klass addr port self = do {
     (res, self) \<leftarrow> hev_socks5_client_connect_server R klass addr port self;
     Some (if res < 0 then -1 else 0, self) }"

text \<open>A step that fails ends the handshake with -1.\<close>

definition check_res :: "(int \<times> 'o) option \<Rightarrow> (int \<Rightarrow> 'o \<Rightarrow> (int \<times> 'o) option) \<Rightarrow> (int \<times> 'o) option" where
  "check_res m k = Option.bind m (\<lambda>(res, self). if res < 0 then Some (-1, self) else k res self)"

definition hev_socks5_client_handshake_standard ::
  "'a HevSocks5Client_scheme ClientClass \<Rightarrow> 'a HevSocks5Client_scheme \<Rightarrow> (int \<times> 'a HevSocks5Client_scheme) option" where
  "hev_socks5_client_handshake_standard klass self =
     check_res (hev_socks5_client_write_auth_methods self) (\<lambda>_ self.
     check_res (hev_socks5_client_read_auth_method self) (\<lambda>res self.
     check_res
       (if res = uint HEV_SOCKS5_AUTH_METHOD_USER then
          check_res (hev_socks5_client_write_auth_creds self) (\<lambda>_ self.
          hev_socks5_client_read_auth_creds self)
        else if res \<noteq> uint HEV_SOCKS5_AUTH_METHOD_NONE then Some (-1, self)
        else Some (0, self)) (\<lambda>_ self.
     check_res (hev_socks5_client_write_request klass self) (\<lambda>_ self.
     check_res (hev_socks5_client_read_response klass self) (\<lambda>_ self.
     Some (0, self))))))"

definition hev_socks5_client_handshake_pipeline ::
  "'a HevSocks5Client_scheme ClientClass \<Rightarrow> 'a HevSocks5Client_scheme \<Rightarrow> (int \<times> 'a HevSocks5Client_scheme) option" where
  "hev_socks5_client_handshake_pipeline klass self =
     check_res (hev_socks5_client_write_auth_methods self) (\<lambda>_ self.
     check_res (hev_socks5_client_write_auth_creds self) (\<lambda>_ self.
     check_res (hev_socks5_client_write_request klass self) (\<lambda>_ self.
     check_res (hev_socks5_client_read_auth_method self) (\<lambda>res self.
     check_res
       (if res = uint HEV_SOCKS5_AUTH_METHOD_USER then hev_socks5_client_read_auth_creds self
        else if res \<noteq> uint HEV_SOCKS5_AUTH_METHOD_NONE then Some (-1, self)
        else Some (0, self)) (\<lambda>_ self.
     check_res (hev_socks5_client_read_response klass self) (\<lambda>_ self.
     Some (0, self)))))))"

definition hev_socks5_client_handshake ::
  "bool \<Rightarrow> 'a HevSocks5Client_scheme ClientClass \<Rightarrow> 'a HevSocks5Client_scheme \<Rightarrow> (int \<times> 'a HevSocks5Client_scheme) option" where
  "hev_socks5_client_handshake pipeline klass self =
     (if pipeline then hev_socks5_client_handshake_pipeline klass self
      else hev_socks5_client_handshake_standard klass self)"

definition hev_socks5_client_set_auth ::
  "byte list option \<Rightarrow> byte list option \<Rightarrow> 'a HevSocks5Client_scheme \<Rightarrow> 'a HevSocks5Client_scheme" where
  "hev_socks5_client_set_auth user pass self = self\<lparr>cl_user := user, cl_pass := pass\<rparr>"

definition hev_socks5_client_construct ::
  "HevSocks5Type \<Rightarrow> 'a HevSocks5Client_scheme \<Rightarrow> int \<times> 'a HevSocks5Client_scheme" where
  "hev_socks5_client_construct type self = hev_socks5_construct type self"

section \<open>hev-socks5-client-tcp.c\<close>

record HevSocks5ClientTCP = HevSocks5Client +
  ct_addr :: "HevSocks5Addr option"

text \<open>
  The address is handed over: the object forgets it.  The default binding hook of the class does nothing.
\<close>

definition hev_socks5_client_tcp_get_upstream_addr ::
  "'a HevSocks5ClientTCP_scheme \<Rightarrow> HevSocks5Addr option \<times> 'a HevSocks5ClientTCP_scheme" where
  "hev_socks5_client_tcp_get_upstream_addr self = (ct_addr self, self\<lparr>ct_addr := None\<rparr>)"

definition hev_socks5_client_tcp_set_upstream_addr ::
  "HevSocks5Addr \<Rightarrow> 'a HevSocks5ClientTCP_scheme \<Rightarrow> (int \<times> 'a HevSocks5ClientTCP_scheme) option" where
  "hev_socks5_client_tcp_set_upstream_addr addr self = Some (0, self)"

definition hev_socks5_bind :: "int \<Rightarrow> sockaddr_in6 \<Rightarrow> 'o \<Rightarrow> (int \<times> 'o) option" where
  "hev_socks5_bind sock dest self = Some (0, self)"

definition hev_socks5_client_tcp_class ::
  "(int \<Rightarrow> sockaddr_in6 \<Rightarrow> 'a HevSocks5ClientTCP_scheme \<Rightarrow> (int \<times> 'a HevSocks5ClientTCP_scheme) option) \<Rightarrow>
   'a HevSocks5ClientTCP_scheme ClientClass" where
  "hev_socks5_client_tcp_class bnd =
     \<lparr>cc_binder = bnd,
      cc_get_upstream_addr = hev_socks5_client_tcp_get_upstream_addr,
      cc_set_upstream_addr = hev_socks5_client_tcp_set_upstream_addr\<rparr>"

text \<open>
  The length of the address becomes the argument of \<open>hev_malloc\<close>: the -1 of an address of unknown
  type is the largest \<open>size_t\<close>, more than the C library ever allocates.  Other allocations succeed.
\<close>

definition hev_malloc_len :: "int \<Rightarrow> nat option" where
  "hev_malloc_len len = (let n = unat (word_of_int len :: u64) in if n \<le> ssize_max then Some n else None)"

definition hev_socks5_client_tcp_construct ::
  "HevSocks5Addr \<Rightarrow> 'a HevSocks5ClientTCP_scheme \<Rightarrow> int \<times> 'a HevSocks5ClientTCP_scheme" where
  "hev_socks5_client_tcp_construct addr self =
     (case hev_socks5_client_construct HEV_SOCKS5_TYPE_TCP self of (res, self) \<Rightarrow>
        if res < 0 then (res, self)
        else (case hev_malloc_len (hev_socks5_addr_len addr) of
                None \<Rightarrow> (-1, self\<lparr>ct_addr := None\<rparr>)
              | Some n \<Rightarrow> (0, self\<lparr>ct_addr := Some (take n addr)\<rparr>)))"

section \<open>hev-socks5-client-udp.c\<close>

text \<open>
  The UDP client has a second socket for the datagrams.  Its system calls are scripted and recorded
  here: what \<open>recvfrom\<close> finds (one datagram at a time), what \<open>sendmsg\<close> answers, the datagrams sent.
\<close>

datatype dg_ev = DgData "byte list" | DgAgain | DgErr

record HevSocks5ClientUDP = HevSocks5Client +
  cu_fd :: int
  cu_rx :: "dg_ev list"
  cu_tx :: "tx_ev list"
  cu_out :: "byte list list"

definition hev_socks5_client_udp_get_upstream_addr ::
  "'a HevSocks5ClientUDP_scheme \<Rightarrow> HevSocks5Addr option \<times> 'a HevSocks5ClientUDP_scheme" where
  "hev_socks5_client_udp_get_upstream_addr self =
     (case hev_socks5_get_addr_family self of
        HEV_SOCKS5_ADDR_FAMILY_IPV4 \<Rightarrow> (Some (HEV_SOCKS5_ADDR_TYPE_IPV4 # replicate 6 0), self)
      | HEV_SOCKS5_ADDR_FAMILY_IPV6 \<Rightarrow> (Some (HEV_SOCKS5_ADDR_TYPE_IPV6 # replicate 18 0), self)
      | HEV_SOCKS5_ADDR_FAMILY_UNSPEC \<Rightarrow> (None, self))"

definition hev_socks5_client_udp_set_upstream_addr ::
  "resolver \<Rightarrow> (int \<Rightarrow> sockaddr_in6 \<Rightarrow> 'a HevSocks5ClientUDP_scheme \<Rightarrow> (int \<times> 'a HevSocks5ClientUDP_scheme) option) \<Rightarrow>
   HevSocks5Addr \<Rightarrow> 'a HevSocks5ClientUDP_scheme \<Rightarrow> (int \<times> 'a HevSocks5ClientUDP_scheme) option" where
  "hev_socks5_client_udp_set_upstream_addr R bnd addr self =
     (if s5_type self \<noteq> HEV_SOCKS5_TYPE_UDP_IN_UDP then Some (0, self)
      else case hev_socks5_addr_into_sockaddr6 R addr (stack_sockaddr self) (hev_socks5_get_addr_family self) of
        (res, saddr, addr_family) \<Rightarrow>
          if res < 0 then Some (-1, self)
          else do {
            (fd, self) \<leftarrow> hev_socks5_socket self;
            if fd < 0 then Some (-1, self)
            else do {
              (res, self) \<leftarrow> bnd fd saddr self;
              if res < 0 then Some (-1, sys_close fd self)
              else do {
                (res, self) \<leftarrow> hev_task_io_socket_connect hev_socks5_task_io_yielder self;
                if res < 0 then Some (-1, sys_close fd self)
                else Some (0, self\<lparr>s5_udp_associated := 1, cu_fd := fd\<rparr>) } } })"

definition hev_socks5_client_udp_get_fd :: "'a HevSocks5ClientUDP_scheme \<Rightarrow> int" where
  "hev_socks5_client_udp_get_fd self =
     (case s5_type self of
        HEV_SOCKS5_TYPE_UDP_IN_TCP \<Rightarrow> s5_fd self
      | HEV_SOCKS5_TYPE_UDP_IN_UDP \<Rightarrow> cu_fd self
      | _ \<Rightarrow> -1)"

definition hev_socks5_client_udp_class ::
  "resolver \<Rightarrow> (int \<Rightarrow> sockaddr_in6 \<Rightarrow> 'a HevSocks5ClientUDP_scheme \<Rightarrow> (int \<times> 'a HevSocks5ClientUDP_scheme) option) \<Rightarrow>
   'a HevSocks5ClientUDP_scheme ClientClass" where
  "hev_socks5_client_udp_class R bnd =
     \<lparr>cc_binder = bnd,
      cc_get_upstream_addr = hev_socks5_client_udp_get_upstream_addr,
      cc_set_upstream_addr = hev_socks5_client_udp_set_upstream_addr R bnd\<rparr>"

definition hev_socks5_client_udp_construct ::
  "HevSocks5Type \<Rightarrow> 'a HevSocks5ClientUDP_scheme \<Rightarrow> int \<times> 'a HevSocks5ClientUDP_scheme" where
  "hev_socks5_client_udp_construct type self =
     (case hev_socks5_client_construct type self of (res, self) \<Rightarrow>
        if res < 0 then (res, self) else (0, self\<lparr>cu_fd := -1\<rparr>))"

definition hev_socks5_client_udp_destruct :: "'a HevSocks5ClientUDP_scheme \<Rightarrow> 'a HevSocks5ClientUDP_scheme" where
  "hev_socks5_client_udp_destruct self =
     hev_socks5_destruct (if 0 \<le> cu_fd self then sys_close (cu_fd self) self else self)"

end
