(* ===== verification/Socks5_Handshake.thy ===== *)
theory Socks5_Handshake
  imports Socks5_Client
begin

text \<open>
  What the SOCKS5 client puts on the wire and when it reports success.  The lemmas of each
  operation come in two directions: from a returned result to the bytes that were moved
  (\<open>moved\<close>), and from what the peer sends to the result (\<open>goes\<close>).  The handshakes are proved once
  for every class of clients, in the locale \<open>client_class\<close>, which is then interpreted on the TCP
  and the UDP client.
\<close>

section \<open>What the operations put on the wire\<close>

text \<open>
  \<open>moved w i out w'\<close>: between \<open>w\<close> and \<open>w'\<close> exactly the bytes \<open>i\<close> were taken from the stream and
  exactly \<open>out\<close> was sent, and the connection is still in order.
\<close>

definition clean :: "'a net_scheme \<Rightarrow> bool" where
  "clean w \<longleftrightarrow> rx_ready (net_rx w) \<and> tx_ready (net_tx w)"

definition moved :: "'a net_scheme \<Rightarrow> byte list \<Rightarrow> byte list \<Rightarrow> 'a net_scheme \<Rightarrow> bool" where
  "moved w i out w' \<longleftrightarrow>
     rx_bytes (net_rx w) = i @ rx_bytes (net_rx w') \<and> net_out w' = net_out w @ out \<and> clean w'"

lemma moved_trans: "moved w i out w' \<Longrightarrow> moved w' j out' w'' \<Longrightarrow> moved w (i @ j) (out @ out') w''"
  by (simp add: moved_def)

lemma moved_clean: "moved w i out w' \<Longrightarrow> clean w'"
  by (simp add: moved_def)

lemma moved_same: "clean w \<Longrightarrow> net_rx w' = net_rx w \<Longrightarrow> net_tx w' = net_tx w \<Longrightarrow> net_out w' = net_out w \<Longrightarrow>
   moved w [] [] w'"
  by (simp add: moved_def clean_def)

lemma moved_refl: "clean w \<Longrightarrow> moved w [] [] w"
  by (rule moved_same) auto

lemma send_moved:
  assumes "hev_task_io_socket_send hev_socks5_task_io_yielder True buf 0 w = Some (res, w')"
    and "buf \<noteq> []" and "clean w"
  shows "s5_frame w' = s5_frame w" and "0 < res \<Longrightarrow> moved w [] buf w'"
  using s5f.send_view[OF assms(1) refl] s5y.send_exact[OF assms(1,2)] assms(3)
  by (auto simp: clean_def moved_def tx_step_def)

lemma recv_stack_moved:
  assumes "recv_stack len w = Some (res, buf, w')" and "0 < len" and "clean w"
  shows "s5_frame w' = s5_frame w" and "0 < res \<Longrightarrow> moved w buf [] w'" and "0 < res \<Longrightarrow> length buf = len"
proof -
  obtain b where r: "hev_task_io_socket_recv hev_socks5_task_io_yielder True len [] w = Some (res, b, w')"
    and buf: "buf = fill (net_junk w') len b"
    using assms(1) by (auto simp: recv_stack_def split: bind_splits)
  show "s5_frame w' = s5_frame w" using s5f.recv_view[OF r refl] .
  have ex: "rx_ready (net_rx w')" "0 < res \<Longrightarrow> length b = len"
    using s5y.recv_exact[OF r assms(2)] assms(3) by (auto simp: clean_def)
  have "rx_step w b w'" using s5y.recv_prefix(1)[OF r assms(2)] .
  with ex assms(3) buf show "0 < res \<Longrightarrow> moved w buf [] w'" and "0 < res \<Longrightarrow> length buf = len"
    by (auto simp: moved_def clean_def rx_step_def)
qed

definition auth_creds_bytes :: "'a HevSocks5Client_scheme \<Rightarrow> byte list" where
  "auth_creds_bytes self =
     (case (cl_user self, cl_pass self) of
        (Some user, Some pass) \<Rightarrow> concat (auth_creds_iov user pass)
      | _ \<Rightarrow> [])"

lemma client_frame:
  assumes "s5_frame w' = s5_frame w"
  shows "cl_user w' = cl_user w" and "cl_pass w' = cl_pass w" and "has_creds w' = has_creds w"
    and "auth_creds_bytes w' = auth_creds_bytes w" and "auth_methods_bytes w' = auth_methods_bytes w"
proof -
  have "HevSocks5.more w' = HevSocks5.more w" using assms by (simp add: s5_frame_def)
  then show "cl_user w' = cl_user w" "cl_pass w' = cl_pass w" by (cases w; cases w'; simp)+
  then show "has_creds w' = has_creds w" "auth_creds_bytes w' = auth_creds_bytes w"
    "auth_methods_bytes w' = auth_methods_bytes w"
    by (simp_all add: has_creds_def auth_creds_bytes_def auth_methods_bytes_def)
qed

lemma write_auth_methods_moved:
  assumes "hev_socks5_client_write_auth_methods w = Some (res, w')" and "clean w"
  shows "s5_frame w' = s5_frame w" and "0 \<le> res \<Longrightarrow> moved w [] (auth_methods_bytes w) w'"
  using assms send_moved[of "auth_methods_bytes w" w]
  by (auto simp: hev_socks5_client_write_auth_methods_def auth_methods_bytes_def split: bind_splits if_splits)

lemma write_auth_creds_moved:
  assumes "hev_socks5_client_write_auth_creds w = Some (res, w')" and "clean w"
  shows "s5_frame w' = s5_frame w" and "0 \<le> res \<Longrightarrow> moved w [] (auth_creds_bytes w) w'"
proof -
  have ne: "concat (auth_creds_iov u p) \<noteq> []" for u p by (simp add: auth_creds_iov_def Let_def)
  have "s5_frame w' = s5_frame w \<and> (0 \<le> res \<longrightarrow> moved w [] (auth_creds_bytes w) w')"
    using assms send_moved[OF _ ne] moved_refl
    by (auto simp: hev_socks5_client_write_auth_creds_def auth_creds_bytes_def sendmsg_eq_send Let_def not_le
        simp del: length_concat split: option.splits bind_splits if_splits)
  then show "s5_frame w' = s5_frame w" "0 \<le> res \<Longrightarrow> moved w [] (auth_creds_bytes w) w'" by auto
qed

lemma length2: "length xs = 2 \<Longrightarrow> xs = [xs ! 0, xs ! 1]"
  by (auto simp: numeral_2_eq_2 length_Suc_conv)

lemma length4: "length xs = 4 \<Longrightarrow> xs = [xs ! 0, xs ! 1, xs ! 2, xs ! 3]"
  by (auto simp: numeral_eq_Suc length_Suc_conv)

lemma read_auth_method_moved:
  assumes "hev_socks5_client_read_auth_method w = Some (res, w')" and "clean w" and "0 \<le> res"
  shows "s5_frame w' = s5_frame w" and "\<exists>m. res = uint m \<and> moved w [HEV_SOCKS5_VERSION_5, m] [] w'"
proof -
  obtain n buf where r: "recv_stack 2 w = Some (n, buf, w')" "0 < n" "buf ! 0 = HEV_SOCKS5_VERSION_5" "res = uint (buf ! 1)"
    using assms(1,3) by (auto simp: hev_socks5_client_read_auth_method_def split: bind_splits if_splits)
  show "s5_frame w' = s5_frame w" using recv_stack_moved(1)[OF r(1)] assms(2) by simp
  show "\<exists>m. res = uint m \<and> moved w [HEV_SOCKS5_VERSION_5, m] [] w'"
  proof -
    have "moved w buf [] w'" "length buf = 2" using recv_stack_moved(2,3)[OF r(1)] r(2) assms(2) by auto
    then show ?thesis using r(3,4) length2[of buf] by metis
  qed
qed

lemma read_auth_creds_moved:
  assumes "hev_socks5_client_read_auth_creds w = Some (res, w')" and "clean w" and "0 \<le> res"
  shows "s5_frame w' = s5_frame w"
    and "moved w [HEV_SOCKS5_AUTH_VERSION_1, HEV_SOCKS5_RES_REP_SUCC] [] w'"
proof -
  obtain n buf where r: "recv_stack 2 w = Some (n, buf, w')" "0 < n" "buf ! 0 = HEV_SOCKS5_AUTH_VERSION_1"
    "buf ! 1 = HEV_SOCKS5_RES_REP_SUCC"
    using assms(1,3) by (auto simp: hev_socks5_client_read_auth_creds_def split: bind_splits if_splits)
  show "s5_frame w' = s5_frame w" using recv_stack_moved(1)[OF r(1)] assms(2) by simp
  show "moved w [HEV_SOCKS5_AUTH_VERSION_1, HEV_SOCKS5_RES_REP_SUCC] [] w'"
  proof -
    have "moved w buf [] w'" "length buf = 2" using recv_stack_moved(2,3)[OF r(1)] r(2) assms(2) by auto
    then show ?thesis using r(3,4) length2[of buf] by metis
  qed
qed

lemma check_res_Some:
  assumes "check_res m k = Some (r, w')" and "0 \<le> r"
  obtains res w1 where "m = Some (res, w1)" and "0 \<le> res" and "k res w1 = Some (r, w')"
  using assms by (auto simp: check_res_def split: bind_splits if_splits)

lemma check_res_step: "m = Some (res, w1) \<Longrightarrow> 0 \<le> res \<Longrightarrow> check_res m k = k res w1"
  by (simp add: check_res_def)

text \<open>
  The converse direction, from what the peer does to what the client does: \<open>goes w i out w'\<close> adds
  that the peer stays patient and how much room for sending is used up at most.
\<close>

definition goes :: "'a HevSocks5_scheme \<Rightarrow> byte list \<Rightarrow> byte list \<Rightarrow> 'a HevSocks5_scheme \<Rightarrow> bool" where
  "goes w i out w' \<longleftrightarrow>
     moved w i out w' \<and> s5_calm w' \<and> tx_room (net_tx w) \<le> tx_room (net_tx w') + length out"

lemma goes_trans: "goes w i out w' \<Longrightarrow> goes w' j out' w'' \<Longrightarrow> goes w (i @ j) (out @ out') w''"
  by (auto simp: goes_def intro: moved_trans)

lemma goes_moved: "goes w i out w' \<Longrightarrow> moved w i out w'"
  by (simp add: goes_def)

lemma goesD:
  assumes "goes w i out w'"
  shows "clean w'" "s5_calm w'" "tx_room (net_tx w) \<le> tx_room (net_tx w') + length out"
    "rx_bytes (net_rx w) = i @ rx_bytes (net_rx w')"
  using assms by (simp_all add: goes_def moved_def)

lemma send_goes:
  assumes "clean w" and "s5_calm w" and "length buf \<le> tx_room (net_tx w)" and "buf \<noteq> []"
  obtains w' where "hev_task_io_socket_send hev_socks5_task_io_yielder True buf 0 w = Some (int (length buf), w')"
    and "goes w [] buf w'" and "s5_frame w' = s5_frame w"
proof -
  obtain w' where w': "hev_task_io_socket_send hev_socks5_task_io_yielder True buf 0 w = Some (int (length buf), w')"
    "tx_room (net_tx w) \<le> tx_room (net_tx w') + length buf" "s5_calm w'"
    by (rule s5p.send_complete[OF assms(3,4,2)])
  with send_moved[OF w'(1) assms(4,1)] assms(4) that show thesis by (simp add: goes_def)
qed

lemma recv_all_goes:
  assumes "clean w" and "s5_calm w" and "rx_bytes (net_rx w) = bs @ rest" and "bs \<noteq> []"
  obtains w' where "hev_task_io_socket_recv hev_socks5_task_io_yielder True (length bs) [] w =
      Some (int (length bs), bs, w')"
    and "goes w bs [] w'" and "s5_frame w' = s5_frame w"
proof -
  obtain w' where r: "hev_task_io_socket_recv hev_socks5_task_io_yielder True (length bs) [] w =
      Some (int (length bs), bs, w')" and w': "rx_ready (net_rx w')" "s5_calm w'" "rx_step w bs w'"
    using assms by (auto simp: clean_def intro: s5p.recv_complete[of w "length bs"])
  show thesis
    using that[OF r] w' assms(1) s5f.recv_view[OF r refl]
    by (auto simp: goes_def moved_def clean_def rx_step_def)
qed

lemma recv_goes:
  assumes "clean w" and "s5_calm w" and "rx_bytes (net_rx w) = bs @ rest" and "bs \<noteq> []"
  obtains w' where "recv_stack (length bs) w = Some (int (length bs), bs, w')"
    and "goes w bs [] w'" and "s5_frame w' = s5_frame w"
  by (rule recv_all_goes[OF assms]) (use that in \<open>simp add: recv_stack_def\<close>)

lemma write_auth_methods_goes:
  assumes "clean w" and "s5_calm w" and "3 \<le> tx_room (net_tx w)"
  obtains w' where "hev_socks5_client_write_auth_methods w = Some (0, w')"
    and "goes w [] (auth_methods_bytes w) w'" and "s5_frame w' = s5_frame w"
  by (rule send_goes[OF assms(1,2), of "auth_methods_bytes w"])
    (use assms(3) that in \<open>auto simp: hev_socks5_client_write_auth_methods_def auth_methods_bytes_def\<close>)

lemma write_auth_creds_goes:
  assumes "clean w" and "s5_calm w" and "length (auth_creds_bytes w) \<le> tx_room (net_tx w)"
  obtains w' where "hev_socks5_client_write_auth_creds w = Some (0, w')"
    and "goes w [] (auth_creds_bytes w) w'" and "s5_frame w' = s5_frame w"
proof (cases "has_creds w")
  case True
  then obtain u p where up: "cl_user w = Some u" "cl_pass w = Some p" by (auto simp: has_creds_def)
  then have bytes: "auth_creds_bytes w = concat (auth_creds_iov u p)" by (simp add: auth_creds_bytes_def)
  have ne: "concat (auth_creds_iov u p) \<noteq> []" by (simp add: auth_creds_iov_def Let_def)
  show thesis
    by (rule send_goes[OF assms(1,2), of "auth_creds_bytes w"])
      (use assms(3) that up bytes ne sendmsg_eq_send[of hev_socks5_task_io_yielder True "auth_creds_iov u p" w] in
        \<open>auto simp: hev_socks5_client_write_auth_creds_def Let_def simp del: length_concat\<close>)
next
  case False
  then have "auth_creds_bytes w = []" "hev_socks5_client_write_auth_creds w = Some (0, w)"
    by (auto simp: has_creds_def auth_creds_bytes_def hev_socks5_client_write_auth_creds_def split: option.splits)
  with that[of w] assms(1,2) show thesis by (simp add: goes_def moved_refl)
qed

lemma read_auth_method_goes:
  assumes "clean w" and "s5_calm w" and "rx_bytes (net_rx w) = [HEV_SOCKS5_VERSION_5, m] @ rest"
  obtains w' where "hev_socks5_client_read_auth_method w = Some (uint m, w')"
    and "goes w [HEV_SOCKS5_VERSION_5, m] [] w'" and "s5_frame w' = s5_frame w"
  by (rule recv_goes[OF assms]) (use that in \<open>auto simp: hev_socks5_client_read_auth_method_def numeral_2_eq_2\<close>)

lemma read_auth_creds_goes:
  assumes "clean w" and "s5_calm w"
    and "rx_bytes (net_rx w) = [HEV_SOCKS5_AUTH_VERSION_1, HEV_SOCKS5_RES_REP_SUCC] @ rest"
  obtains w' where "hev_socks5_client_read_auth_creds w = Some (0, w')"
    and "goes w [HEV_SOCKS5_AUTH_VERSION_1, HEV_SOCKS5_RES_REP_SUCC] [] w'" and "s5_frame w' = s5_frame w"
  by (rule recv_goes[OF assms]) (use that in \<open>auto simp: hev_socks5_client_read_auth_creds_def numeral_2_eq_2\<close>)

text \<open>The two halves of the standard handshake: agreeing on the method, and the request.\<close>

lemma check_res_assoc: "check_res (check_res m f) g = check_res m (\<lambda>r w. check_res (f r w) g)"
  by (cases m) (auto simp: check_res_def)

definition auth_phase :: "'a HevSocks5Client_scheme \<Rightarrow> (int \<times> 'a HevSocks5Client_scheme) option" where
  "auth_phase self =
     check_res (hev_socks5_client_write_auth_methods self) (\<lambda>_ self.
     check_res (hev_socks5_client_read_auth_method self) (\<lambda>res self.
       if res = uint HEV_SOCKS5_AUTH_METHOD_USER then
         check_res (hev_socks5_client_write_auth_creds self) (\<lambda>_ self. hev_socks5_client_read_auth_creds self)
       else if res \<noteq> uint HEV_SOCKS5_AUTH_METHOD_NONE then Some (-1, self)
       else Some (0, self)))"

definition request_phase ::
  "'a HevSocks5Client_scheme ClientClass \<Rightarrow> 'a HevSocks5Client_scheme \<Rightarrow> (int \<times> 'a HevSocks5Client_scheme) option" where
  "request_phase klass self =
     check_res (hev_socks5_client_write_request klass self) (\<lambda>_ self.
     check_res (hev_socks5_client_read_response klass self) (\<lambda>_ self. Some (0, self)))"

lemma handshake_standard_phases:
  "hev_socks5_client_handshake_standard klass self = check_res (auth_phase self) (\<lambda>_ self. request_phase klass self)"
  by (simp add: hev_socks5_client_handshake_standard_def auth_phase_def request_phase_def check_res_assoc)

definition auth_replies :: "byte \<Rightarrow> byte list" where
  "auth_replies m = [HEV_SOCKS5_VERSION_5, m] @
     (if m = HEV_SOCKS5_AUTH_METHOD_USER then [HEV_SOCKS5_AUTH_VERSION_1, HEV_SOCKS5_RES_REP_SUCC] else [])"

definition response_bytes :: "byte \<Rightarrow> endpoint \<Rightarrow> byte list" where
  "response_bytes rsv e = [HEV_SOCKS5_VERSION_5, HEV_SOCKS5_RES_REP_SUCC, rsv] @ addr_encode e"

definition known_method :: "byte \<Rightarrow> bool" where
  "known_method m \<longleftrightarrow> m = HEV_SOCKS5_AUTH_METHOD_NONE \<or> m = HEV_SOCKS5_AUTH_METHOD_USER"

definition bound_endpoint :: "endpoint \<Rightarrow> bool" where
  "bound_endpoint e \<longleftrightarrow> endpoint_ok e \<and> (\<forall>n p. e \<noteq> Name n p)"

lemma none_neq_user [simp]: "HEV_SOCKS5_AUTH_METHOD_NONE \<noteq> HEV_SOCKS5_AUTH_METHOD_USER"
  by (simp add: proto_defs)

lemma auth_phase_moved:
  assumes "auth_phase w = Some (r, w')" and "0 \<le> r" and "clean w"
  shows "s5_frame w' = s5_frame w \<and> (\<exists>m. known_method m \<and>
    moved w (auth_replies m)
      (auth_methods_bytes w @ (if m = HEV_SOCKS5_AUTH_METHOD_USER then auth_creds_bytes w else [])) w')"
proof -
  obtain r1 w1 where 1: "hev_socks5_client_write_auth_methods w = Some (r1, w1)" "0 \<le> r1" and
    k1: "check_res (hev_socks5_client_read_auth_method w1) (\<lambda>res self.
       if res = uint HEV_SOCKS5_AUTH_METHOD_USER then
         check_res (hev_socks5_client_write_auth_creds self) (\<lambda>_ self. hev_socks5_client_read_auth_creds self)
       else if res \<noteq> uint HEV_SOCKS5_AUTH_METHOD_NONE then Some (-1, self)
       else Some (0, self)) = Some (r, w')"
    using assms(1) unfolding auth_phase_def by (rule check_res_Some[OF _ assms(2)])
  note m1 = write_auth_methods_moved[OF 1(1) assms(3)]
  have c1: "moved w [] (auth_methods_bytes w) w1" using m1(2) 1(2) by simp
  obtain r2 w2 where 2: "hev_socks5_client_read_auth_method w1 = Some (r2, w2)" "0 \<le> r2" and
    k2: "(if r2 = uint HEV_SOCKS5_AUTH_METHOD_USER then
         check_res (hev_socks5_client_write_auth_creds w2) (\<lambda>_ self. hev_socks5_client_read_auth_creds self)
       else if r2 \<noteq> uint HEV_SOCKS5_AUTH_METHOD_NONE then Some (-1, w2)
       else Some (0, w2)) = Some (r, w')"
    using k1 by (rule check_res_Some[OF _ assms(2)])
  note m2 = read_auth_method_moved[OF 2(1) moved_clean[OF c1] 2(2)]
  then obtain m where m: "r2 = uint m" "moved w1 [HEV_SOCKS5_VERSION_5, m] [] w2" by blast
  note c2 = moved_trans[OF c1 m(2)]
  show ?thesis
  proof (cases "m = HEV_SOCKS5_AUTH_METHOD_USER")
    case True
    obtain r3 w3 where 3: "hev_socks5_client_write_auth_creds w2 = Some (r3, w3)" "0 \<le> r3" and
      k3: "hev_socks5_client_read_auth_creds w3 = Some (r, w')"
      using k2 True m(1) by (auto elim: check_res_Some[OF _ assms(2)])
    note m3 = write_auth_creds_moved[OF 3(1) moved_clean[OF m(2)]]
    have c3: "moved w2 [] (auth_creds_bytes w2) w3" using m3(2) 3(2) by simp
    note m4 = read_auth_creds_moved[OF k3 moved_clean[OF c3] assms(2)]
    have "auth_creds_bytes w2 = auth_creds_bytes w" using m1(1) m2(1) client_frame(4) by metis
    then show ?thesis
      using True moved_trans[OF c2 moved_trans[OF c3 m4(2)]] m1(1) m2(1) m3(1) m4(1)
      by (intro conjI exI[of _ m]) (auto simp: auth_replies_def known_method_def)
  next
    case False
    with k2 m(1) assms(2) have "m = HEV_SOCKS5_AUTH_METHOD_NONE" "w' = w2"
      by (auto simp: word_uint_eq_iff split: if_splits)
    with c2 m1(1) m2(1) show ?thesis
      by (intro conjI exI[of _ m]) (auto simp: auth_replies_def known_method_def)
  qed
qed

lemma auth_phase_goes:
  assumes "clean w" and "s5_calm w" and "known_method m" and "rx_bytes (net_rx w) = auth_replies m @ rest"
    and "3 + length (auth_creds_bytes w) \<le> tx_room (net_tx w)"
  obtains w' where "auth_phase w = Some (0, w')" and "s5_frame w' = s5_frame w"
    and "goes w (auth_replies m)
      (auth_methods_bytes w @ (if m = HEV_SOCKS5_AUTH_METHOD_USER then auth_creds_bytes w else [])) w'"
proof -
  have "3 \<le> tx_room (net_tx w)" using assms(5) by simp
  from write_auth_methods_goes[OF assms(1,2) this] obtain w1 where
    1: "hev_socks5_client_write_auth_methods w = Some (0, w1)"
    and g1: "goes w [] (auth_methods_bytes w) w1" and f1: "s5_frame w1 = s5_frame w" .
  have rx1: "rx_bytes (net_rx w1) = [HEV_SOCKS5_VERSION_5, m] @ drop 2 (auth_replies m) @ rest"
    using goesD(4)[OF g1] assms(4) by (simp add: auth_replies_def)
  from read_auth_method_goes[OF goesD(1,2)[OF g1] rx1] obtain w2 where
    2: "hev_socks5_client_read_auth_method w1 = Some (uint m, w2)"
    and g2: "goes w1 [HEV_SOCKS5_VERSION_5, m] [] w2" and f2: "s5_frame w2 = s5_frame w1" .
  note g12 = goes_trans[OF g1 g2]
  have head: "auth_phase w = (if m = HEV_SOCKS5_AUTH_METHOD_USER then
         check_res (hev_socks5_client_write_auth_creds w2) (\<lambda>_ self. hev_socks5_client_read_auth_creds self)
       else Some (0, w2))"
    using assms(3) by (auto simp: auth_phase_def check_res_step[OF 1] check_res_step[OF 2] known_method_def word_uint_eq_iff)
  show thesis
  proof (cases "m = HEV_SOCKS5_AUTH_METHOD_USER")
    case True
    have cb: "auth_creds_bytes w2 = auth_creds_bytes w" using f1 f2 client_frame(4) by metis
    have "length (auth_creds_bytes w2) \<le> tx_room (net_tx w2)"
      using goesD(3)[OF g12] assms(5) cb by (simp add: auth_methods_bytes_def)
    from write_auth_creds_goes[OF goesD(1,2)[OF g12] this] obtain w3 where
      3: "hev_socks5_client_write_auth_creds w2 = Some (0, w3)"
      and g3: "goes w2 [] (auth_creds_bytes w2) w3" and f3: "s5_frame w3 = s5_frame w2" .
    have rx3: "rx_bytes (net_rx w3) = [HEV_SOCKS5_AUTH_VERSION_1, HEV_SOCKS5_RES_REP_SUCC] @ rest"
      using goesD(4)[OF g2] goesD(4)[OF g3] rx1 True by (simp add: auth_replies_def)
    from read_auth_creds_goes[OF goesD(1,2)[OF g3] rx3] obtain w4 where
      4: "hev_socks5_client_read_auth_creds w3 = Some (0, w4)"
      and g4: "goes w3 [HEV_SOCKS5_AUTH_VERSION_1, HEV_SOCKS5_RES_REP_SUCC] [] w4" and f4: "s5_frame w4 = s5_frame w3" .
    show thesis
      using that[of w4] head True check_res_step[OF 3] 4 goes_trans[OF g12 goes_trans[OF g3 g4]] cb f1 f2 f3 f4
      by (simp add: auth_replies_def)
  next
    case False
    with that[of w2] head g12 f1 f2 show thesis by (simp add: auth_replies_def)
  qed
qed

text \<open>In the pipelined handshake everything is written first; this is the reading half up to the response.\<close>

definition reply_phase :: "'a HevSocks5Client_scheme \<Rightarrow> (int \<times> 'a HevSocks5Client_scheme) option" where
  "reply_phase self =
     check_res (hev_socks5_client_read_auth_method self) (\<lambda>res self.
       if res = uint HEV_SOCKS5_AUTH_METHOD_USER then hev_socks5_client_read_auth_creds self
       else if res \<noteq> uint HEV_SOCKS5_AUTH_METHOD_NONE then Some (-1, self)
       else Some (0, self))"

lemma handshake_pipeline_phases:
  "hev_socks5_client_handshake_pipeline klass self =
     check_res (hev_socks5_client_write_auth_methods self) (\<lambda>_ self.
     check_res (hev_socks5_client_write_auth_creds self) (\<lambda>_ self.
     check_res (hev_socks5_client_write_request klass self) (\<lambda>_ self.
     check_res (reply_phase self) (\<lambda>_ self.
     check_res (hev_socks5_client_read_response klass self) (\<lambda>_ self. Some (0, self))))))"
  by (simp add: hev_socks5_client_handshake_pipeline_def reply_phase_def check_res_assoc)

lemma reply_phase_moved:
  assumes "reply_phase w = Some (r, w')" and "0 \<le> r" and "clean w"
  shows "\<exists>m. known_method m \<and> moved w (auth_replies m) [] w'"
proof -
  obtain r1 w1 where 1: "hev_socks5_client_read_auth_method w = Some (r1, w1)" "0 \<le> r1" and
    k1: "(if r1 = uint HEV_SOCKS5_AUTH_METHOD_USER then hev_socks5_client_read_auth_creds w1
       else if r1 \<noteq> uint HEV_SOCKS5_AUTH_METHOD_NONE then Some (-1, w1)
       else Some (0, w1)) = Some (r, w')"
    using assms(1) unfolding reply_phase_def by (rule check_res_Some[OF _ assms(2)])
  obtain m where m: "r1 = uint m" "moved w [HEV_SOCKS5_VERSION_5, m] [] w1"
    using read_auth_method_moved[OF 1(1) assms(3) 1(2)] by blast
  show ?thesis
  proof (cases "m = HEV_SOCKS5_AUTH_METHOD_USER")
    case True
    with k1 m(1) have "hev_socks5_client_read_auth_creds w1 = Some (r, w')" by simp
    from moved_trans[OF m(2) read_auth_creds_moved(2)[OF this moved_clean[OF m(2)] assms(2)]] True
    show ?thesis by (intro exI[of _ m]) (simp add: known_method_def auth_replies_def)
  next
    case False
    with k1 m(1) assms(2) have "m = HEV_SOCKS5_AUTH_METHOD_NONE" "w' = w1"
      by (auto simp: word_uint_eq_iff split: if_splits)
    with m(2) show ?thesis by (intro exI[of _ m]) (simp add: known_method_def auth_replies_def)
  qed
qed

text \<open>
  What the client asks of the class it belongs to: handing out the target address touches neither
  the socket nor the patience of the peer, and gives the same address as long as the object was
  only used for transfers; taking the bound address leaves the control connection alone.
\<close>

locale client_class =
  fixes klass :: "'a HevSocks5Client_scheme ClientClass"
  assumes get_keeps: "cc_get_upstream_addr klass w = (a, w') \<Longrightarrow> same_net w w' \<and> (s5_calm w \<longrightarrow> s5_calm w')"
    and get_frame: "s5_frame w' = s5_frame w \<Longrightarrow>
      fst (cc_get_upstream_addr klass w') = fst (cc_get_upstream_addr klass w)"
    and set_keeps: "cc_set_upstream_addr klass addr w = Some (r, w') \<Longrightarrow>
      net_rx w' = net_rx w \<and> net_tx w' = net_tx w \<and> net_out w' = net_out w"
begin

definition request_bytes :: "'a HevSocks5Client_scheme \<Rightarrow> byte list" where
  "request_bytes w =
     [HEV_SOCKS5_VERSION_5, the (req_cmd (s5_type w)), 0] @
     (let addr = the (fst (cc_get_upstream_addr klass w)) in take (nat (hev_socks5_addr_len addr)) addr)"

lemma request_bytes_frame: "s5_frame w' = s5_frame w \<Longrightarrow> request_bytes w' = request_bytes w"
  using get_frame[of w' w] s5_frameD(3)[of w' w] by (simp add: request_bytes_def)

lemma write_request_moved:
  assumes "hev_socks5_client_write_request klass w = Some (res, w')" and "clean w" and "0 \<le> res"
  shows "moved w [] (request_bytes w) w'"
proof -
  obtain cmd where cmd: "req_cmd (s5_type w) = Some cmd"
    using assms(1,3) by (cases "req_cmd (s5_type w)") (auto simp: hev_socks5_client_write_request_def)
  obtain a w1 where get: "cc_get_upstream_addr klass w = (a, w1)" by fastforce
  with assms(1) cmd obtain addr where a: "a = Some addr"
    by (cases a) (auto simp: hev_socks5_client_write_request_def)
  have w1: "clean w1" "same_net w w1"
    using get_keeps[OF get] assms(2) by (auto simp: clean_def same_net_def)
  define bs where "bs = [HEV_SOCKS5_VERSION_5, cmd, 0] @ take (nat (hev_socks5_addr_len addr)) addr"
  have "\<not> hev_socks5_addr_len addr < 0"
    using assms(1,3) cmd get a by (auto simp: hev_socks5_client_write_request_def split: if_splits)
  then obtain n where "hev_task_io_socket_send hev_socks5_task_io_yielder True bs 0 w1 = Some (n, w')" "0 < n"
    using assms(1,3) cmd get a sendmsg_eq_send[of hev_socks5_task_io_yielder True
        "[[HEV_SOCKS5_VERSION_5, cmd, 0], take (nat (hev_socks5_addr_len addr)) addr]" w1]
    by (auto simp: hev_socks5_client_write_request_def bs_def Let_def not_le simp del: length_concat split: bind_splits if_splits)
  then have "moved w1 [] bs w'" using send_moved(2)[OF _ _ w1(1), of bs n w'] by (simp add: bs_def)
  moreover have "request_bytes w = bs" using cmd get a by (simp add: request_bytes_def bs_def Let_def)
  ultimately show ?thesis using same_netD[OF w1(2)] by (simp add: moved_def)
qed

lemma addr_bytes_decode:
  assumes "t = HEV_SOCKS5_ADDR_TYPE_IPV4 \<and> length a = 6 \<or> t = HEV_SOCKS5_ADDR_TYPE_IPV6 \<and> length a = 18"
  shows "\<exists>e. endpoint_ok e \<and> (\<forall>n p. e \<noteq> Name n p) \<and> addr_encode e = t # a"
  using assms
proof
  assume *: "t = HEV_SOCKS5_ADDR_TYPE_IPV4 \<and> length a = 6"
  then have d: "addr_decode (t # a) = Some (IPv4 (take 4 a) (mem_u16 (take 2 (drop 4 a))))"
    by (simp add: addr_decode_Cons)
  show ?thesis
    using addr_encode_decode[OF d] * by (intro exI[of _ "IPv4 (take 4 a) (mem_u16 (take 2 (drop 4 a)))"])
      (simp add: hev_socks5_addr_len_def)
next
  assume *: "t = HEV_SOCKS5_ADDR_TYPE_IPV6 \<and> length a = 18"
  then have d: "addr_decode (t # a) = Some (IPv6 (take 16 a) (mem_u16 (take 2 (drop 16 a))))"
    by (simp add: addr_decode_Cons)
  show ?thesis
    using addr_encode_decode[OF d] * by (intro exI[of _ "IPv6 (take 16 a) (mem_u16 (take 2 (drop 16 a)))"])
      (simp add: hev_socks5_addr_len_def proto_defs)
qed

lemma read_response_moved:
  assumes "hev_socks5_client_read_response klass w = Some (res, w')" and "clean w" and "0 \<le> res"
  shows "\<exists>rsv e. endpoint_ok e \<and> (\<forall>n p. e \<noteq> Name n p) \<and>
     moved w ([HEV_SOCKS5_VERSION_5, HEV_SOCKS5_RES_REP_SUCC, rsv] @ addr_encode e) [] w'"
proof -
  obtain n1 h w1 where r1: "recv_stack 4 w = Some (n1, h, w1)" "0 < n1"
    and h: "h ! 0 = HEV_SOCKS5_VERSION_5" "h ! 1 = HEV_SOCKS5_RES_REP_SUCC"
      "h ! 3 = HEV_SOCKS5_ADDR_TYPE_IPV4 \<or> h ! 3 = HEV_SOCKS5_ADDR_TYPE_IPV6"
    using assms(1,3) by (auto simp: hev_socks5_client_read_response_def split: bind_splits if_splits)
  define k :: nat where "k = (if h ! 3 = HEV_SOCKS5_ADDR_TYPE_IPV4 then 6 else 18)"
  have body: "hev_socks5_client_read_response klass w = do {
      (ret, addr, self) \<leftarrow> recv_stack k w1;
      if ret \<le> 0 then Some (-1, self)
      else do {
        (ret, self) \<leftarrow> cc_set_upstream_addr klass (h ! 3 # addr) self;
        Some (if ret < 0 then -1 else 0, self) } }"
    using r1 h by (auto simp: hev_socks5_client_read_response_def k_def)
  obtain n2 a w2 r where r2: "recv_stack k w1 = Some (n2, a, w2)" "0 < n2"
    and set: "cc_set_upstream_addr klass (h ! 3 # a) w2 = Some (r, w')"
    using assms(1,3) unfolding body by (auto split: bind_splits if_splits)
  have k: "0 < k" by (simp add: k_def)
  have m1: "moved w h [] w1" "length h = 4" using recv_stack_moved[OF r1(1)] r1(2) assms(2) by auto
  have m2: "moved w1 a [] w2" "length a = k"
    using recv_stack_moved[OF r2(1) k] r2(2) moved_clean[OF m1(1)] by auto
  have m3: "moved w2 [] [] w'"
    using set_keeps[OF set] moved_clean[OF m2(1)] by (intro moved_same) auto
  obtain e where e: "endpoint_ok e" "\<forall>n p. e \<noteq> Name n p" "addr_encode e = h ! 3 # a"
    using addr_bytes_decode[of "h ! 3" a] h(3) m2(2) by (auto simp: k_def split: if_splits)
  have hh: "h = [HEV_SOCKS5_VERSION_5, HEV_SOCKS5_RES_REP_SUCC, h ! 2, h ! 3]"
    using length4[OF m1(2)] h(1,2) by metis
  have "moved w (h @ a) [] w'"
    using moved_trans[OF m1(1) moved_trans[OF m2(1) m3]] by simp
  moreover have "h @ a = [HEV_SOCKS5_VERSION_5, HEV_SOCKS5_RES_REP_SUCC, h ! 2] @ addr_encode e"
    by (subst hh) (simp add: e(3))
  ultimately show ?thesis using e(1,2) by metis
qed

lemma request_phase_moved:
  assumes "request_phase klass w = Some (0, w')" and "clean w"
  shows "\<exists>rsv e. bound_endpoint e \<and> moved w (response_bytes rsv e) (request_bytes w) w'"
proof -
  obtain r1 w1 where 1: "hev_socks5_client_write_request klass w = Some (r1, w1)" "0 \<le> r1" and
    k1: "check_res (hev_socks5_client_read_response klass w1) (\<lambda>_ self. Some (0, self)) = Some (0, w')"
    using assms(1) unfolding request_phase_def by (rule check_res_Some[OF _ order.refl])
  note m1 = write_request_moved[OF 1(1) assms(2) 1(2)]
  obtain r2 where 2: "hev_socks5_client_read_response klass w1 = Some (r2, w')" "0 \<le> r2"
    using k1 by (rule check_res_Some[OF _ order.refl]) auto
  from read_response_moved[OF 2(1) moved_clean[OF m1] 2(2)] obtain rsv e where
    "bound_endpoint e" "moved w1 (response_bytes rsv e) [] w'"
    unfolding bound_endpoint_def response_bytes_def by blast
  with moved_trans[OF m1 this(2)] show ?thesis by auto
qed

lemma standard_sound:
  assumes "hev_socks5_client_handshake_standard klass w = Some (0, w')" and "clean w"
  shows "\<exists>m rsv e. known_method m \<and> bound_endpoint e \<and>
     moved w (auth_replies m @ response_bytes rsv e)
       (auth_methods_bytes w @ (if m = HEV_SOCKS5_AUTH_METHOD_USER then auth_creds_bytes w else []) @ request_bytes w) w'"
proof -
  obtain r1 w1 where 1: "auth_phase w = Some (r1, w1)" "0 \<le> r1" and 2: "request_phase klass w1 = Some (0, w')"
    using assms(1) unfolding handshake_standard_phases by (rule check_res_Some[OF _ order.refl])
  from auth_phase_moved[OF 1 assms(2)] obtain m where f: "s5_frame w1 = s5_frame w" and m: "known_method m"
    "moved w (auth_replies m) (auth_methods_bytes w @ (if m = HEV_SOCKS5_AUTH_METHOD_USER then auth_creds_bytes w else [])) w1"
    by blast
  from request_phase_moved[OF 2 moved_clean[OF m(2)]] obtain rsv e where
    "bound_endpoint e" "moved w1 (response_bytes rsv e) (request_bytes w1) w'" by blast
  with moved_trans[OF m(2) this(2)] m(1) request_bytes_frame[OF f] show ?thesis
    by (intro exI[of _ m] exI[of _ rsv] exI[of _ e]) simp
qed

lemma write_request_goes:
  assumes "clean w" and "s5_calm w" and "length (request_bytes w) \<le> tx_room (net_tx w)"
    and "req_cmd (s5_type w) = Some cmd" and "fst (cc_get_upstream_addr klass w) = Some addr"
    and "0 \<le> hev_socks5_addr_len addr"
  obtains w' where "hev_socks5_client_write_request klass w = Some (0, w')" and "goes w [] (request_bytes w) w'"
proof -
  obtain w1 where get: "cc_get_upstream_addr klass w = (Some addr, w1)"
    using assms(5) by (cases "cc_get_upstream_addr klass w") auto
  have w1: "same_net w w1" "s5_calm w1" "clean w1"
    using get_keeps[OF get] assms(1,2) by (auto simp: clean_def same_net_def)
  let ?iov = "[[HEV_SOCKS5_VERSION_5, cmd, 0], take (nat (hev_socks5_addr_len addr)) addr]"
  have rb: "request_bytes w = concat ?iov" using assms(4,5) by (simp add: request_bytes_def)
  have len: "length (concat ?iov) \<le> tx_room (net_tx w1)"
    using assms(3) rb same_netD(2)[OF w1(1)] by simp
  obtain w' where "hev_task_io_socket_send hev_socks5_task_io_yielder True (concat ?iov) 0 w1 =
      Some (int (length (concat ?iov)), w')" and g: "goes w1 [] (concat ?iov) w'"
    by (rule send_goes[OF w1(3,2) len]) auto
  then have "hev_socks5_client_write_request klass w = Some (0, w')"
    using assms(4,6) get sendmsg_eq_send[of hev_socks5_task_io_yielder True ?iov w1]
    by (simp add: hev_socks5_client_write_request_def del: length_concat)
  moreover have "goes w [] (request_bytes w) w'"
    using g same_netD[OF w1(1)] unfolding rb by (simp add: goes_def moved_def)
  ultimately show thesis using that by blast
qed

lemma read_response_goes:
  assumes "clean w" and "s5_calm w" and "rx_bytes (net_rx w) = response_bytes rsv e @ rest" and "bound_endpoint e"
  obtains w2 addr where "goes w (response_bytes rsv e) [] w2"
    and "hev_socks5_client_read_response klass w = do {
       (ret, self) \<leftarrow> cc_set_upstream_addr klass addr w2; Some (if ret < 0 then -1 else 0, self) }"
    and "addr_decode addr = Some e"
proof -
  obtain t a where ta: "addr_encode e = t # a"
    and t: "t = HEV_SOCKS5_ADDR_TYPE_IPV4 \<and> length a = 6 \<or> t = HEV_SOCKS5_ADDR_TYPE_IPV6 \<and> length a = 18"
    using assms(4) by (cases e) (auto simp: bound_endpoint_def)
  let ?h = "[HEV_SOCKS5_VERSION_5, HEV_SOCKS5_RES_REP_SUCC, rsv, t]"
  have rx: "rx_bytes (net_rx w) = ?h @ a @ rest" using assms(3) ta by (simp add: response_bytes_def)
  obtain w1 where 1: "recv_stack 4 w = Some (4, ?h, w1)" and g1: "goes w ?h [] w1"
    by (rule recv_goes[OF assms(1,2) rx]) (auto simp: eval_nat_numeral)
  have rx1: "rx_bytes (net_rx w1) = a @ rest" using goesD(4)[OF g1] rx by simp
  have ne: "a \<noteq> []" using t by auto
  obtain w2 where 2: "recv_stack (length a) w1 = Some (int (length a), a, w2)" and g2: "goes w1 a [] w2"
    by (rule recv_goes[OF goesD(1,2)[OF g1] rx1 ne]) auto
  have "hev_socks5_client_read_response klass w = do {
       (ret, self) \<leftarrow> cc_set_upstream_addr klass (t # a) w2; Some (if ret < 0 then -1 else 0, self) }"
    using 1 2 t by (auto simp: hev_socks5_client_read_response_def proto_defs)
  moreover have "addr_decode (t # a) = Some e"
    using addr_decode_encode[of e "[]"] ta assms(4) by (simp add: bound_endpoint_def)
  moreover have "goes w (response_bytes rsv e) [] w2"
    using goes_trans[OF g1 g2] ta by (simp add: response_bytes_def)
  ultimately show thesis using that by blast
qed

lemma standard_complete:
  assumes "clean w" and "s5_calm w" and "known_method m" and "bound_endpoint e"
    and "rx_bytes (net_rx w) = auth_replies m @ response_bytes rsv e @ rest"
    and "3 + length (auth_creds_bytes w) + length (request_bytes w) \<le> tx_room (net_tx w)"
    and "req_cmd (s5_type w) = Some cmd" and "fst (cc_get_upstream_addr klass w) = Some addr"
    and "0 \<le> hev_socks5_addr_len addr"
    and "\<And>b v. addr_decode b = Some e \<Longrightarrow> s5_calm v \<Longrightarrow> \<exists>r v'. cc_set_upstream_addr klass b v = Some (r, v') \<and> 0 \<le> r"
  shows "\<exists>w'. hev_socks5_client_handshake_standard klass w = Some (0, w') \<and> rx_bytes (net_rx w') = rest \<and>
     net_out w' = net_out w @ auth_methods_bytes w @
       (if m = HEV_SOCKS5_AUTH_METHOD_USER then auth_creds_bytes w else []) @ request_bytes w"
proof -
  have "3 + length (auth_creds_bytes w) \<le> tx_room (net_tx w)" using assms(6) by simp
  from auth_phase_goes[OF assms(1-3,5) this] obtain w1 where 1: "auth_phase w = Some (0, w1)"
    and f1: "s5_frame w1 = s5_frame w" and g1: "goes w (auth_replies m)
      (auth_methods_bytes w @ (if m = HEV_SOCKS5_AUTH_METHOD_USER then auth_creds_bytes w else [])) w1" .
  have rb: "request_bytes w1 = request_bytes w" using request_bytes_frame[OF f1] .
  have room: "length (request_bytes w1) \<le> tx_room (net_tx w1)"
    using goesD(3)[OF g1] assms(6) rb by (auto simp: auth_methods_bytes_def split: if_splits)
  have cmd: "req_cmd (s5_type w1) = Some cmd" using s5_frameD(3)[OF f1] assms(7) by simp
  have get: "fst (cc_get_upstream_addr klass w1) = Some addr" using get_frame[OF f1] assms(8) by simp
  from write_request_goes[OF goesD(1,2)[OF g1] room cmd get assms(9)] obtain w2 where
    2: "hev_socks5_client_write_request klass w1 = Some (0, w2)" and g2: "goes w1 [] (request_bytes w1) w2" .
  have rx2: "rx_bytes (net_rx w2) = response_bytes rsv e @ rest"
    using goesD(4)[OF g1] goesD(4)[OF g2] assms(5) by simp
  from read_response_goes[OF goesD(1,2)[OF g2] rx2 assms(4)] obtain w3 b where
    g3: "goes w2 (response_bytes rsv e) [] w3"
    and 3: "hev_socks5_client_read_response klass w2 = do {
       (ret, self) \<leftarrow> cc_set_upstream_addr klass b w3; Some (if ret < 0 then -1 else 0, self) }"
    and b: "addr_decode b = Some e" .
  obtain r w4 where set: "cc_set_upstream_addr klass b w3 = Some (r, w4)" "0 \<le> r"
    using assms(10)[OF b goesD(2)[OF g3]] by blast
  then have 4: "hev_socks5_client_read_response klass w2 = Some (0, w4)" using 3 by simp
  have "hev_socks5_client_handshake_standard klass w = Some (0, w4)"
    by (simp add: handshake_standard_phases request_phase_def check_res_step[OF 1] check_res_step[OF 2]
        check_res_step[OF 4])
  moreover have "rx_bytes (net_rx w4) = rest" "net_out w4 = net_out w3"
    using set_keeps[OF set(1)] goesD(4)[OF g3] rx2 by auto
  ultimately show ?thesis
    using goes_moved[OF goes_trans[OF goes_trans[OF g1 g2] g3]] rb unfolding moved_def by simp
qed

lemma pipeline_sound:
  assumes "hev_socks5_client_handshake_pipeline klass w = Some (0, w')" and "clean w"
  shows "\<exists>m rsv e. known_method m \<and> bound_endpoint e \<and>
     moved w (auth_replies m @ response_bytes rsv e)
       (auth_methods_bytes w @ auth_creds_bytes w @ request_bytes w) w'"
proof -
  obtain r1 w1 where 1: "hev_socks5_client_write_auth_methods w = Some (r1, w1)" "0 \<le> r1" and
    k1: "check_res (hev_socks5_client_write_auth_creds w1) (\<lambda>_ self.
     check_res (hev_socks5_client_write_request klass self) (\<lambda>_ self.
     check_res (reply_phase self) (\<lambda>_ self.
     check_res (hev_socks5_client_read_response klass self) (\<lambda>_ self. Some (0, self))))) = Some (0, w')"
    using assms(1) unfolding handshake_pipeline_phases by (rule check_res_Some[OF _ order.refl])
  have f1: "s5_frame w1 = s5_frame w" and m1: "moved w [] (auth_methods_bytes w) w1"
    using write_auth_methods_moved[OF 1(1) assms(2)] 1(2) by auto
  obtain r2 w2 where 2: "hev_socks5_client_write_auth_creds w1 = Some (r2, w2)" "0 \<le> r2" and
    k2: "check_res (hev_socks5_client_write_request klass w2) (\<lambda>_ self.
     check_res (reply_phase self) (\<lambda>_ self.
     check_res (hev_socks5_client_read_response klass self) (\<lambda>_ self. Some (0, self)))) = Some (0, w')"
    using k1 by (rule check_res_Some[OF _ order.refl])
  have f2: "s5_frame w2 = s5_frame w1" and m2: "moved w1 [] (auth_creds_bytes w1) w2"
    using write_auth_creds_moved[OF 2(1) moved_clean[OF m1]] 2(2) by auto
  obtain r3 w3 where 3: "hev_socks5_client_write_request klass w2 = Some (r3, w3)" "0 \<le> r3" and
    k3: "check_res (reply_phase w3) (\<lambda>_ self.
     check_res (hev_socks5_client_read_response klass self) (\<lambda>_ self. Some (0, self))) = Some (0, w')"
    using k2 by (rule check_res_Some[OF _ order.refl])
  note m3 = write_request_moved[OF 3(1) moved_clean[OF m2] 3(2)]
  obtain r4 w4 where 4: "reply_phase w3 = Some (r4, w4)" "0 \<le> r4" and
    k4: "check_res (hev_socks5_client_read_response klass w4) (\<lambda>_ self. Some (0, self)) = Some (0, w')"
    using k3 by (rule check_res_Some[OF _ order.refl])
  obtain m where m: "known_method m" "moved w3 (auth_replies m) [] w4"
    using reply_phase_moved[OF 4 moved_clean[OF m3]] by blast
  obtain r5 where 5: "hev_socks5_client_read_response klass w4 = Some (r5, w')" "0 \<le> r5"
    using k4 by (rule check_res_Some[OF _ order.refl]) auto
  from read_response_moved[OF 5(1) moved_clean[OF m(2)] 5(2)] obtain rsv e where
    e: "bound_endpoint e" "moved w4 (response_bytes rsv e) [] w'"
    unfolding bound_endpoint_def response_bytes_def by blast
  have f: "s5_frame w2 = s5_frame w" using f1 f2 by simp
  have "request_bytes w2 = request_bytes w" "auth_creds_bytes w1 = auth_creds_bytes w"
    using request_bytes_frame[OF f] client_frame(4)[OF f1] by auto
  with moved_trans[OF moved_trans[OF moved_trans[OF moved_trans[OF m1 m2] m3] m(2)] e(2)] m(1) e(1)
  show ?thesis by (intro exI[of _ m] exI[of _ rsv] exI[of _ e]) simp
qed

end

section \<open>The two classes of clients\<close>

lemma tcp_frame: "s5_frame w' = s5_frame w \<Longrightarrow> ct_addr w' = ct_addr w"
  by (cases w; cases w') (simp add: s5_frame_def)

lemma tcp_class_simps [simp]:
  "cc_get_upstream_addr (hev_socks5_client_tcp_class bnd) w = (ct_addr w, w\<lparr>ct_addr := None\<rparr>)"
  "cc_set_upstream_addr (hev_socks5_client_tcp_class bnd) addr w = Some (0, w)"
  by (simp_all add: hev_socks5_client_tcp_class_def hev_socks5_client_tcp_get_upstream_addr_def
      hev_socks5_client_tcp_set_upstream_addr_def)

interpretation tcpc: client_class "hev_socks5_client_tcp_class bnd" for bnd
proof (unfold_locales, goal_cases)
  case (1 w a w')
  then show ?case by (auto simp: same_net_def s5_calm_def)
next
  case (2 w' w)
  then show ?case using tcp_frame[OF 2] by simp
qed simp

lemma hev_socks5_socket_net:
  "hev_socks5_socket w = Some (fd, w') \<Longrightarrow> net_rx w' = net_rx w \<and> net_tx w' = net_tx w \<and> net_out w' = net_out w"
  by (auto simp: hev_socks5_socket_def sys_result_def sys_opened_def sys_close_def
      split: list.splits bind_splits if_splits)

lemma udp_set_keeps:
  assumes "hev_socks5_client_udp_set_upstream_addr R hev_socks5_bind addr w = Some (r, w')"
  shows "net_rx w' = net_rx w \<and> net_tx w' = net_tx w \<and> net_out w' = net_out w"
  using assms
  by (auto simp: hev_socks5_client_udp_set_upstream_addr_def hev_socks5_bind_def sys_close_def
      split: if_splits bind_splits prod.splits
      dest!: hev_socks5_socket_net s5f.connect_view[OF _ refl])

lemma udp_class_simps [simp]:
  "cc_get_upstream_addr (hev_socks5_client_udp_class R bnd) = hev_socks5_client_udp_get_upstream_addr"
  "cc_set_upstream_addr (hev_socks5_client_udp_class R bnd) = hev_socks5_client_udp_set_upstream_addr R bnd"
  by (simp_all add: hev_socks5_client_udp_class_def)

interpretation udpc: client_class "hev_socks5_client_udp_class R hev_socks5_bind" for R
proof (unfold_locales, goal_cases)
  case (1 w a w')
  then show ?case
    by (auto simp: hev_socks5_client_udp_get_upstream_addr_def split: HevSocks5AddrFamily.splits)
next
  case (2 w' w)
  then show ?case
    using s5_frameD(4)[OF 2]
    by (auto simp: hev_socks5_client_udp_get_upstream_addr_def hev_socks5_get_addr_family_def
        split: HevSocks5AddrFamily.splits)
next
  case (3 addr w r w')
  then show ?case using udp_set_keeps[of R addr w r w'] by simp
qed

section \<open>Properties\<close>

lemma request_bytes_tcp:
  assumes "s5_type w = HEV_SOCKS5_TYPE_TCP" and "ct_addr w = Some addr" and "addr_decode addr = Some t"
  shows "tcpc.request_bytes bnd w = [HEV_SOCKS5_VERSION_5, HEV_SOCKS5_REQ_CMD_CONNECT, 0] @ addr_encode t"
  using assms addr_encode_decode(2)[OF assms(3)] by (simp add: tcpc.request_bytes_def)

text \<open>
  C2: A handshake of a TCP client that reports success, in either mode, over a connection that neither
  ends nor fails while it runs (\<open>clean\<close>; the property on short reads shows what happens otherwise), has
  had exactly this dialogue: the client sent the greeting with the one method it
  offers, its credentials (when pipelining, or when the server chose that method) and the CONNECT
  request for its target address; the server answered in SOCKS version 5 with a method the client
  knows, accepted the credentials if it asked for them, and granted the request.  Not one byte after
  the response has been taken from the stream, so the data of the tunnelled connection is intact.
\<close>

theorem tcp_handshake_sound:
  assumes "hev_socks5_client_handshake pipeline (hev_socks5_client_tcp_class bnd) w = Some (0, w')"
    and "clean w" and "s5_type w = HEV_SOCKS5_TYPE_TCP" and "ct_addr w = Some addr" and "addr_decode addr = Some t"
  shows "\<exists>m rsv e. known_method m \<and> bound_endpoint e \<and>
     rx_bytes (net_rx w) = auth_replies m @ response_bytes rsv e @ rx_bytes (net_rx w') \<and>
     net_out w' = net_out w @ auth_methods_bytes w @
       (if pipeline \<or> m = HEV_SOCKS5_AUTH_METHOD_USER then auth_creds_bytes w else []) @
       [HEV_SOCKS5_VERSION_5, HEV_SOCKS5_REQ_CMD_CONNECT, 0] @ addr_encode t"
proof (cases pipeline)
  case True
  with assms(1) have "hev_socks5_client_handshake_pipeline (hev_socks5_client_tcp_class bnd) w = Some (0, w')"
    by (simp add: hev_socks5_client_handshake_def)
  from tcpc.pipeline_sound[OF this assms(2)] True request_bytes_tcp[OF assms(3-5)] show ?thesis
    by (auto simp: moved_def)
next
  case False
  with assms(1) have "hev_socks5_client_handshake_standard (hev_socks5_client_tcp_class bnd) w = Some (0, w')"
    by (simp add: hev_socks5_client_handshake_def)
  from tcpc.standard_sound[OF this assms(2)] obtain m rsv e where
    "known_method m" "bound_endpoint e" "moved w (auth_replies m @ response_bytes rsv e)
       (auth_methods_bytes w @ (if m = HEV_SOCKS5_AUTH_METHOD_USER then auth_creds_bytes w else []) @ tcpc.request_bytes bnd w) w'"
    by blast
  with False request_bytes_tcp[OF assms(3-5)] show ?thesis
    by (intro exI[of _ m] exI[of _ rsv] exI[of _ e]) (simp add: moved_def)
qed

text \<open>A client for 192.0.2.1, port 80, as its constructor leaves it, with given scripts for its socket.\<close>

definition sample_client :: "rx_ev list \<Rightarrow> tx_ev list \<Rightarrow> HevSocks5ClientTCP" where
  "sample_client rx tx = snd (hev_socks5_client_tcp_construct (addr_encode (IPv4 [192, 0, 2, 1] 0x5000))
     \<lparr>net_rx = rx, net_tx = tx, net_conn = [], net_out = [], net_shut = False, net_junk = (\<lambda>_. 0),
      s5_fd = 0, s5_timeout = 0, s5_udp_associated = 0, s5_type = HEV_SOCKS5_TYPE_NONE,
      s5_addr_family = HEV_SOCKS5_ADDR_FAMILY_UNSPEC, s5_wake = (\<lambda>_. (1, False)), s5_clock = 0,
      s5_sys = [], s5_open = {}, cl_user = None, cl_pass = None, ct_addr = None\<rparr>)"

lemma sample_client_simps [simp]:
  "net_rx (sample_client rx tx) = rx" "net_tx (sample_client rx tx) = tx" "net_out (sample_client rx tx) = []"
  "s5_calm (sample_client rx tx)" "s5_type (sample_client rx tx) = HEV_SOCKS5_TYPE_TCP"
  "ct_addr (sample_client rx tx) = Some (addr_encode (IPv4 [192, 0, 2, 1] 0x5000))"
  "auth_creds_bytes (sample_client rx tx) = []"
  "auth_methods_bytes (sample_client rx tx) = [5, 1, 0]"
  by (simp_all add: sample_client_def hev_socks5_client_tcp_construct_def hev_malloc_len_def ssize_max_def hev_socks5_client_construct_def
      hev_socks5_construct_def s5_calm_def auth_creds_bytes_def auth_methods_bytes_def has_creds_def
      hev_socks5_addr_len_def proto_defs u16_mem_def)

text \<open>
  C3: The converse: against a server that answers correctly, in whatever segments its answers arrive
  and in whatever pieces the kernel accepts the client's messages, the standard handshake of a TCP
  client returns and reports success.
\<close>

theorem tcp_handshake_returns:
  assumes "clean w" and "s5_calm w" and "s5_type w = HEV_SOCKS5_TYPE_TCP"
    and "ct_addr w = Some addr" and "addr_decode addr = Some t"
    and "known_method m" and "bound_endpoint e"
    and "rx_bytes (net_rx w) = auth_replies m @ response_bytes rsv e @ rest"
    and "6 + length (auth_creds_bytes w) + length (addr_encode t) \<le> tx_room (net_tx w)"
  shows "\<exists>w'. hev_socks5_client_handshake False (hev_socks5_client_tcp_class bnd) w = Some (0, w') \<and>
     rx_bytes (net_rx w') = rest"
proof -
  have "0 \<le> hev_socks5_addr_len addr"
    using assms(5) by (cases rule: addr_decode_cases) (simp_all add: hev_socks5_addr_len_def proto_defs)
  then have "\<exists>w'. hev_socks5_client_handshake_standard (hev_socks5_client_tcp_class bnd) w = Some (0, w') \<and>
     rx_bytes (net_rx w') = rest \<and>
     net_out w' = net_out w @ auth_methods_bytes w @
       (if m = HEV_SOCKS5_AUTH_METHOD_USER then auth_creds_bytes w else []) @ tcpc.request_bytes bnd w"
    using assms(3,4,9) request_bytes_tcp[OF assms(3-5)]
    by (intro tcpc.standard_complete[OF assms(1,2,6,7,8), where cmd = HEV_SOCKS5_REQ_CMD_CONNECT and addr = addr]) simp_all
  then show ?thesis by (auto simp: hev_socks5_client_handshake_def)
qed

definition sample_reply :: "rx_ev list" where
  "sample_reply = [RxAgain, RxData [5], RxData [0, 5], RxData [0, 0], RxAgain, RxData [1, 10, 0, 0], RxData [1, 0, 80, 42]]"

lemma sample_reply_facts:
  shows "clean (sample_client sample_reply (replicate 13 (TxOk 4)))"
    and "known_method 0" and "bound_endpoint (IPv4 [10, 0, 0, 1] 0x5000)"
    and "rx_bytes sample_reply = auth_replies 0 @ response_bytes 0 (IPv4 [10, 0, 0, 1] 0x5000) @ [42]"
    and "tx_room (replicate 13 (TxOk 4)) = 13"
proof -
  have "rx_ready sample_reply" "tx_ready (replicate 13 (TxOk 4))" by code_simp+
  then show "clean (sample_client sample_reply (replicate 13 (TxOk 4)))" by (simp add: clean_def)
  show "known_method 0" by code_simp
  show "bound_endpoint (IPv4 [10, 0, 0, 1] 0x5000)" by (simp add: bound_endpoint_def)
  show "rx_bytes sample_reply = auth_replies 0 @ response_bytes 0 (IPv4 [10, 0, 0, 1] 0x5000) @ [42]" by code_simp
  show "tx_room (replicate 13 (TxOk 4)) = 13" by code_simp
qed

theorem tcp_handshake_returns_witness:
  "\<exists>w'. hev_socks5_client_handshake False (hev_socks5_client_tcp_class hev_socks5_bind)
      (sample_client sample_reply (replicate 13 (TxOk 4))) = Some (0, w') \<and> rx_bytes (net_rx w') = [42]"
  using tcp_handshake_returns[where w = "sample_client sample_reply (replicate 13 (TxOk 4))" and m = 0
      and e = "IPv4 [10, 0, 0, 1] 0x5000" and rsv = 0 and rest = "[42]" and bnd = hev_socks5_bind
      and t = "IPv4 [192, 0, 2, 1] 0x5000"] sample_reply_facts addr_decode_encode[of "IPv4 [192, 0, 2, 1] 0x5000" "[]"]
  by simp

lemma sample_handshake:
  "\<exists>w'. hev_socks5_client_handshake False (hev_socks5_client_tcp_class hev_socks5_bind)
      (sample_client sample_reply (replicate 13 (TxOk 4))) = Some (0, w')"
proof -
  let ?w = "sample_client sample_reply (replicate 13 (TxOk 4))" and ?t = "IPv4 [192, 0, 2, 1] 0x5000"
  have dec: "addr_decode (addr_encode ?t) = Some ?t" using addr_decode_encode[of ?t "[]"] by simp
  have rb: "tcpc.request_bytes hev_socks5_bind ?w = [HEV_SOCKS5_VERSION_5, HEV_SOCKS5_REQ_CMD_CONNECT, 0] @ addr_encode ?t"
    by (rule request_bytes_tcp[OF _ _ dec]) simp_all
  have rx: "rx_bytes (net_rx ?w) = auth_replies 0 @ response_bytes 0 (IPv4 [10, 0, 0, 1] 0x5000) @ [42]"
    using sample_reply_facts(4) by simp
  have "\<exists>w'. hev_socks5_client_handshake_standard (hev_socks5_client_tcp_class hev_socks5_bind) ?w = Some (0, w') \<and>
      rx_bytes (net_rx w') = [42] \<and> net_out w' = net_out ?w @ auth_methods_bytes ?w @
       (if 0 = HEV_SOCKS5_AUTH_METHOD_USER then auth_creds_bytes ?w else []) @ tcpc.request_bytes hev_socks5_bind ?w"
    using rb sample_reply_facts(5)
    by (intro tcpc.standard_complete[OF sample_reply_facts(1) _ sample_reply_facts(2,3) rx,
          where cmd = HEV_SOCKS5_REQ_CMD_CONNECT and addr = "addr_encode ?t"])
      (simp_all add: hev_socks5_addr_len_def)
  then show ?thesis by (auto simp: hev_socks5_client_handshake_def)
qed

theorem tcp_handshake_sound_witness:
  "\<exists>w'. hev_socks5_client_handshake False (hev_socks5_client_tcp_class hev_socks5_bind)
      (sample_client sample_reply (replicate 13 (TxOk 4))) = Some (0, w') \<and>
     net_out w' = [5, 1, 0] @ [5, 1, 0] @ addr_encode (IPv4 [192, 0, 2, 1] 0x5000)"
proof -
  obtain w' where w': "hev_socks5_client_handshake False (hev_socks5_client_tcp_class hev_socks5_bind)
      (sample_client sample_reply (replicate 13 (TxOk 4))) = Some (0, w')" using sample_handshake by blast
  have "addr_decode (addr_encode (IPv4 [192, 0, 2, 1] 0x5000)) = Some (IPv4 [192, 0, 2, 1] 0x5000)"
    using addr_decode_encode[of "IPv4 [192, 0, 2, 1] 0x5000" "[]"] by simp
  from tcp_handshake_sound[OF w' sample_reply_facts(1) _ _ this]
  have "net_out w' = [5, 1, 0] @ [5, 1, 0] @ addr_encode (IPv4 [192, 0, 2, 1] 0x5000)"
    by (auto simp: HEV_SOCKS5_VERSION_5_def HEV_SOCKS5_REQ_CMD_CONNECT_def simp del: addr_encode.simps)
  with w' show ?thesis by blast
qed

text \<open>
  C14: A reply cut short by the peer is not noticed.  \<open>recv\<close> with \<open>MSG_WAITALL\<close> returns a positive
  count when the stream ends early, and the caller only tests for a result that is not positive: if
  the server closes after the version byte, the method the client goes on with is whatever its stack
  held before.
\<close>

theorem read_auth_method_short_read:
  assumes "net_rx w = [RxData [HEV_SOCKS5_VERSION_5], RxEof]"
  shows "hev_socks5_client_read_auth_method w = Some (uint (net_junk w 1), w\<lparr>net_rx := [RxEof]\<rparr>)"
proof -
  have "hev_task_io_socket_recv hev_socks5_task_io_yielder True 2 [] w =
      hev_task_io_socket_recv hev_socks5_task_io_yielder True 2 [HEV_SOCKS5_VERSION_5] (w\<lparr>net_rx := [RxEof]\<rparr>)"
    using assms by (subst hev_task_io_socket_recv.simps) (simp add: sys_recv_def)
  also have "\<dots> = Some (1, [HEV_SOCKS5_VERSION_5], w\<lparr>net_rx := [RxEof]\<rparr>)"
    by (subst hev_task_io_socket_recv.simps) (simp add: sys_recv_def)
  finally show ?thesis
    by (simp add: hev_socks5_client_read_auth_method_def recv_stack_def fill_def)
qed

theorem read_auth_method_short_read_witness:
  "map_option fst (hev_socks5_client_read_auth_method
     ((sample_client [RxData [5], RxEof] [])\<lparr>net_junk := (\<lambda>i. if i = 1 then 2 else 0)\<rparr>)) = Some 2"
  using read_auth_method_short_read[of "(sample_client [RxData [5], RxEof] [])\<lparr>net_junk := (\<lambda>i. if i = 1 then 2 else 0)\<rparr>"]
  by (simp add: HEV_SOCKS5_VERSION_5_def)

lemma connect_fds:
  assumes "hev_task_io_socket_connect hev_socks5_task_io_yielder w = Some (res, w')"
  shows "s5_open w' = s5_open w" and "s5_fd w' = s5_fd w"
  using s5f.connect_view[OF assms refl] by (simp_all add: s5_frame_def)

lemma socket_fds:
  assumes "hev_socks5_socket w = Some (fd, w')" and "hd (s5_sys w) \<notin> s5_open w"
  shows "if fd < 0 then s5_open w' = s5_open w else s5_open w' = insert fd (s5_open w) \<and> fd \<notin> s5_open w"
  using assms
  by (auto simp: hev_socks5_socket_def sys_result_def sys_opened_def sys_close_def
      split: list.splits bind_splits if_splits)

text \<open>
  C11: Connecting to the server does not leak descriptors: on success exactly one new descriptor is
  open and the object owns it, on every failure (resolution, socket, binding hook, connect) the set
  of open descriptors is what it was.
\<close>

theorem connect_no_fd_leak:
  assumes "hev_socks5_client_connect R klass addr port w = Some (res, w')"
    and "hd (s5_sys w) \<notin> s5_open w"
    and "\<And>fd sa v r v'. cc_binder klass fd sa v = Some (r, v') \<Longrightarrow> s5_open v' = s5_open v"
  shows "res = 0 \<and> s5_fd w' \<notin> s5_open w \<and> s5_open w' = insert (s5_fd w') (s5_open w) \<or>
     res = -1 \<and> s5_open w' = s5_open w"
proof -
  obtain r sa fam where name: "hev_socks5_name_into_sockaddr6 R addr port
      (stack_sockaddr w) (hev_socks5_get_addr_family w) = (r, sa, fam)"
    using prod_cases3 by blast
  obtain q where srv: "hev_socks5_client_connect_server R klass addr port w = Some (q, w')"
    and res: "res = (if q < 0 then -1 else 0)"
    using assms(1) by (auto simp: hev_socks5_client_connect_def split: bind_splits)
  show ?thesis
  proof (cases "r < 0")
    case True
    with srv name res show ?thesis by (auto simp: hev_socks5_client_connect_server_def)
  next
    case False
    with srv name obtain fd w1 where sock: "hev_socks5_socket w = Some (fd, w1)"
      by (auto simp: hev_socks5_client_connect_server_def split: bind_splits)
    note s1 = socket_fds[OF sock assms(2)]
    show ?thesis
    proof (cases "fd < 0")
      case True
      with False srv name sock s1 res show ?thesis by (auto simp: hev_socks5_client_connect_server_def)
    next
      case fd: False
      with False srv name sock obtain r2 w2 where bind: "cc_binder klass fd sa w1 = Some (r2, w2)"
        by (auto simp: hev_socks5_client_connect_server_def split: bind_splits)
      have open2: "s5_open w2 = insert fd (s5_open w)" "fd \<notin> s5_open w"
        using assms(3)[OF bind] s1 fd by auto
      have eq: "hev_socks5_client_connect_server R klass addr port w =
          (if r2 < 0 then Some (-1, sys_close fd w2)
           else do {
             (res, self) \<leftarrow> hev_task_io_socket_connect hev_socks5_task_io_yielder w2;
             if res < 0 then Some (-1, sys_close fd self)
             else Some (0, hev_socks5_set_addr_family fam (self\<lparr>s5_fd := fd\<rparr>)) })"
        using False name sock fd bind by (simp add: hev_socks5_client_connect_server_def)
      show ?thesis
      proof (cases "r2 < 0")
        case True
        with srv eq have "q = -1" "w' = sys_close fd w2" by simp_all
        with open2 res show ?thesis by (simp add: sys_close_def)
      next
        case r2: False
        with srv eq obtain r3 w3 where
          conn: "hev_task_io_socket_connect hev_socks5_task_io_yielder w2 = Some (r3, w3)"
          by (cases "hev_task_io_socket_connect hev_socks5_task_io_yielder w2") auto
        note o3 = connect_fds(1)[OF conn]
        show ?thesis
          using srv res open2 o3 unfolding eq
          by (cases "r3 < 0") (auto simp: r2 conn sys_close_def hev_socks5_set_addr_family_def)
      qed
    qed
  qed
qed

theorem connect_no_fd_leak_witness:
  "\<exists>w'. hev_socks5_client_connect
      \<lparr>inet_pton4 = Map.empty, inet_pton6 = (\<lambda>_. Some (replicate 15 0 @ [1])), getaddrinfo = (\<lambda>_. Map.empty)\<rparr>
      (hev_socks5_client_tcp_class hev_socks5_bind) [97] 1080
      ((sample_client [] [])\<lparr>s5_sys := [7, 0], net_conn := [ConnErr], s5_open := {3}\<rparr>) = Some (-1, w') \<and> s5_open w' = {3}"
proof -
  let ?R = "\<lparr>inet_pton4 = Map.empty, inet_pton6 = (\<lambda>_. Some (replicate 15 0 @ [1])), getaddrinfo = (\<lambda>_. Map.empty)\<rparr>"
  let ?w = "(sample_client [] [])\<lparr>s5_sys := [7, 0], net_conn := [ConnErr], s5_open := {3}\<rparr>"
  let ?k = "hev_socks5_client_tcp_class hev_socks5_bind"
  let ?w2 = "?w\<lparr>s5_sys := [], s5_open := {7, 3}\<rparr>"
  have name: "hev_socks5_name_into_sockaddr6 ?R [97] 1080 sa fam =
      (0, sa\<lparr>sin6_family := AF_INET6, sin6_port := ntohs 1080, sin6_addr := replicate 15 0 @ [1]\<rparr>, HEV_SOCKS5_ADDR_FAMILY_IPV6)" for sa fam
    by (simp add: hev_socks5_name_into_sockaddr6_def hev_socks5_name_resolve_ipv4_def
        hev_socks5_name_resolve_ipv6_def Let_def)
  have sock: "hev_socks5_socket ?w = Some (7, ?w2)"
    by (simp add: hev_socks5_socket_def sys_result_def sys_opened_def)
  have conn: "hev_task_io_socket_connect hev_socks5_task_io_yielder ?w2 = Some (-1, ?w2\<lparr>net_conn := []\<rparr>)"
    by (subst hev_task_io_socket_connect.simps) (simp add: sys_connect_def)
  have w': "hev_socks5_client_connect ?R ?k [97] 1080 ?w = Some (-1, sys_close 7 (?w2\<lparr>net_conn := []\<rparr>))"
    using sock conn unfolding hev_socks5_client_connect_def hev_socks5_client_connect_server_def name
    by (simp add: hev_socks5_client_tcp_class_def hev_socks5_bind_def)
  have keep: "s5_open v' = s5_open v" if "cc_binder ?k fd sa v = Some (r, v')" for fd sa v r v'
    using that by (simp add: hev_socks5_client_tcp_class_def hev_socks5_bind_def)
  have fresh: "hd (s5_sys ?w) \<notin> s5_open ?w" by simp
  have "s5_open (sys_close 7 (?w2\<lparr>net_conn := []\<rparr>)) = s5_open ?w"
    using connect_no_fd_leak[OF w' fresh keep] by simp
  with w' show ?thesis by simp
qed

end
