(* ===== verification/Splice.thy ===== *)
theory Splice
  imports Socks5_Base
begin

text \<open>
  The bidirectional copy loop of the task system (\<open>hev_task_io_splice\<close> of \<open>hev-task-io.c\<close>, in
  the variant with user space buffers), which carries the data of a tunnelled TCP connection in
  the SOCKS5 server.  \<open>a\<close> is the object whose yielder is called, \<open>b\<close> the socket at the other end.
\<close>

section \<open>hev-task-io.c\<close>

definition task_io_splicer_init :: "byte list option \<Rightarrow> u64 \<Rightarrow> int \<times> HevCircularBuffer option" where
  "task_io_splicer_init alloc buf_size =
     (case hev_circular_buffer_new alloc buf_size of None \<Rightarrow> (-1, None) | Some buf \<Rightarrow> (0, Some buf))"

definition task_io_splice ::
  "HevCircularBuffer \<Rightarrow> 'a net_scheme \<Rightarrow> 'b net_scheme \<Rightarrow> (int \<times> HevCircularBuffer \<times> 'a net_scheme \<times> 'b net_scheme) option" where
  "task_io_splice buf fd_in fd_out = do {
     let iov = hev_circular_buffer_writing buf;
     (res, buf, fd_in) \<leftarrow>
       (if iov \<noteq> [] then do {
          (r, bs, fd_in) \<leftarrow> sys_recv (iov_total iov) fd_in;
          (case r of
             Eagain \<Rightarrow> Some (0, buf, fd_in)
           | Ret s \<Rightarrow>
               if s \<le> 0 then Some (-1, buf, fd_in)
               else Some (1, hev_circular_buffer_write_finish
                      (cb_set_data buf (iov_scatter (cb_data buf) iov bs)) (of_int s), fd_in)) }
        else Some (1, buf, fd_in));
     let iov = hev_circular_buffer_reading buf;
     if iov \<noteq> [] then do {
       (r, fd_out) \<leftarrow> sys_send (iov_gather (cb_data buf) iov) fd_out;
       (case r of
          Eagain \<Rightarrow> Some (0, buf, fd_in, fd_out)
        | Ret s \<Rightarrow>
            if s \<le> 0 then Some (-1, buf, fd_in, fd_out)
            else Some (1, hev_circular_buffer_read_finish buf (of_int s), fd_in, fd_out)) }
     else Some (res, buf, fd_in, if res < 0 then fd_out\<lparr>net_shut := True\<rparr> else fd_out) }"

text \<open>One direction of an iteration: a direction that has ended is left alone.\<close>

definition splice_dir ::
  "int \<Rightarrow> HevCircularBuffer \<Rightarrow> 'a net_scheme \<Rightarrow> 'b net_scheme \<Rightarrow> (int \<times> HevCircularBuffer \<times> 'a net_scheme \<times> 'b net_scheme) option" where
  "splice_dir res buf fd_in fd_out = (if 0 \<le> res then task_io_splice buf fd_in fd_out else Some (res, buf, fd_in, fd_out))"

partial_function (option) splice_loop ::
  "'a yielder \<Rightarrow> int \<Rightarrow> HevCircularBuffer \<Rightarrow> int \<Rightarrow> HevCircularBuffer \<Rightarrow> 'a net_scheme \<Rightarrow> 'b net_scheme \<Rightarrow>
   (int \<times> HevCircularBuffer \<times> int \<times> HevCircularBuffer \<times> 'a net_scheme \<times> 'b net_scheme) option" where
  "splice_loop yielder res_f buf_f res_b buf_b a b =
     Option.bind (splice_dir res_f buf_f a b) (\<lambda>(res_f, buf_f, a, b).
     Option.bind (splice_dir res_b buf_b b a) (\<lambda>(res_b, buf_b, b, a).
       if 0 < res_f \<or> 0 < res_b then
         Option.bind (yielder HEV_TASK_YIELD a) (\<lambda>(y, a).
           if y \<noteq> 0 then Some (res_f, buf_f, res_b, buf_b, a, b)
           else splice_loop yielder res_f buf_f res_b buf_b a b)
       else if res_f AND res_b = 0 then
         Option.bind (yielder HEV_TASK_WAITIO a) (\<lambda>(y, a).
           if y \<noteq> 0 then Some (res_f, buf_f, res_b, buf_b, a, b)
           else splice_loop yielder res_f buf_f res_b buf_b a b)
       else Some (res_f, buf_f, res_b, buf_b, a, b)))"

text \<open>
  The results of the two directions and the buffers are part of the result, so that what was still
  in flight at the end can be talked about; the source returns nothing.  \<open>alloc_f\<close> and \<open>alloc_b\<close> are
  the memory the allocator returns.
\<close>

definition hev_task_io_splice ::
  "'a yielder \<Rightarrow> byte list option \<Rightarrow> byte list option \<Rightarrow> u64 \<Rightarrow> 'a net_scheme \<Rightarrow> 'b net_scheme \<Rightarrow>
   ((int \<times> HevCircularBuffer \<times> int \<times> HevCircularBuffer) option \<times> 'a net_scheme \<times> 'b net_scheme) option" where
  "hev_task_io_splice yielder alloc_f alloc_b buf_size a b =
     (case (task_io_splicer_init alloc_f buf_size, task_io_splicer_init alloc_b buf_size) of
        ((_, Some buf_f), (_, Some buf_b)) \<Rightarrow>
          map_option (\<lambda>(res_f, buf_f, res_b, buf_b, a, b). (Some (res_f, buf_f, res_b, buf_b), a, b))
            (splice_loop yielder 1 buf_f 1 buf_b a b)
      | _ \<Rightarrow> Some (None, a, b))"

section \<open>One step\<close>

text \<open>
  \<open>carried\<close>: the bytes that left through \<open>fd_out\<close> followed by those now in the buffer and those the
  peer has still to offer are the bytes that were in the buffer and on offer before.
\<close>

definition carried ::
  "HevCircularBuffer \<Rightarrow> 'a net_scheme \<Rightarrow> 'b net_scheme \<Rightarrow> HevCircularBuffer \<Rightarrow> 'a net_scheme \<Rightarrow> 'b net_scheme \<Rightarrow> bool" where
  "carried buf i out buf' i' out' \<longleftrightarrow> cb_inv buf' \<and>
     (\<exists>sent. net_out out' = net_out out @ sent \<and>
        sent @ cb_content buf' @ rx_bytes (net_rx i') = cb_content buf @ rx_bytes (net_rx i))"

lemma carried_refl: "cb_inv buf \<Longrightarrow> carried buf i out buf i out"
  by (simp add: carried_def)

lemma carried_trans:
  "carried b i out b' i' out' \<Longrightarrow> carried b' i' out' b'' i'' out'' \<Longrightarrow> carried b i out b'' i'' out''"
  unfolding carried_def by (metis append.assoc)

lemma carried_cong:
  "carried b i out b' i' out' \<Longrightarrow> net_rx j = net_rx i \<Longrightarrow> net_rx j' = net_rx i' \<Longrightarrow>
   net_out p = net_out out \<Longrightarrow> net_out p' = net_out out' \<Longrightarrow> carried b j p b' j' p'"
  by (simp add: carried_def)

text \<open>The reading half of a step.\<close>

definition splice_in ::
  "HevCircularBuffer \<Rightarrow> 'a net_scheme \<Rightarrow> (int \<times> HevCircularBuffer \<times> 'a net_scheme) option" where
  "splice_in buf fd_in =
     (let iov = hev_circular_buffer_writing buf in
      if iov \<noteq> [] then do {
          (r, bs, fd_in) \<leftarrow> sys_recv (iov_total iov) fd_in;
          (case r of
             Eagain \<Rightarrow> Some (0, buf, fd_in)
           | Ret s \<Rightarrow>
               if s \<le> 0 then Some (-1, buf, fd_in)
               else Some (1, hev_circular_buffer_write_finish
                      (cb_set_data buf (iov_scatter (cb_data buf) iov bs)) (of_int s), fd_in)) }
      else Some (1, buf, fd_in))"

definition splice_out ::
  "int \<Rightarrow> HevCircularBuffer \<Rightarrow> 'b net_scheme \<Rightarrow> (int \<times> HevCircularBuffer \<times> 'b net_scheme) option" where
  "splice_out res buf fd_out =
     (let iov = hev_circular_buffer_reading buf in
      if iov \<noteq> [] then do {
       (r, fd_out) \<leftarrow> sys_send (iov_gather (cb_data buf) iov) fd_out;
       (case r of
          Eagain \<Rightarrow> Some (0, buf, fd_out)
        | Ret s \<Rightarrow>
            if s \<le> 0 then Some (-1, buf, fd_out)
            else Some (1, hev_circular_buffer_read_finish buf (of_int s), fd_out)) }
      else Some (res, buf, if res < 0 then fd_out\<lparr>net_shut := True\<rparr> else fd_out))"

lemma task_io_splice_halves:
  "task_io_splice buf fd_in fd_out = do {
     (res, buf, fd_in) \<leftarrow> splice_in buf fd_in;
     (res, buf, fd_out) \<leftarrow> splice_out res buf fd_out;
     Some (res, buf, fd_in, fd_out) }"
  unfolding task_io_splice_def splice_in_def splice_out_def Let_def
  by (auto split: bind_splits io_res.splits)

lemma splice_in_step:
  assumes "splice_in buf i = Some (res, buf', i')" and "cb_inv buf"
  shows "cb_inv buf'" and "cb_content buf' @ rx_bytes (net_rx i') = cb_content buf @ rx_bytes (net_rx i)"
    and "net_out i' = net_out i" and "net_tx i' = net_tx i" and "net_shut i' = net_shut i"
proof -
  have "cb_inv buf' \<and> cb_content buf' @ rx_bytes (net_rx i') = cb_content buf @ rx_bytes (net_rx i) \<and>
      net_out i' = net_out i \<and> net_tx i' = net_tx i \<and> net_shut i' = net_shut i"
  proof (cases "hev_circular_buffer_writing buf = []")
    case True
    with assms show ?thesis by (simp add: splice_in_def)
  next
    case False
    then obtain r bs w where sys: "sys_recv (iov_total (hev_circular_buffer_writing buf)) i = Some (r, bs, w)"
      using assms(1) by (auto simp: splice_in_def Let_def split: bind_splits)
    from sys show ?thesis
    proof (cases rule: sys_recv_cases)
      case again
      with False sys assms show ?thesis by (auto simp: splice_in_def rx_step_def)
    next
      case (stop s)
      with False sys assms show ?thesis by (auto simp: splice_in_def rx_step_def)
    next
      case data
      then have fit: "length bs \<le> cb_space buf" using cbq.writing_total[OF assms(2)] by simp
      have "buf' = cbq.store buf bs" "i' = w"
        using False sys data assms(1) by (simp_all add: splice_in_def cbq.store_def)
      with data cbq.store_inv[OF assms(2) fit] cbq.store_content[OF assms(2) fit] show ?thesis
        by (simp add: rx_step_def)
    qed
  qed
  then show "cb_inv buf'" "cb_content buf' @ rx_bytes (net_rx i') = cb_content buf @ rx_bytes (net_rx i)"
    "net_out i' = net_out i" "net_tx i' = net_tx i" "net_shut i' = net_shut i" by auto
qed

text \<open>
  The writing half; a direction that ends (\<open>res < 0\<close>) either failed to write, or has delivered all it
  had and shut the connection down.
\<close>

lemma splice_out_step:
  assumes "splice_out res buf out = Some (res', buf', out')" and "cb_inv buf"
  shows "cb_inv buf' \<and> net_rx out' = net_rx out \<and>
    (\<exists>sent. net_out out' = net_out out @ sent \<and> sent @ cb_content buf' = cb_content buf) \<and>
    (net_shut out' \<longrightarrow> net_shut out \<or> res' < 0 \<and> cb_content buf' = []) \<and>
    (res' < 0 \<longrightarrow> tx_ready (net_tx out) \<longrightarrow> net_shut out' \<and> cb_content buf' = [] \<and> res < 0) \<and>
    (tx_ready (net_tx out) \<longrightarrow> tx_ready (net_tx out'))"
proof (cases "hev_circular_buffer_reading buf = []")
  case True
  then have "cb_content buf = []" using cbq.reading_none[OF assms(2)] by simp
  with True assms show ?thesis by (auto simp: splice_out_def)
next
  case False
  let ?c = "iov_gather (cb_data buf) (hev_circular_buffer_reading buf)"
  have c: "?c = cb_content buf" "cb_content buf \<noteq> []"
    using cbq.reading_gather[OF assms(2)] cbq.reading_none[OF assms(2)] False by auto
  obtain r w where sys: "sys_send (cb_content buf) out = Some (r, w)"
    using assms(1) False c(1) by (auto simp: splice_out_def Let_def split: bind_splits)
  have rdy: "tx_ready (net_tx out) \<Longrightarrow> tx_ready (net_tx w)" "\<And>s. tx_ready (net_tx out) \<Longrightarrow> r = Ret s \<Longrightarrow> 0 < s"
    using sys_send_tx_ready[OF _ sys c(2)] by auto
  from sys show ?thesis
  proof (cases rule: sys_send_cases)
    case again
    with False sys c assms rdy show ?thesis by (auto simp: splice_out_def tx_step_def)
  next
    case (stop s)
    with False sys c assms rdy show ?thesis by (auto simp: splice_out_def tx_step_def)
  next
    case (data n)
    have "buf' = cbq.consume buf n" "out' = w" "res' = 1"
      using False sys data c assms(1) by (simp_all add: splice_out_def cbq.consume_def)
    with data cbq.consume_inv[OF assms(2)] cbq.consume_content[OF assms(2)] rdy show ?thesis
      by (auto simp: tx_step_def)
  qed
qed

text \<open>A stream that ends, if at all, in an orderly way.\<close>

fun rx_orderly :: "rx_ev list \<Rightarrow> bool" where
  "rx_orderly [] = True"
| "rx_orderly (RxData bs # es) = (bs \<noteq> [] \<and> rx_orderly es)"
| "rx_orderly (RxEof # es) = True"
| "rx_orderly (RxAgain # es) = rx_orderly es"
| "rx_orderly (RxErr # es) = False"

lemma sys_recv_orderly:
  assumes "sys_recv len w = Some (r, bs, w')" and "rx_orderly (net_rx w)" and "0 < len"
  shows "rx_orderly (net_rx w')" and "r = Ret s \<Longrightarrow> s \<le> 0 \<Longrightarrow> rx_bytes (net_rx w') = []"
  using assms by (auto simp: sys_recv_def Let_def split: list.splits rx_ev.splits if_splits)

lemma splice_in_orderly:
  assumes "splice_in buf i = Some (res, buf', i')" and "cb_inv buf" and "rx_orderly (net_rx i)"
  shows "rx_orderly (net_rx i')" and "res < 0 \<Longrightarrow> rx_bytes (net_rx i') = []"
proof -
  have "rx_orderly (net_rx i') \<and> (res < 0 \<longrightarrow> rx_bytes (net_rx i') = [])"
  proof (cases "hev_circular_buffer_writing buf = []")
    case True
    with assms show ?thesis by (auto simp: splice_in_def)
  next
    case False
    then have pos: "0 < iov_total (hev_circular_buffer_writing buf)"
      using cbq.writing_none[OF assms(2)] cbq.writing_total[OF assms(2)] by simp
    obtain r bs w where sys: "sys_recv (iov_total (hev_circular_buffer_writing buf)) i = Some (r, bs, w)"
      using assms(1) False by (auto simp: splice_in_def Let_def split: bind_splits)
    show ?thesis
      using sys_recv_orderly[OF sys assms(3) pos] False sys assms(1)
      by (auto simp: splice_in_def split: io_res.splits if_splits)
  qed
  then show "rx_orderly (net_rx i')" "res < 0 \<Longrightarrow> rx_bytes (net_rx i') = []" by auto
qed

text \<open>
  The state of one direction: \<open>closed\<close> ties the half-close of the receiving side to the end of the
  direction and an empty buffer; \<open>drained\<close> holds when neither side fails.
\<close>

definition closed :: "int \<Rightarrow> HevCircularBuffer \<Rightarrow> 'b net_scheme \<Rightarrow> bool" where
  "closed res buf out \<longleftrightarrow> (net_shut out \<longrightarrow> res < 0 \<and> cb_content buf = [])"

definition drained :: "int \<Rightarrow> HevCircularBuffer \<Rightarrow> 'a net_scheme \<Rightarrow> 'b net_scheme \<Rightarrow> bool" where
  "drained res buf i out \<longleftrightarrow> rx_orderly (net_rx i) \<and> tx_ready (net_tx out) \<and>
     (res < 0 \<longrightarrow> net_shut out \<and> cb_content buf = [] \<and> rx_bytes (net_rx i) = [])"

lemma splice_dir_step:
  assumes "splice_dir res buf i out = Some (res', buf', i', out')" and "cb_inv buf"
  shows "carried buf i out buf' i' out'" and "net_out i' = net_out i" and "net_tx i' = net_tx i"
    and "net_shut i' = net_shut i" and "net_rx out' = net_rx out"
    and "closed res buf out \<Longrightarrow> closed res' buf' out'"
    and "drained res buf i out \<Longrightarrow> drained res' buf' i' out'"
proof -
  have "carried buf i out buf' i' out' \<and> net_out i' = net_out i \<and> net_tx i' = net_tx i \<and>
      net_shut i' = net_shut i \<and> net_rx out' = net_rx out \<and> (closed res buf out \<longrightarrow> closed res' buf' out') \<and>
      (drained res buf i out \<longrightarrow> drained res' buf' i' out')"
  proof (cases "0 \<le> res")
    case True
    then obtain r1 b1 where i: "splice_in buf i = Some (r1, b1, i')" and o: "splice_out r1 b1 out = Some (res', buf', out')"
      using assms(1) by (auto simp: splice_dir_def task_io_splice_halves split: bind_splits)
    note si = splice_in_step[OF i assms(2)]
    note so = splice_out_step[OF o si(1)]
    have "carried buf i out buf' i' out'"
      using so si(2) unfolding carried_def by (metis append.assoc)
    moreover have "closed res buf out \<longrightarrow> closed res' buf' out'"
      using so True by (auto simp: closed_def)
    moreover have "drained res buf i out \<longrightarrow> drained res' buf' i' out'"
      using so splice_in_orderly[OF i assms(2)] by (auto simp: drained_def)
    ultimately show ?thesis using si so by blast
  next
    case False
    with assms show ?thesis by (auto simp: splice_dir_def carried_refl)
  qed
  then show "carried buf i out buf' i' out'" "net_out i' = net_out i" "net_tx i' = net_tx i"
    "net_shut i' = net_shut i" "net_rx out' = net_rx out" "closed res buf out \<Longrightarrow> closed res' buf' out'"
    "drained res buf i out \<Longrightarrow> drained res' buf' i' out'" by auto
qed

section \<open>The loop\<close>

lemmas splice_induct = splice_loop.raw_induct [rotated, consumes 1, case_names step]

text \<open>Everything that is kept by an iteration, for both directions.\<close>

definition spliced where
  "spliced rf bf rb bb a b rf' bf' rb' bb' a' b' \<longleftrightarrow>
     carried bf a b bf' a' b' \<and> carried bb b a bb' b' a' \<and>
     (closed rf bf b \<and> closed rb bb a \<longrightarrow> closed rf' bf' b' \<and> closed rb' bb' a') \<and>
     (drained rf bf a b \<and> drained rb bb b a \<longrightarrow> drained rf' bf' a' b' \<and> drained rb' bb' b' a')"

lemma spliced_trans:
  "spliced rf bf rb bb a b r1 b1 r2 b2 c d \<Longrightarrow> spliced r1 b1 r2 b2 c d rf' bf' rb' bb' a' b' \<Longrightarrow>
   spliced rf bf rb bb a b rf' bf' rb' bb' a' b'"
  unfolding spliced_def by (auto intro: carried_trans)

lemma spliced_iteration:
  assumes "splice_dir rf bf a b = Some (rf1, bf1, a1, b1)" and "splice_dir rb bb b1 a1 = Some (rb1, bb1, b2, a2)"
    and "cb_inv bf" and "cb_inv bb" and "same_net a2 a3"
  shows "spliced rf bf rb bb a b rf1 bf1 rb1 bb1 a3 b2"
proof -
  note f = splice_dir_step[OF assms(1,3)] and g = splice_dir_step[OF assms(2,4)]
  have "carried bf a b bf1 a3 b2" "carried bb b a bb1 b2 a3"
    using carried_cong[OF f(1), of a a3 b b2] carried_cong[OF g(1), of b b2 a a3] f g assms(5) by auto
  moreover have "closed rf1 bf1 b2 \<and> closed rb1 bb1 a3" if "closed rf bf b" "closed rb bb a"
    using f(4,6) g(4,6) assms(5) that by (auto simp: closed_def)
  moreover have "drained rf1 bf1 a3 b2 \<and> drained rb1 bb1 b2 a3" if "drained rf bf a b" "drained rb bb b a"
  proof -
    have d1: "drained rf1 bf1 a1 b1" using f(7) that by simp
    have "drained rb bb b1 a1" using that f(3,4,5) by (simp add: drained_def)
    from g(7)[OF this] d1 g(3,4,5) assms(5) show ?thesis by (auto simp: drained_def)
  qed
  ultimately show ?thesis by (simp add: spliced_def)
qed

context io_yielder
begin

lemma splice_loop_spliced:
  assumes "splice_loop yl rf bf rb bb a b = Some (rf', bf', rb', bb', a', b')" and "yl = yielder"
    and "cb_inv bf" and "cb_inv bb"
  shows "spliced rf bf rb bb a b rf' bf' rb' bb' a' b'"
  using assms
proof (induction "(rf', bf', rb', bb', a', b')" rule: splice_induct)
  case (step f yl rf bf rb bb a b)
  obtain rf1 bf1 a1 b1 where 1: "splice_dir rf bf a b = Some (rf1, bf1, a1, b1)"
    using step(2) by (auto split: bind_splits)
  obtain rb1 bb1 b2 a2 where 2: "splice_dir rb bb b1 a1 = Some (rb1, bb1, b2, a2)"
    using step(2) 1 by (auto split: bind_splits)
  note it = spliced_iteration[OF 1 2 step(4,5)]
  have i1: "cb_inv bf1" "cb_inv bb1" using it[OF same_net_refl] by (auto simp: spliced_def carried_def)
  show ?case
  proof (cases "0 < rf1 \<or> 0 < rb1 \<or> rf1 AND rb1 = 0")
    case True
    then obtain t y a3 where y: "yielder t a2 = Some (y, a3)"
      and r: "(if y \<noteq> 0 then Some (rf1, bf1, rb1, bb1, a3, b2) else f yielder rf1 bf1 rb1 bb1 a3 b2) =
        Some (rf', bf', rb', bb', a', b')"
      using step(2,3) 1 2 by (auto split: bind_splits if_splits)
    note it3 = it[OF yielder_keeps[OF y]]
    show ?thesis
    proof (cases "y = 0")
      case True
      with r have "f yielder rf1 bf1 rb1 bb1 a3 b2 = Some (rf', bf', rb', bb', a', b')" by simp
      from spliced_trans[OF it3 step(1)[OF this refl i1]] show ?thesis .
    next
      case False
      with r it3 show ?thesis by simp
    qed
  next
    case False
    with step(2) 1 2 it[OF same_net_refl] show ?thesis by simp
  qed
qed

end

section \<open>Properties\<close>

lemma splice_spliced:
  assumes "hev_task_io_splice hev_socks5_task_io_yielder (Some m1) (Some m2) n a b =
      Some (Some (rf, bf, rb, bb), a', b')"
    and "length m1 = unat n" and "length m2 = unat n" and "0 < n" and "unat n < 2 ^ 63"
  shows "\<exists>bf0 bb0. cb_content bf0 = [] \<and> cb_content bb0 = [] \<and> spliced 1 bf0 1 bb0 a b rf bf rb bb a' b'"
proof -
  obtain bf0 bb0 where new: "hev_circular_buffer_new (Some m1) n = Some bf0" "hev_circular_buffer_new (Some m2) n = Some bb0"
    by (auto simp: hev_circular_buffer_new_def)
  then have "cb_content bf0 = []" "cb_content bb0 = []"
    by (auto simp: hev_circular_buffer_new_def cb_content_def cb_ring_def rb_content_def)
  moreover have "splice_loop hev_socks5_task_io_yielder 1 bf0 1 bb0 a b = Some (rf, bf, rb, bb, a', b')"
    using assms(1) new by (auto simp: hev_task_io_splice_def task_io_splicer_init_def)
  ultimately show ?thesis
    using s5y.splice_loop_spliced[OF _ refl cb_inv_new[OF assms(2,4,5) new(1)] cb_inv_new[OF assms(3,4,5) new(2)]]
    by blast
qed

text \<open>
  C15: Whenever the copy loop ends, for whatever reason (end of streams, a failing socket, a
  terminated session), it has been transparent in both directions: the bytes written to one side
  are a prefix of the bytes the other side sent, in order, without loss or duplication; what was
  read and not written is still in the buffer of that direction; and a side is shut down for
  writing only after everything read for it has been delivered.
\<close>

theorem splice_transparent:
  assumes "hev_task_io_splice hev_socks5_task_io_yielder (Some m1) (Some m2) n a b =
      Some (Some (rf, bf, rb, bb), a', b')"
    and "length m1 = unat n" and "length m2 = unat n" and "0 < n" and "unat n < 2 ^ 63"
    and "\<not> net_shut a" and "\<not> net_shut b"
  shows "(\<exists>s. net_out b' = net_out b @ s \<and> s @ cb_content bf @ rx_bytes (net_rx a') = rx_bytes (net_rx a)) \<and>
     (\<exists>s. net_out a' = net_out a @ s \<and> s @ cb_content bb @ rx_bytes (net_rx b') = rx_bytes (net_rx b)) \<and>
     (net_shut b' \<longrightarrow> cb_content bf = []) \<and> (net_shut a' \<longrightarrow> cb_content bb = [])"
proof -
  obtain bf0 bb0 where "cb_content bf0 = []" "cb_content bb0 = []" "spliced 1 bf0 1 bb0 a b rf bf rb bb a' b'"
    using splice_spliced[OF assms(1-5)] by blast
  with assms(6,7) show ?thesis by (simp add: spliced_def carried_def closed_def)
qed

text \<open>
  C16: If the loop ends by itself and neither socket failed, the two streams have been delivered
  completely: each side has received everything the other side sent before closing, and has then
  been shut down for writing.
\<close>

theorem splice_complete:
  assumes "hev_task_io_splice hev_socks5_task_io_yielder (Some m1) (Some m2) n a b =
      Some (Some (rf, bf, rb, bb), a', b')"
    and "length m1 = unat n" and "length m2 = unat n" and "0 < n" and "unat n < 2 ^ 63"
    and "rx_orderly (net_rx a)" and "rx_orderly (net_rx b)" and "tx_ready (net_tx a)" and "tx_ready (net_tx b)"
    and "rf < 0" and "rb < 0"
  shows "net_out b' = net_out b @ rx_bytes (net_rx a) \<and> net_out a' = net_out a @ rx_bytes (net_rx b) \<and>
     net_shut a' \<and> net_shut b'"
proof -
  obtain bf0 bb0 where "cb_content bf0 = []" "cb_content bb0 = []" "spliced 1 bf0 1 bb0 a b rf bf rb bb a' b'"
    using splice_spliced[OF assms(1-5)] by blast
  with assms(6-11) show ?thesis by (auto simp: spliced_def carried_def drained_def)
qed

text \<open>Two peers that say a few bytes and close.\<close>

definition sample_a :: HevSocks5 where
  "sample_a = idle_socks5 [RxData [1, 2, 3], RxEof] [TxOk 1, TxOk 9]"

definition sample_b :: net where
  "sample_b = \<lparr>net_rx = [RxAgain, RxData [7, 8], RxEof], net_tx = [TxOk 2, TxOk 2], net_conn = [],
     net_out = [], net_shut = False, net_junk = (\<lambda>_. 0)\<rparr>"

declare splice_loop.simps [code]

definition sample_run where
  "sample_run = hev_task_io_splice hev_socks5_task_io_yielder (Some [0, 0, 0, 0]) (Some [0, 0, 0, 0]) 4 sample_a sample_b"

lemma sample_run_value:
  "map_option (\<lambda>(r, a, b). (map_option (\<lambda>(rf, bf, rb, bb). (rf, rb)) r, net_out a, net_out b)) sample_run =
     Some (Some (-1, -1), [7, 8], [1, 2, 3])"
  by code_simp

lemma sample_run_obtain:
  obtains bf bb a b where "sample_run = Some (Some (-1, bf, -1, bb), a, b)" "net_out a = [7, 8]" "net_out b = [1, 2, 3]"
  using sample_run_value by auto

lemma sample_peers [simp]:
  "\<not> net_shut sample_a" "\<not> net_shut sample_b" "net_out sample_a = []" "net_out sample_b = []"
  "rx_bytes (net_rx sample_a) = [1, 2, 3]" "rx_bytes (net_rx sample_b) = [7, 8]"
  "rx_orderly (net_rx sample_a)" "rx_orderly (net_rx sample_b)" "tx_ready (net_tx sample_a)" "tx_ready (net_tx sample_b)"
  by (simp_all add: sample_a_def sample_b_def) (simp add: idle_socks5_def hev_socks5_construct_def)

theorem splice_transparent_witness:
  "\<exists>r a b. sample_run = Some (r, a, b) \<and> (\<exists>s t. net_out b = s \<and> s @ t = [1, 2, 3])"
proof -
  obtain bf bb a b where r: "sample_run = Some (Some (-1, bf, -1, bb), a, b)"
    by (rule sample_run_obtain)
  from splice_transparent[OF r[unfolded sample_run_def]] have
    "\<exists>s. net_out b = s \<and> s @ cb_content bf @ rx_bytes (net_rx a) = [1, 2, 3]" by simp
  with r show ?thesis by blast
qed

theorem splice_complete_witness:
  "\<exists>r a b. sample_run = Some (r, a, b) \<and> net_out b = [1, 2, 3] \<and> net_out a = [7, 8] \<and> net_shut a \<and> net_shut b"
proof -
  obtain bf bb a b where r: "sample_run = Some (Some (-1, bf, -1, bb), a, b)"
    by (rule sample_run_obtain)
  from splice_complete[OF r[unfolded sample_run_def]] have
    "net_out b = [1, 2, 3] \<and> net_out a = [7, 8] \<and> net_shut a \<and> net_shut b" by simp
  with r show ?thesis by blast
qed

end
