(* ===== verification/Socks5_UDP.thy ===== *)
theory Socks5_UDP
  imports Socks5_Handshake
begin

text \<open>
  Datagrams over SOCKS5 (\<open>core/src/hev-socks5-udp.c\<close>): the framing of UDP datagrams inside the
  control stream (\<open>UDP_IN_TCP\<close>) and the header of datagrams relayed through a UDP socket
  (\<open>UDP_IN_UDP\<close>), for the client objects that the tunnel uses.
\<close>

section \<open>The datagram socket\<close>

text \<open>
  \<open>recvfrom\<close> takes one datagram and cuts it to the buffer; \<open>sendmsg\<close> sends a datagram whole or not
  at all.  The retry loops around them are those of \<open>hev-task-io-socket.c\<close>.
\<close>

definition dg_recvfrom ::
  "nat \<Rightarrow> 'a HevSocks5ClientUDP_scheme \<Rightarrow> (io_res \<times> byte list \<times> 'a HevSocks5ClientUDP_scheme) option" where
  "dg_recvfrom len self =
     (case cu_rx self of
        [] \<Rightarrow> None
      | DgData d # es \<Rightarrow> Some (Ret (int (min len (length d))), take len d, self\<lparr>cu_rx := es\<rparr>)
      | DgAgain # es \<Rightarrow> Some (Eagain, [], self\<lparr>cu_rx := es\<rparr>)
      | DgErr # es \<Rightarrow> Some (Ret (-1), [], self\<lparr>cu_rx := es\<rparr>))"

definition dg_sendmsg ::
  "byte list \<Rightarrow> 'a HevSocks5ClientUDP_scheme \<Rightarrow> (io_res \<times> 'a HevSocks5ClientUDP_scheme) option" where
  "dg_sendmsg bs self =
     (case cu_tx self of
        [] \<Rightarrow> None
      | TxOk k # es \<Rightarrow> Some (Ret (int (length bs)), self\<lparr>cu_tx := es, cu_out := cu_out self @ [bs]\<rparr>)
      | TxAgain # es \<Rightarrow> Some (Eagain, self\<lparr>cu_tx := es\<rparr>)
      | TxErr # es \<Rightarrow> Some (Ret (-1), self\<lparr>cu_tx := es\<rparr>))"

type_synonym 'a udp_yielder =
  "HevTaskYieldType \<Rightarrow> 'a HevSocks5ClientUDP_scheme \<Rightarrow> (int \<times> 'a HevSocks5ClientUDP_scheme) option"

text \<open>The address of the sender is not part of the model: the caller connects the socket to it and forgets it.\<close>

partial_function (option) hev_task_io_socket_recvfrom ::
  "'a udp_yielder \<Rightarrow> bool \<Rightarrow> nat \<Rightarrow> byte list \<Rightarrow> 'a HevSocks5ClientUDP_scheme \<Rightarrow>
   (int \<times> byte list \<times> 'a HevSocks5ClientUDP_scheme) option" where
  "hev_task_io_socket_recvfrom yielder waitall len got w =
     Option.bind (dg_recvfrom (len - length got) w) (\<lambda>(r, bs, w).
       case r of
         Eagain \<Rightarrow>
           Option.bind (yielder HEV_TASK_WAITIO w) (\<lambda>(y, w).
             if y \<noteq> 0 then Some (-2, got, w) else hev_task_io_socket_recvfrom yielder waitall len got w)
       | Ret s \<Rightarrow>
           if \<not> waitall then Some (s, got @ bs, w)
           else if s \<le> 0 then (if got \<noteq> [] then Some (int (length got), got, w) else Some (s, got, w))
           else if length (got @ bs) < len
             then hev_task_io_socket_recvfrom yielder waitall len (got @ bs) w
             else Some (int (length (got @ bs)), got @ bs, w))"

text \<open>\<open>hev_task_io_socket_sendmsg\<close> again, on the datagram socket.\<close>

partial_function (option) dgram_sendmsg ::
  "'a udp_yielder \<Rightarrow> bool \<Rightarrow> nat \<Rightarrow> byte list list \<Rightarrow> nat \<Rightarrow> 'a HevSocks5ClientUDP_scheme \<Rightarrow>
   (int \<times> 'a HevSocks5ClientUDP_scheme) option" where
  "dgram_sendmsg yielder waitall len iov sent w =
     Option.bind (dg_sendmsg (concat iov) w) (\<lambda>(r, w).
       case r of
         Eagain \<Rightarrow>
           Option.bind (yielder HEV_TASK_WAITIO w) (\<lambda>(y, w).
             if y \<noteq> 0 then Some (-2, w) else dgram_sendmsg yielder waitall len iov sent w)
       | Ret s \<Rightarrow>
           if \<not> waitall then Some (s, w)
           else if s \<le> 0 then (if sent \<noteq> 0 then Some (int sent, w) else Some (s, w))
           else if sent + nat s < len
             then dgram_sendmsg yielder waitall len (iov_advance (nat s) iov) (sent + nat s) w
             else Some (int (sent + nat s), w))"

declare hev_task_io_socket_recvfrom.simps [code] dgram_sendmsg.simps [code]

section \<open>hev-socks5-udp.c\<close>

text \<open>A single non-blocking \<open>recv\<close> on the control connection: an exhausted script means nothing is there.\<close>

definition sys_recv_now :: "nat \<Rightarrow> 'a net_scheme \<Rightarrow> io_res \<times> 'a net_scheme" where
  "sys_recv_now len w = (case sys_recv len w of None \<Rightarrow> (Eagain, w) | Some (r, bs, w) \<Rightarrow> (r, w))"

definition task_io_yielder ::
  "HevTaskYieldType \<Rightarrow> 'a HevSocks5_scheme \<Rightarrow> (int \<times> 'a HevSocks5_scheme) option" where
  "task_io_yielder type self =
     (if s5_type self = HEV_SOCKS5_TYPE_UDP_IN_UDP then
        (case sys_recv_now 1 self of
           (Eagain, self) \<Rightarrow> hev_socks5_task_io_yielder type self
         | (Ret res, self) \<Rightarrow>
             if res \<le> 0 then Some (-1, hev_socks5_set_timeout 0 self)
             else hev_socks5_task_io_yielder type self)
      else hev_socks5_task_io_yielder type self)"

text \<open>The first three bytes of a message: length of the data, length of the header.\<close>

definition udp_hdr :: "HevSocks5Type \<Rightarrow> nat \<Rightarrow> int \<Rightarrow> byte list option" where
  "udp_hdr type len addrlen =
     (case type of
        HEV_SOCKS5_TYPE_UDP_IN_TCP \<Rightarrow> Some (u16_mem (ntohs (of_nat len)) @ [of_int (3 + addrlen)])
      | HEV_SOCKS5_TYPE_UDP_IN_UDP \<Rightarrow> Some [0, 0, 0]
      | _ \<Rightarrow> None)"

definition hev_socks5_udp_sendto ::
  "byte list \<Rightarrow> HevSocks5Addr \<Rightarrow> 'a HevSocks5ClientUDP_scheme \<Rightarrow> (int \<times> 'a HevSocks5ClientUDP_scheme) option" where
  "hev_socks5_udp_sendto buf addr self =
     (let addrlen = hev_socks5_addr_len addr in
      if addrlen \<le> 0 then Some (-1, self)
      else case udp_hdr (s5_type self) (length buf) addrlen of
        None \<Rightarrow> Some (-1, self)
      | Some hdr \<Rightarrow>
          let iov = [hdr, take (nat addrlen) addr, buf] in
          if s5_type self = HEV_SOCKS5_TYPE_UDP_IN_TCP
          then hev_task_io_socket_sendmsg task_io_yielder True (length (concat iov)) iov 0 self
          else dgram_sendmsg task_io_yielder True (length (concat iov)) iov 0 self)"

text \<open>
  The caller's memory \<open>addr\<close> (a \<open>HevSocks5Addr\<close>) and \<open>buf\<close> (\<open>length buf\<close> is the \<open>len\<close> of the source)
  is passed in and returned; the two are the objects 0 and 1 that \<open>recvmsg\<close> stores into, the first at
  the offset of \<open>domain.addr\<close>.  \<open>iov_len = hdrlen - 5\<close> is computed in \<open>int\<close> and converted to \<open>size_t\<close>.
\<close>

definition hev_socks5_udp_recvfrom_tcp ::
  "byte list \<Rightarrow> HevSocks5Addr \<Rightarrow> 'a HevSocks5ClientUDP_scheme \<Rightarrow>
   (int \<times> byte list \<times> HevSocks5Addr \<times> 'a HevSocks5ClientUDP_scheme) option" where
  "hev_socks5_udp_recvfrom_tcp buf addr self = do {
     (res, got, self) \<leftarrow> hev_task_io_socket_recv task_io_yielder True 5 [] self;
     if res \<le> 0 then Some (res, buf, addr, self)
     else do {
       let udp = fill (net_junk self) 5 got;
       let datlen = unat (ntohs (mem_u16 (take 2 udp)));
       if length buf < datlen then Some (-1, buf, addr, self)
       else do {
         let hlen = unat (of_int (uint (udp ! 2) - 5) :: u64);
         let iov = [\<lparr>mv_obj = 0, mv_base = 2, mv_len = hlen\<rparr>, \<lparr>mv_obj = 1, mv_base = 0, mv_len = datlen\<rparr>];
         (res, mem, self) \<leftarrow> hev_task_io_socket_recvmsg task_io_yielder True
            ((hlen + datlen) mod 2 ^ 64) iov 0 [addr, buf] self;
         if res \<le> 0 then Some (res, mem ! 1, mem ! 0, self)
         else Some (int datlen, mem ! 1, (mem ! 0)[0 := udp ! 3, 1 := udp ! 4], self) } } }"

definition hev_socks5_udp_recvfrom_udp ::
  "byte list \<Rightarrow> HevSocks5Addr \<Rightarrow> 'a HevSocks5ClientUDP_scheme \<Rightarrow>
   (int \<times> byte list \<times> HevSocks5Addr \<times> 'a HevSocks5ClientUDP_scheme) option" where
  "hev_socks5_udp_recvfrom_udp buf addr self = do {
     let first = (s5_udp_associated self = 0);
     (rlen, got, self) \<leftarrow> hev_task_io_socket_recvfrom task_io_yielder False 1500 []
       (if first then self\<lparr>s5_udp_associated := 1\<rparr> else self);
     if rlen < 4 then Some (rlen, buf, addr, self)
     else do {
       (res, self) \<leftarrow> (if first then sys_result self else Some (0, self));
       if res < 0 then Some (-1, buf, addr, self)
       else
         let rbuf = fill (net_junk self) 1500 got;
             udp_addr = drop 3 rbuf;
             addrlen = hev_socks5_addr_len udp_addr in
         if addrlen \<le> 0 then Some (-1, buf, addr, self)
         else if 3 + addrlen > rlen then Some (-1, buf, addr, self)
         else
           let doff = nat (3 + addrlen);
               rlen = min (nat rlen - doff) (length buf) in
           Some (int rlen, overwrite buf 0 (chunk rbuf doff rlen),
                 overwrite addr 0 (take (nat addrlen) udp_addr), self) } }"

definition hev_socks5_udp_recvfrom ::
  "byte list \<Rightarrow> HevSocks5Addr \<Rightarrow> 'a HevSocks5ClientUDP_scheme \<Rightarrow>
   (int \<times> byte list \<times> HevSocks5Addr \<times> 'a HevSocks5ClientUDP_scheme) option" where
  "hev_socks5_udp_recvfrom buf addr self =
     (case s5_type self of
        HEV_SOCKS5_TYPE_UDP_IN_TCP \<Rightarrow> hev_socks5_udp_recvfrom_tcp buf addr self
      | HEV_SOCKS5_TYPE_UDP_IN_UDP \<Rightarrow> hev_socks5_udp_recvfrom_udp buf addr self
      | _ \<Rightarrow> Some (-1, buf, addr, self))"

section \<open>Framing inside the control stream\<close>

text \<open>
  Two yielders that agree on the states in question are interchangeable; the yielder of this file
  is the common one as long as the object is not of type \<open>UDP_IN_UDP\<close>.
\<close>

lemma recv_yielder_imp:
  assumes "hev_task_io_socket_recv y1 wa len got w = Some r" and "P w"
    and "\<And>t v. P v \<Longrightarrow> y1 t v = y2 t v" and "\<And>t v x v'. P v \<Longrightarrow> y2 t v = Some (x, v') \<Longrightarrow> P v'"
    and "\<And>v es. P v \<Longrightarrow> P (v\<lparr>net_rx := es\<rparr>)"
  shows "hev_task_io_socket_recv y2 wa len got w = Some r"
  using assms(1,2,3)
proof (induction rule: recv_induct)
  case (step f yl wa len got w r)
  from step(2) obtain r1 bs w1 where sys: "sys_recv (len - length got) w = Some (r1, bs, w1)"
    by (auto split: bind_splits)
  then have w1: "P w1"
    using step.prems(1) assms(5) by (auto simp: sys_recv_def Let_def split: list.splits rx_ev.splits if_splits)
  show ?case
  proof (cases r1)
    case (Ret s)
    with step(1)[of yl wa len "got @ bs" w1 r] step(2-) sys w1 show ?thesis
      by (subst hev_task_io_socket_recv.simps) (auto split: if_splits)
  next
    case Eagain
    with step(2) sys obtain y w2 where y: "yl HEV_TASK_WAITIO w1 = Some (y, w2)"
      by (auto split: bind_splits)
    then have "y2 HEV_TASK_WAITIO w1 = Some (y, w2)" "P w2" using step.prems(2) w1 assms(4) by auto
    with step(1)[of yl wa len got w2 r] step(2-) Eagain sys y show ?thesis
      by (subst hev_task_io_socket_recv.simps) (auto split: if_splits)
  qed
qed

lemma send_yielder_imp:
  assumes "hev_task_io_socket_send y1 wa buf sent w = Some r" and "P w"
    and "\<And>t v. P v \<Longrightarrow> y1 t v = y2 t v" and "\<And>t v x v'. P v \<Longrightarrow> y2 t v = Some (x, v') \<Longrightarrow> P v'"
    and "\<And>v es out. P v \<Longrightarrow> P (v\<lparr>net_tx := es, net_out := out\<rparr>)"
  shows "hev_task_io_socket_send y2 wa buf sent w = Some r"
  using assms(1,2,3)
proof (induction rule: send_induct)
  case (step f yl wa buf sent w r)
  from step(2) obtain r1 w1 where sys: "sys_send (drop sent buf) w = Some (r1, w1)"
    by (auto split: bind_splits)
  have "P (w\<lparr>net_tx := es\<rparr>)" for es using assms(5)[where es = es and out = "net_out w", OF step.prems(1)] by simp
  then have w1: "P w1"
    using sys step.prems(1) assms(5) by (auto simp: sys_send_def Let_def split: list.splits tx_ev.splits if_splits)
  show ?case
  proof (cases r1)
    case (Ret s)
    with step(1)[of yl wa buf "sent + nat s" w1 r] step(2-) sys w1 show ?thesis
      by (subst hev_task_io_socket_send.simps) (auto split: if_splits)
  next
    case Eagain
    with step(2) sys obtain y w2 where y: "yl HEV_TASK_WAITIO w1 = Some (y, w2)"
      by (auto split: bind_splits)
    then have "y2 HEV_TASK_WAITIO w1 = Some (y, w2)" "P w2" using step.prems(2) w1 assms(4) by auto
    with step(1)[of yl wa buf sent w2 r] step(2-) Eagain sys y show ?thesis
      by (subst hev_task_io_socket_send.simps) (auto split: if_splits)
  qed
qed

lemma yielder_keeps_type: "hev_socks5_task_io_yielder t v = Some (x, v') \<Longrightarrow> s5_type v' = s5_type v"
  by (auto simp: hev_socks5_task_io_yielder_def hev_task_sleep_def hev_task_yield_def split: if_splits)

lemma yielder_in_tcp: "s5_type v \<noteq> HEV_SOCKS5_TYPE_UDP_IN_UDP \<Longrightarrow> task_io_yielder t v = hev_socks5_task_io_yielder t v"
  by (simp add: task_io_yielder_def)

lemma recv_in_tcp:
  assumes "s5_type w \<noteq> HEV_SOCKS5_TYPE_UDP_IN_UDP"
  shows "hev_task_io_socket_recv task_io_yielder wa len got w =
     hev_task_io_socket_recv hev_socks5_task_io_yielder wa len got w"
proof (rule option_eqI, rule iffI)
  let ?P = "\<lambda>v. s5_type v \<noteq> HEV_SOCKS5_TYPE_UDP_IN_UDP"
  fix r
  show "hev_task_io_socket_recv hev_socks5_task_io_yielder wa len got w = Some r"
    if "hev_task_io_socket_recv task_io_yielder wa len got w = Some r"
    using assms by (intro recv_yielder_imp[where P = ?P, OF that]) (auto simp: yielder_in_tcp dest: yielder_keeps_type)
  show "hev_task_io_socket_recv task_io_yielder wa len got w = Some r"
    if "hev_task_io_socket_recv hev_socks5_task_io_yielder wa len got w = Some r"
    using assms by (intro recv_yielder_imp[where P = ?P, OF that]) (auto simp: yielder_in_tcp dest: yielder_keeps_type)
qed

lemma send_in_tcp:
  assumes "s5_type w \<noteq> HEV_SOCKS5_TYPE_UDP_IN_UDP"
  shows "hev_task_io_socket_send task_io_yielder wa buf sent w =
     hev_task_io_socket_send hev_socks5_task_io_yielder wa buf sent w"
proof (rule option_eqI, rule iffI)
  let ?P = "\<lambda>v. s5_type v \<noteq> HEV_SOCKS5_TYPE_UDP_IN_UDP"
  fix r
  show "hev_task_io_socket_send hev_socks5_task_io_yielder wa buf sent w = Some r"
    if "hev_task_io_socket_send task_io_yielder wa buf sent w = Some r"
    using assms by (intro send_yielder_imp[where P = ?P, OF that]) (auto simp: yielder_in_tcp dest: yielder_keeps_type)
  show "hev_task_io_socket_send task_io_yielder wa buf sent w = Some r"
    if "hev_task_io_socket_send hev_socks5_task_io_yielder wa buf sent w = Some r"
    using assms by (intro send_yielder_imp[where P = ?P, OF that]) (auto simp: yielder_in_tcp dest: yielder_keeps_type)
qed

text \<open>What \<open>sendto\<close> puts on the stream for the data \<open>buf\<close> and the address \<open>e\<close>.\<close>

definition udp_frame :: "byte list \<Rightarrow> endpoint \<Rightarrow> byte list" where
  "udp_frame buf e =
     u16_mem (ntohs (of_nat (length buf))) @ [of_nat (3 + length (addr_encode e))] @ addr_encode e @ buf"

lemma addr_len_decode:
  assumes "addr_decode addr = Some e"
  shows "hev_socks5_addr_len addr = int (length (addr_encode e))"
proof -
  have "nat (hev_socks5_addr_len addr) \<le> length addr" "0 \<le> hev_socks5_addr_len addr"
    using assms by (cases rule: addr_decode_cases; simp add: hev_socks5_addr_len_def proto_defs nat_add_distrib)+
  then show ?thesis using addr_encode_decode(2)[OF assms] by simp
qed

lemma addr_encode_pos: "0 < length (addr_encode e)"
  by (cases e) auto

lemma sendto_tcp:
  assumes "s5_type w = HEV_SOCKS5_TYPE_UDP_IN_TCP" and "addr_decode addr = Some e"
  shows "hev_socks5_udp_sendto buf addr w =
     hev_task_io_socket_send hev_socks5_task_io_yielder True (udp_frame buf e) 0 w"
proof -
  let ?iov = "[u16_mem (ntohs (of_nat (length buf))) @ [of_nat (3 + length (addr_encode e))], addr_encode e, buf]"
  have frame: "concat ?iov = udp_frame buf e" by (simp add: udp_frame_def)
  have "take (nat (hev_socks5_addr_len addr)) addr = addr_encode e"
    using addr_encode_decode(2)[OF assms(2)] by simp
  then have "hev_socks5_udp_sendto buf addr w =
      hev_task_io_socket_sendmsg task_io_yielder True (length (concat ?iov)) ?iov 0 w"
    using assms(1) addr_len_decode[OF assms(2)] addr_encode_pos[of e]
    by (simp add: hev_socks5_udp_sendto_def udp_hdr_def Let_def del: length_concat)
  also have "\<dots> = hev_task_io_socket_send task_io_yielder True (concat ?iov) 0 w"
    by (rule sendmsg_eq_send)
  also have "\<dots> = hev_task_io_socket_send hev_socks5_task_io_yielder True (udp_frame buf e) 0 w"
    unfolding frame using send_in_tcp[of w] assms(1) by simp
  finally show ?thesis .
qed

lemma udp_frame_ne: "udp_frame buf e \<noteq> []"
  by (simp add: udp_frame_def)

lemma frame_split:
  assumes "endpoint_ok e"
  obtains t n a where "addr_encode e = t # n # a" and "a \<noteq> []"
  using assms by (cases e) (auto simp: length_Suc_conv numeral_eq_Suc u16_mem_def)

lemma recvfrom_frame:
  assumes "clean w" and "s5_calm w" and "s5_type w = HEV_SOCKS5_TYPE_UDP_IN_TCP" and "endpoint_ok e"
    and "length data < 2 ^ 16" and "length (addr_encode e) \<le> 252"
    and "rx_bytes (net_rx w) = udp_frame data e @ rest"
    and "length mem = sizeof_addr" and "length data \<le> length buf"
  shows "\<exists>mem' w'. hev_socks5_udp_recvfrom buf mem w =
      Some (int (length data), overwrite buf 0 data, mem', w') \<and> addr_decode mem' = Some e \<and>
      length mem' = sizeof_addr \<and> goes w (udp_frame data e) [] w' \<and> s5_type w' = s5_type w"
proof -
  obtain t n a where a: "addr_encode e = t # n # a" and ane: "a \<noteq> []" using frame_split[OF assms(4)] .
  define h where "h = u16_mem (ntohs (of_nat (length data))) @ [of_nat (3 + length (addr_encode e)), t, n]"
  have hl: "length h = 5" by (simp add: h_def)
  have frame: "udp_frame data e = h @ a @ data" by (simp add: udp_frame_def h_def a)
  have rx: "rx_bytes (net_rx w) = h @ a @ data @ rest" using assms(7) frame by simp
  obtain w1 where 1: "hev_task_io_socket_recv hev_socks5_task_io_yielder True 5 [] w = Some (5, h, w1)"
    and g1: "goes w h [] w1" and f1: "s5_frame w1 = s5_frame w"
    by (rule recv_all_goes[OF assms(1,2) rx]) (use hl in auto)
  have t1: "s5_type w1 = HEV_SOCKS5_TYPE_UDP_IN_TCP" using s5_frameD(3)[OF f1] assms(3) by simp
  have dat: "unat (ntohs (mem_u16 (take 2 h))) = length data"
    using assms(5) by (simp add: h_def unat_of_nat)
  have la: "2 + length a \<le> 252" using assms(6) a by simp
  have "h ! 2 = of_nat (5 + length a)" using a by (simp add: h_def nth_append)
  moreover have "unat (of_nat (5 + length a) :: byte) = 5 + length a" using la by (subst unat_of_nat) simp
  ultimately have "unat (h ! 2) = 5 + length a" by simp
  then have hdr: "uint (h ! 2) = int (5 + length a)" by (metis of_nat_unat)
  have hlen: "unat (of_int (uint (h ! 2) - 5) :: u64) = length a"
    using la by (simp add: hdr unat_of_nat)
  have total: "(length a + length data) mod 2 ^ 64 = length a + length data"
    using la assms(5) by simp
  have rx1: "rx_bytes (net_rx w1) = (a @ data) @ rest" using goesD(4)[OF g1] rx by simp
  have ne: "a @ data \<noteq> []" using ane by simp
  obtain w2 where 2: "hev_task_io_socket_recv hev_socks5_task_io_yielder True (length (a @ data)) [] w1 =
      Some (int (length (a @ data)), a @ data, w2)" and g2: "goes w1 (a @ data) [] w2" and f2: "s5_frame w2 = s5_frame w1"
    by (rule recv_all_goes[OF goesD(1,2)[OF g1] rx1 ne])
  let ?iov = "[\<lparr>mv_obj = 0, mv_base = 2, mv_len = length a\<rparr>, \<lparr>mv_obj = 1, mv_base = 0, mv_len = length data\<rparr>]"
  have tot: "mv_total ?iov = length a + length data" by (simp add: mv_total_def)
  then have "mv_total ?iov \<le> ssize_max" using la assms(5) by (simp add: ssize_max_def)
  moreover have "mem_scatter ?iov (a @ data) [mem, buf] = Some [overwrite mem 2 a, overwrite buf 0 data]"
    using la assms(8,9) by (auto simp: mem_store_def sizeof_addr_def)
  ultimately have msg: "hev_task_io_socket_recvmsg task_io_yielder True (length a + length data) ?iov 0 [mem, buf] w1 =
      Some (int (length (a @ data)), [overwrite mem 2 a, overwrite buf 0 data], w2)"
    using recvmsg_eq_recv[of ?iov task_io_yielder True "[mem, buf]" w1] 2 recv_in_tcp[of w1] t1 tot by (simp del: mem_scatter.simps)
  have "hev_socks5_udp_recvfrom buf mem w = Some (int (length data), overwrite buf 0 data, (overwrite mem 2 a)[0 := h ! 3, 1 := h ! 4], w2)"
    using assms(3,9) 1 recv_in_tcp[of w] ane hl dat hlen total msg
    by (simp add: hev_socks5_udp_recvfrom_def hev_socks5_udp_recvfrom_tcp_def Let_def) (cases a; simp)
  moreover have "(overwrite mem 2 a)[0 := h ! 3, 1 := h ! 4] = addr_encode e @ drop (2 + length a) mem"
  proof -
    obtain x y m where "mem = x # y # m"
      using assms(8) by (cases mem rule: list.exhaust; cases "tl mem") (auto simp: sizeof_addr_def)
    then show ?thesis using a by (simp add: overwrite_def h_def nth_append)
  qed
  moreover have "length (addr_encode e @ drop (2 + length a) mem) = sizeof_addr"
    using assms(8) a la by (simp add: sizeof_addr_def)
  ultimately show ?thesis
    using goes_trans[OF g1 g2] frame addr_decode_encode[OF assms(4)] s5_frameD(3)[OF f1] s5_frameD(3)[OF f2] by simp
qed

text \<open>A header length below 5 makes the length of the first region negative, which \<open>recvmsg\<close> refuses.\<close>

lemma recvfrom_bad_header:
  assumes "clean w" and "s5_calm w" and "s5_type w = HEV_SOCKS5_TYPE_UDP_IN_TCP"
    and "rx_bytes (net_rx w) = f @ rest" and "5 \<le> length f" and "unat (f ! 2) < 5"
    and "unat (ntohs (mem_u16 (take 2 f))) \<le> length buf"
  shows "\<exists>w'. hev_socks5_udp_recvfrom buf mem w = Some (-1, buf, mem, w') \<and> rx_bytes (net_rx w') = drop 5 f @ rest"
proof -
  let ?h = "take 5 f"
  have rx: "rx_bytes (net_rx w) = ?h @ drop 5 f @ rest" using assms(4) append_take_drop_id[of 5 f] by simp
  obtain w1 where 1: "hev_task_io_socket_recv hev_socks5_task_io_yielder True 5 [] w = Some (5, ?h, w1)" and g: "goes w ?h [] w1"
    by (rule recv_all_goes[OF assms(1,2) rx]) (use assms(5) in auto)
  have fill: "fill k 5 ?h = ?h" for k using assms(5) by (simp add: fill_def)
  have "ssize_max < unat (of_int (int k - 5) :: u64)" if "k < 5" for k
  proof -
    from that have "k = 0 \<or> k = 1 \<or> k = 2 \<or> k = 3 \<or> k = 4" by linarith
    then show ?thesis by (auto simp: ssize_max_def unsigned_minus_1_eq_mask mask_eq_exp_minus_1)
  qed
  from this[OF assms(6)] have "ssize_max < unat (of_int (uint (f ! 2) - 5) :: u64)" by simp
  then have "hev_task_io_socket_recvmsg yl True len [\<lparr>mv_obj = a, mv_base = b, mv_len = unat (of_int (uint (f ! 2) - 5) :: u64)\<rparr>, v] 0 m w1 =
      Some (-1, m, w1)" for yl len a b v m
    by (subst hev_task_io_socket_recvmsg.simps) (simp add: sys_recvmsg_def mv_total_def)
  then have "hev_socks5_udp_recvfrom buf mem w = Some (-1, buf, mem, w1)"
    using 1 assms(3,5,7) fill recv_in_tcp[of w]
    by (simp add: hev_socks5_udp_recvfrom_def hev_socks5_udp_recvfrom_tcp_def Let_def min_def)
  moreover have "rx_bytes (net_rx w1) = drop 5 f @ rest" using goesD(4)[OF g] rx by simp
  ultimately show ?thesis by blast
qed

lemma sendto_frame:
  assumes "clean s" and "s5_calm s" and "s5_type s = HEV_SOCKS5_TYPE_UDP_IN_TCP" and "addr_decode addr = Some e"
    and "length (udp_frame data e) \<le> tx_room (net_tx s)"
  obtains s' where "hev_socks5_udp_sendto data addr s = Some (int (length (udp_frame data e)), s')"
    and "goes s [] (udp_frame data e) s'" and "s5_type s' = s5_type s"
proof -
  obtain s' where "hev_task_io_socket_send hev_socks5_task_io_yielder True (udp_frame data e) 0 s =
      Some (int (length (udp_frame data e)), s')" "goes s [] (udp_frame data e) s'" and f: "s5_frame s' = s5_frame s"
    by (rule send_goes[OF assms(1,2,5) udp_frame_ne])
  with that sendto_tcp[OF assms(3,4)] s5_frameD(3)[OF f] show thesis by simp
qed

text \<open>A sequence of datagrams sent one after the other, and as many received one after the other.\<close>

primrec sendto_each ::
  "(byte list \<times> HevSocks5Addr) list \<Rightarrow> 'a HevSocks5ClientUDP_scheme \<Rightarrow> (int list \<times> 'a HevSocks5ClientUDP_scheme) option" where
  "sendto_each [] s = Some ([], s)"
| "sendto_each (d # ds) s = do {
     (r, s) \<leftarrow> hev_socks5_udp_sendto (fst d) (snd d) s;
     (rs, s) \<leftarrow> sendto_each ds s;
     Some (r # rs, s) }"

primrec recvfrom_each ::
  "nat \<Rightarrow> byte list \<Rightarrow> HevSocks5Addr \<Rightarrow> 'a HevSocks5ClientUDP_scheme \<Rightarrow>
   ((byte list \<times> endpoint option) list \<times> 'a HevSocks5ClientUDP_scheme) option" where
  "recvfrom_each 0 buf addr w = Some ([], w)"
| "recvfrom_each (Suc n) buf addr w = do {
     (r, buf', addr', w) \<leftarrow> hev_socks5_udp_recvfrom buf addr w;
     (ds, w) \<leftarrow> recvfrom_each n buf' addr' w;
     Some ((take (nat r) buf', addr_decode addr') # ds, w) }"

definition dgram_fits :: "nat \<Rightarrow> byte list \<times> endpoint \<Rightarrow> bool" where
  "dgram_fits cap = (\<lambda>(d, e). endpoint_ok e \<and> length d \<le> cap \<and> length (addr_encode e) \<le> 252)"

definition udp_frames :: "(byte list \<times> endpoint) list \<Rightarrow> byte list" where
  "udp_frames ds = concat (map (\<lambda>(d, e). udp_frame d e) ds)"

lemma udp_frames_simps [simp]:
  "udp_frames [] = []" "udp_frames ((d, e) # ds) = udp_frame d e @ udp_frames ds"
  by (simp_all add: udp_frames_def)

lemma sendto_each_frames:
  assumes "clean s" and "s5_calm s" and "s5_type s = HEV_SOCKS5_TYPE_UDP_IN_TCP"
    and "list_all (dgram_fits cap) ds" and "length (udp_frames ds) \<le> tx_room (net_tx s)"
  shows "\<exists>s'. sendto_each (map (\<lambda>(d, e). (d, addr_encode e)) ds) s =
      Some (map (\<lambda>(d, e). int (length (udp_frame d e))) ds, s') \<and> goes s [] (udp_frames ds) s'"
  using assms
proof (induction ds arbitrary: s)
  case Nil
  then show ?case by (simp add: goes_def moved_def)
next
  case (Cons de ds)
  obtain d e where de: "de = (d, e)" by (cases de)
  have dec: "addr_decode (addr_encode e) = Some e"
    using Cons.prems(4) addr_decode_encode[of e "[]"] by (simp add: de dgram_fits_def)
  obtain s1 where 1: "hev_socks5_udp_sendto d (addr_encode e) s = Some (int (length (udp_frame d e)), s1)"
    and g: "goes s [] (udp_frame d e) s1" and t: "s5_type s1 = s5_type s"
    by (rule sendto_frame[OF Cons.prems(1-3) dec, of d]) (use Cons.prems(5) in \<open>auto simp: de\<close>)
  have "length (udp_frames ds) \<le> tx_room (net_tx s1)"
    using g Cons.prems(5) by (simp add: goes_def de)
  then obtain s2 where "sendto_each (map (\<lambda>(d, e). (d, addr_encode e)) ds) s1 =
      Some (map (\<lambda>(d, e). int (length (udp_frame d e))) ds, s2)" "goes s1 [] (udp_frames ds) s2"
    using Cons.IH[OF goesD(1,2)[OF g]] t Cons.prems by auto
  with 1 goes_trans[OF g] show ?case by (fastforce simp: de)
qed

lemma recvfrom_each_frames:
  assumes "clean w" and "s5_calm w" and "s5_type w = HEV_SOCKS5_TYPE_UDP_IN_TCP"
    and "list_all (dgram_fits (length buf)) ds" and "length buf < 2 ^ 16"
    and "rx_bytes (net_rx w) = udp_frames ds @ rest" and "length mem = sizeof_addr"
  shows "\<exists>w'. recvfrom_each (length ds) buf mem w = Some (map (\<lambda>(d, e). (d, Some e)) ds, w') \<and>
      rx_bytes (net_rx w') = rest"
  using assms
proof (induction ds arbitrary: w buf mem)
  case (Cons de ds)
  obtain d e where de: "de = (d, e)" by (cases de)
  have fit: "endpoint_ok e" "length d < 2 ^ 16" "length (addr_encode e) \<le> 252" "length d \<le> length buf"
    using Cons.prems(4,5) by (simp_all add: de dgram_fits_def)
  have "rx_bytes (net_rx w) = udp_frame d e @ udp_frames ds @ rest" using Cons.prems(6) by (simp add: de)
  from recvfrom_frame[OF Cons.prems(1-3) fit(1-3) this Cons.prems(7) fit(4)]
  obtain mem' w1 where 1: "hev_socks5_udp_recvfrom buf mem w = Some (int (length d), overwrite buf 0 d, mem', w1)"
    and d: "addr_decode mem' = Some e" "length mem' = sizeof_addr" and g: "goes w (udp_frame d e) [] w1"
    and t: "s5_type w1 = s5_type w" by auto
  have "length (overwrite buf 0 d) = length buf" "take (length d) (overwrite buf 0 d) = d"
    using fit(4) by (simp_all add: overwrite_def)
  moreover have "rx_bytes (net_rx w1) = udp_frames ds @ rest" using goesD(4)[OF g] Cons.prems(6) by (simp add: de)
  ultimately show ?case
    using Cons.IH[OF goesD(1,2)[OF g], of "overwrite buf 0 d" mem'] Cons.prems(3,4,5) d t 1 by (auto simp: de)
qed simp

section \<open>Datagrams of the relay\<close>

lemma recvfrom_udp_eq:
  assumes "cu_rx w = DgData d # es" and "s5_udp_associated w \<noteq> 0"
  shows "hev_socks5_udp_recvfrom_udp buf addr w =
    (let w' = w\<lparr>cu_rx := es\<rparr>; rlen = min 1500 (length d); rbuf = fill (net_junk w) 1500 (take 1500 d);
         addrlen = hev_socks5_addr_len (drop 3 rbuf) in
     if rlen < 4 then Some (int rlen, buf, addr, w')
     else if addrlen \<le> 0 \<or> 3 + addrlen > int rlen then Some (-1, buf, addr, w')
     else let doff = nat (3 + addrlen); n = min (rlen - doff) (length buf) in
       Some (int n, overwrite buf 0 (chunk rbuf doff n), overwrite addr 0 (take (nat addrlen) (drop 3 rbuf)), w'))"
proof -
  have "hev_task_io_socket_recvfrom task_io_yielder False 1500 [] w = Some (int (min 1500 (length d)), take 1500 d, w\<lparr>cu_rx := es\<rparr>)"
    using assms(1) by (subst hev_task_io_socket_recvfrom.simps) (simp add: dg_recvfrom_def)
  with assms(2) show ?thesis
    by (auto simp: hev_socks5_udp_recvfrom_udp_def Let_def)
qed

lemma sendto_udp:
  assumes "s5_type s = HEV_SOCKS5_TYPE_UDP_IN_UDP" and "addr_decode addr = Some e" and "cu_tx s = TxOk k # ts"
  shows "hev_socks5_udp_sendto data addr s =
     Some (int (3 + length (addr_encode e) + length data),
       s\<lparr>cu_tx := ts, cu_out := cu_out s @ [[0, 0, 0] @ addr_encode e @ data]\<rparr>)"
proof -
  have "take (nat (hev_socks5_addr_len addr)) addr = addr_encode e"
    using addr_encode_decode(2)[OF assms(2)] by simp
  moreover have "nat (3 + (int n + int m)) = Suc (Suc (Suc (n + m)))" for n m by simp
  ultimately show ?thesis
    using assms(1,3) addr_len_decode[OF assms(2)] addr_encode_pos[of e]
    by (simp add: hev_socks5_udp_sendto_def udp_hdr_def Let_def dgram_sendmsg.simps[where sent = 0] dg_sendmsg_def)
qed

lemma recvfrom_relayed:
  assumes "endpoint_ok e" and "d = [0, 0, 0] @ addr_encode e @ payload" and "data = take (1497 - length (addr_encode e)) payload"
    and "cu_rx w = DgData d # es" and "s5_udp_associated w \<noteq> 0"
  shows "hev_socks5_udp_recvfrom_udp buf mem w =
     Some (int (min (length data) (length buf)), overwrite buf 0 (take (length buf) data),
       overwrite mem 0 (addr_encode e), w\<lparr>cu_rx := es\<rparr>)"
proof -
  let ?n = "length (addr_encode e)"
  have n: "?n \<le> 259" using assms(1) by (cases e) auto
  have "take 1500 d = [0, 0, 0] @ addr_encode e @ data" using n by (simp add: assms(2,3))
  then have rbuf: "fill (net_junk w) 1500 (take 1500 d) =
      [0, 0, 0] @ addr_encode e @ data @ map (net_junk w) [3 + ?n + length data..<1500]"
    by (simp add: fill_def numeral_3_eq_3)
  have len: "hev_socks5_addr_len (addr_encode e @ r) = int ?n" for r
    using length_addr_encode[OF assms(1)] by simp
  have chunk: "chunk ([0, 0, 0] @ addr_encode e @ data @ r) (3 + ?n) k = take k data" if "k \<le> length data" for r k
    using that by (simp add: chunk_def numeral_3_eq_3)
  have ln: "min 1500 (length d) = 3 + ?n + length data" using n by (simp add: assms(2,3))
  have k: "take (min (length data) (length buf)) data = take (length buf) data" by (simp add: min_def)
  show ?thesis
    unfolding recvfrom_udp_eq[OF assms(4,5)] Let_def rbuf ln
    using addr_encode_pos[of e] len chunk[of "min (length data) (length buf)"] k by (simp add: nat_add_distrib)
qed

lemma addr_len_short:
  assumes "4 \<le> n" and "n \<le> length d"
  shows "(let l = hev_socks5_addr_len (drop 3 (fill j 1500 d)) in if l \<le> 0 \<or> 3 + l > int n then None else Some l) =
         (let l = hev_socks5_addr_len (drop 3 (fill j' 1500 d)) in if l \<le> 0 \<or> 3 + l > int n then None else Some l)"
proof (cases "length d = 4")
  case True
  then obtain a b c t where d: "d = [a, b, c, t]" by (auto simp: length_Suc_conv numeral_eq_Suc)
  have "\<exists>r. drop 3 (fill k N d) = t # k 4 # r" if "4 < N" for N and k :: "nat \<Rightarrow> byte"
    using that upt_conv_Cons[of 4 N] by (simp add: d fill_def numeral_eq_Suc)
  then obtain r r' where "drop 3 (fill j 1500 d) = t # j 4 # r" "drop 3 (fill j' 1500 d) = t # j' 4 # r'"
    by fastforce
  moreover have "0 < 3 + uint (k 4)" for k :: "nat \<Rightarrow> byte" by (rule add_pos_nonneg) simp_all
  ultimately show ?thesis using assms True by (auto simp: hev_socks5_addr_len_def Let_def)
next
  case False
  with assms have "5 \<le> length d" by simp
  then obtain a b c t n d' where "d = a # b # c # t # n # d'"
    by (auto simp: Suc_le_length_iff numeral_eq_Suc)
  then show ?thesis by (simp add: hev_socks5_addr_len_def fill_def)
qed

lemma recvfrom_udp_no_junk:
  assumes "cu_rx w = DgData d # es" and "s5_udp_associated w \<noteq> 0"
  shows "map_option (\<lambda>(r, b, a, _). (r, b, a)) (hev_socks5_udp_recvfrom_udp buf mem (w\<lparr>net_junk := j\<rparr>)) =
         map_option (\<lambda>(r, b, a, _). (r, b, a)) (hev_socks5_udp_recvfrom_udp buf mem (w\<lparr>net_junk := j'\<rparr>))"
proof -
  let ?d = "take 1500 d" and ?n = "min 1500 (length d)"
  let ?l = "\<lambda>j. hev_socks5_addr_len (drop 3 (fill j 1500 ?d))"
  let ?c = "\<lambda>j. if ?l j \<le> 0 \<or> 3 + ?l j > int ?n then None else Some (?l j)"
  have eq: "map_option (\<lambda>(r, b, a, _). (r, b, a)) (hev_socks5_udp_recvfrom_udp buf mem v) =
      Some (if ?n < 4 then (int ?n, buf, mem)
        else case ?c k of None \<Rightarrow> (-1, buf, mem)
        | Some l \<Rightarrow> (int (min (?n - nat (3 + l)) (length buf)),
            overwrite buf 0 (chunk d (nat (3 + l)) (min (?n - nat (3 + l)) (length buf))),
            overwrite mem 0 (chunk d 3 (nat l))))"
    if v: "cu_rx v = DgData d # es" "s5_udp_associated v \<noteq> 0" and k: "net_junk v = k" for v :: "'a HevSocks5ClientUDP_scheme" and k
  proof -
    have "chunk (fill (net_junk v) 1500 ?d) i m = chunk d i m" if "i + m \<le> ?n" for i m
      using that drop_take[of i "i + m" "fill (net_junk v) 1500 ?d"] drop_take[of i "i + m" d]
      by (simp add: chunk_def fill_def)
    moreover define rb L where "rb = fill (net_junk v) 1500 ?d" and "L = hev_socks5_addr_len (drop 3 rb)"
    ultimately have c: "chunk rb i m = chunk d i m" if "i + m \<le> ?n" for i m using that by simp
    have eq: "hev_socks5_udp_recvfrom_udp buf mem v =
        (if ?n < 4 then Some (int ?n, buf, mem, v\<lparr>cu_rx := es\<rparr>)
         else if L \<le> 0 \<or> 3 + L > int ?n then Some (-1, buf, mem, v\<lparr>cu_rx := es\<rparr>)
         else Some (int (min (?n - nat (3 + L)) (length buf)),
            overwrite buf 0 (chunk rb (nat (3 + L)) (min (?n - nat (3 + L)) (length buf))),
            overwrite mem 0 (chunk rb 3 (nat L)), v\<lparr>cu_rx := es\<rparr>))"
      unfolding recvfrom_udp_eq[OF v] Let_def rb_def L_def chunk_def ..
    have "chunk rb 3 (nat L) = chunk d 3 (nat L)"
      "chunk rb (nat (3 + L)) (min (?n - nat (3 + L)) m) = chunk d (nat (3 + L)) (min (?n - nat (3 + L)) m)"
      if "\<not> L \<le> 0" "\<not> 3 + L > int ?n" for m
      using that by (auto intro!: c)
    then show ?thesis unfolding eq k [symmetric] rb_def [symmetric] L_def [symmetric] by auto
  qed
  show ?thesis
  proof (cases "?n < 4")
    case False
    then have "?c j = ?c j'" using addr_len_short[of ?n ?d j j'] by (simp add: Let_def)
    moreover have "cu_rx (w\<lparr>net_junk := k\<rparr>) = DgData d # es" "s5_udp_associated (w\<lparr>net_junk := k\<rparr>) \<noteq> 0"
      "net_junk (w\<lparr>net_junk := k\<rparr>) = k" for k using assms by simp_all
    note eq = eq[OF this]
    ultimately show ?thesis unfolding eq by (simp only:)
  qed (simp add: eq assms)
qed

section \<open>Properties\<close>

text \<open>
  C17: Datagrams inside the control stream keep their boundaries: for any sequence of datagrams that
  fit the receiver's buffer and whose addresses have at most 252 bytes on the wire (names of up to 248
  characters; see the property on longer ones), all calls of \<open>sendto\<close> succeed, and
  a peer that finds what they wrote, in whatever segments, gets with as many calls of \<open>recvfrom\<close> the
  same datagrams with the same addresses, in order, and nothing beyond them is consumed.
\<close>

theorem udp_in_tcp_roundtrip:
  assumes "clean s" and "s5_calm s" and "s5_type s = HEV_SOCKS5_TYPE_UDP_IN_TCP"
    and "clean w" and "s5_calm w" and "s5_type w = HEV_SOCKS5_TYPE_UDP_IN_TCP"
    and "list_all (dgram_fits (length buf)) ds" and "length buf < 2 ^ 16" and "length mem = sizeof_addr"
    and "length (udp_frames ds) \<le> tx_room (net_tx s)"
  shows "\<exists>s'. sendto_each (map (\<lambda>(d, e). (d, addr_encode e)) ds) s =
      Some (map (\<lambda>(d, e). int (length (udp_frame d e))) ds, s') \<and> net_out s' = net_out s @ udp_frames ds \<and>
    (\<forall>rest. rx_bytes (net_rx w) = drop (length (net_out s)) (net_out s') @ rest \<longrightarrow>
      (\<exists>w'. recvfrom_each (length ds) buf mem w = Some (map (\<lambda>(d, e). (d, Some e)) ds, w') \<and>
        rx_bytes (net_rx w') = rest))"
proof -
  obtain s' where s': "sendto_each (map (\<lambda>(d, e). (d, addr_encode e)) ds) s =
      Some (map (\<lambda>(d, e). int (length (udp_frame d e))) ds, s')" and g: "goes s [] (udp_frames ds) s'"
    using sendto_each_frames[OF assms(1-3,7,10)] by blast
  have "net_out s' = net_out s @ udp_frames ds" using g by (simp add: goes_def moved_def)
  with s' show ?thesis using recvfrom_each_frames[OF assms(4-8) _ assms(9)] by auto
qed

definition sample_udp :: "HevSocks5Type \<Rightarrow> rx_ev list \<Rightarrow> tx_ev list \<Rightarrow> dg_ev list \<Rightarrow> HevSocks5ClientUDP" where
  "sample_udp type rx tx dg = snd (hev_socks5_client_udp_construct type
     \<lparr>net_rx = rx, net_tx = tx, net_conn = [], net_out = [], net_shut = False, net_junk = (\<lambda>_. 0),
      s5_fd = 0, s5_timeout = 0, s5_udp_associated = 0, s5_type = HEV_SOCKS5_TYPE_NONE,
      s5_addr_family = HEV_SOCKS5_ADDR_FAMILY_UNSPEC, s5_wake = (\<lambda>_. (1, False)), s5_clock = 0,
      s5_sys = [], s5_open = {}, cl_user = None, cl_pass = None,
      cu_fd = 0, cu_rx = dg, cu_tx = tx, cu_out = []\<rparr>)\<lparr>s5_udp_associated := 1\<rparr>"

lemma sample_udp_simps [simp]:
  "net_rx (sample_udp t rx tx dg) = rx" "net_tx (sample_udp t rx tx dg) = tx" "net_out (sample_udp t rx tx dg) = []"
  "s5_calm (sample_udp t rx tx dg)" "s5_type (sample_udp t rx tx dg) = t"
  "cu_rx (sample_udp t rx tx dg) = dg" "cu_tx (sample_udp t rx tx dg) = tx" "cu_out (sample_udp t rx tx dg) = []"
  "s5_udp_associated (sample_udp t rx tx dg) = 1" "s5_timeout (sample_udp t rx tx dg) = -1"
  by (simp_all add: sample_udp_def hev_socks5_client_udp_construct_def hev_socks5_client_construct_def
      hev_socks5_construct_def s5_calm_def)

theorem udp_in_tcp_roundtrip_witness:
  "\<exists>s' w'. sendto_each [([1, 2], addr_encode (IPv4 [192, 0, 2, 1] 0x3500)), ([], addr_encode (Name [97] 0x3500))]
      (sample_udp HEV_SOCKS5_TYPE_UDP_IN_TCP [] (TxAgain # replicate 20 (TxOk 10)) []) = Some ([12, 8], s') \<and>
     recvfrom_each 2 (replicate 100 0) (replicate sizeof_addr 0)
       (sample_udp HEV_SOCKS5_TYPE_UDP_IN_TCP [RxData [0, 2, 10], RxAgain,
         RxData [1, 192, 0, 2, 1, 0, 53, 1, 2, 0, 0, 8, 3, 1, 97, 0, 53], RxData [42]] [] []) =
       Some ([([1, 2], Some (IPv4 [192, 0, 2, 1] 0x3500)), ([], Some (Name [97] 0x3500))], w') \<and>
     rx_bytes (net_rx w') = [42]"
proof -
  let ?ds = "[([1, 2], IPv4 [192, 0, 2, 1] 0x3500), ([], Name [97] 0x3500)]"
  let ?s = "sample_udp HEV_SOCKS5_TYPE_UDP_IN_TCP [] (TxAgain # replicate 20 (TxOk 10)) []"
  let ?w = "sample_udp HEV_SOCKS5_TYPE_UDP_IN_TCP [RxData [0, 2, 10], RxAgain,
         RxData [1, 192, 0, 2, 1, 0, 53, 1, 2, 0, 0, 8, 3, 1, 97, 0, 53], RxData [42]] [] []"
  have bs: "udp_frames ?ds = [0, 2, 10, 1, 192, 0, 2, 1, 0, 53, 1, 2, 0, 0, 8, 3, 1, 97, 0, 53]" by code_simp
  have lens: "map (\<lambda>(d, e). int (length (udp_frame d e))) ?ds = [12, 8]" by code_simp
  have clean: "clean ?s" "clean ?w" by (simp_all add: clean_def numeral_eq_Suc)
  have fits: "list_all (dgram_fits (length (replicate 100 (0::byte)))) ?ds" by (simp add: dgram_fits_def)
  have room: "length (udp_frames ?ds) \<le> tx_room (net_tx ?s)" unfolding bs by (simp add: numeral_eq_Suc)
  from udp_in_tcp_roundtrip[OF clean(1) _ _ clean(2) _ _ fits _ _ room, of "replicate sizeof_addr 0"]
  obtain s' where s': "sendto_each (map (\<lambda>(d, e). (d, addr_encode e)) ?ds) ?s = Some ([12, 8], s')"
      "net_out s' = udp_frames ?ds"
    and w': "\<And>rest. rx_bytes (net_rx ?w) = net_out s' @ rest \<Longrightarrow>
      \<exists>w'. recvfrom_each 2 (replicate 100 0) (replicate sizeof_addr 0) ?w =
        Some (map (\<lambda>(d, e). (d, Some e)) ?ds, w') \<and> rx_bytes (net_rx w') = rest"
    unfolding lens by (auto simp del: sendto_each.simps recvfrom_each.simps replicate.simps simp flip: numeral_2_eq_2)
  from w'[of "[42]"] have "\<exists>w'. recvfrom_each 2 (replicate 100 0) (replicate sizeof_addr 0) ?w =
      Some (map (\<lambda>(d, e). (d, Some e)) ?ds, w') \<and> rx_bytes (net_rx w') = [42]"
    unfolding s'(2) bs by simp
  with s'(1) show ?thesis by simp
qed

text \<open>
  C18: A datagram through the relay socket: \<open>sendto\<close> emits one datagram, and \<open>recvfrom\<close> at the other end
  hands out the address and the data, cut to what 1500 bytes leave after header and address and to
  the caller's buffer.  Data within both limits arrive whole; the rest of longer ones is dropped without
  an error.
\<close>

theorem udp_in_udp_roundtrip:
  assumes "s5_type s = HEV_SOCKS5_TYPE_UDP_IN_UDP" and "addr_decode addr = Some e" and "cu_tx s = TxOk k # ts"
    and "s5_type w = HEV_SOCKS5_TYPE_UDP_IN_UDP" and "s5_udp_associated w \<noteq> 0"
    and "length mem = sizeof_addr" and "n = min (1497 - length (addr_encode e)) (length buf)"
  shows "\<exists>s' dg. hev_socks5_udp_sendto data addr s = Some (int (length dg), s') \<and> cu_out s' = cu_out s @ [dg] \<and>
    (\<forall>es. cu_rx w = DgData dg # es \<longrightarrow>
      (\<exists>mem' w'. hev_socks5_udp_recvfrom buf mem w =
         Some (int (min (length data) n), overwrite buf 0 (take n data), mem', w') \<and>
         addr_decode mem' = Some e \<and> cu_rx w' = es))"
proof -
  have e: "endpoint_ok e" by (rule addr_encode_decode(1)[OF assms(2)])
  let ?dg = "[0, 0, 0] @ addr_encode e @ data"
  have "addr_decode (overwrite mem 0 (addr_encode e)) = Some e"
    using addr_decode_encode[OF e] by (simp add: overwrite_def)
  moreover note recvfrom_relayed[OF e refl refl _ assms(5)]
  ultimately show ?thesis
    using sendto_udp[OF assms(1-3)] assms(4,7) by (auto simp: hev_socks5_udp_recvfrom_def min.commute min.left_commute)
qed

theorem udp_in_udp_roundtrip_witness:
  "\<exists>mem' w'. hev_socks5_udp_recvfrom [9, 9, 9] (replicate sizeof_addr 0)
     (sample_udp HEV_SOCKS5_TYPE_UDP_IN_UDP [] [] [DgData [0, 0, 0, 1, 192, 0, 2, 1, 0, 53, 1, 2]]) =
       Some (2, [1, 2, 9], mem', w') \<and> addr_decode mem' = Some (IPv4 [192, 0, 2, 1] 0x3500)"
proof -
  let ?s = "sample_udp HEV_SOCKS5_TYPE_UDP_IN_UDP [] [TxOk 1] []" and ?e = "IPv4 [192, 0, 2, 1] 0x3500"
  let ?w = "sample_udp HEV_SOCKS5_TYPE_UDP_IN_UDP [] [] [DgData [0, 0, 0, 1, 192, 0, 2, 1, 0, 53, 1, 2]]"
  have "addr_decode (addr_encode ?e) = Some ?e" using addr_decode_encode[of ?e "[]"] by simp
  from udp_in_udp_roundtrip[of ?s, OF _ this, of 1 "[]" ?w "replicate sizeof_addr 0" 3 "[9, 9, 9]" "[1, 2]"]
  obtain s' dg where 1: "hev_socks5_udp_sendto [1, 2] (addr_encode ?e) ?s = Some (int (length dg), s')" "cu_out s' = [dg]"
    and 2: "\<And>es. cu_rx ?w = DgData dg # es \<Longrightarrow> \<exists>mem' w'. hev_socks5_udp_recvfrom [9, 9, 9] (replicate sizeof_addr 0) ?w =
         Some (2, overwrite [9, 9, 9] 0 [1, 2], mem', w') \<and> addr_decode mem' = Some ?e \<and> cu_rx w' = es"
    by (auto simp: u16_mem_def)
  have "map_option (cu_out o snd) (hev_socks5_udp_sendto [1, 2] (addr_encode ?e) ?s) =
      Some [[0, 0, 0, 1, 192, 0, 2, 1, 0, 53, 1, 2]]" by code_simp
  with 1 have "dg = [0, 0, 0, 1, 192, 0, 2, 1, 0, 53, 1, 2]" by simp
  with 2[of "[]"] show ?thesis by (auto simp: overwrite_def)
qed

text \<open>
  C19: What \<open>recvfrom\<close> makes of a datagram of the relay, however malformed, depends on the bytes
  received only, never on the uninitialised rest of the 1500-byte stack buffer.
\<close>

theorem udp_recvfrom_reads_received_only:
  assumes "cu_rx w = DgData d # es" and "s5_udp_associated w \<noteq> 0"
  shows "map_option (\<lambda>(r, b, a, _). (r, b, a)) (hev_socks5_udp_recvfrom_udp buf mem (w\<lparr>net_junk := j\<rparr>)) =
         map_option (\<lambda>(r, b, a, _). (r, b, a)) (hev_socks5_udp_recvfrom_udp buf mem (w\<lparr>net_junk := j'\<rparr>))"
  by (rule recvfrom_udp_no_junk[OF assms])

theorem udp_recvfrom_reads_received_only_witness:
  "map_option (\<lambda>(r, b, a, _). (r, b, a)) (hev_socks5_udp_recvfrom_udp [9, 9] (replicate sizeof_addr 0)
      ((sample_udp HEV_SOCKS5_TYPE_UDP_IN_UDP [] [] [DgData [0, 0, 0, 3]])\<lparr>net_junk := \<lambda>_. 0\<rparr>)) =
   map_option (\<lambda>(r, b, a, _). (r, b, a)) (hev_socks5_udp_recvfrom_udp [9, 9] (replicate sizeof_addr 0)
      ((sample_udp HEV_SOCKS5_TYPE_UDP_IN_UDP [] [] [DgData [0, 0, 0, 3]])\<lparr>net_junk := \<lambda>_. 255\<rparr>))"
  by (rule udp_recvfrom_reads_received_only[where d = "[0, 0, 0, 3]" and es = "[]"]) simp_all

text \<open>
  C21: A datagram of one to three bytes from the relay is reported as that many bytes of payload,
  although neither the caller's buffer nor its address has been written.
\<close>

theorem udp_short_datagram_as_payload:
  assumes "cu_rx w = DgData d # es" and "d \<noteq> []" and "length d < 4" and "s5_udp_associated w \<noteq> 0"
    and "s5_type w = HEV_SOCKS5_TYPE_UDP_IN_UDP"
  shows "hev_socks5_udp_recvfrom buf mem w = Some (int (length d), buf, mem, w\<lparr>cu_rx := es\<rparr>) \<and> 0 < int (length d)"
  using assms recvfrom_udp_eq[OF assms(1,4), of buf mem] by (simp add: hev_socks5_udp_recvfrom_def Let_def)

theorem udp_short_datagram_as_payload_witness:
  "\<exists>w'. hev_socks5_udp_recvfrom [9, 9, 9] (replicate sizeof_addr 0)
     (sample_udp HEV_SOCKS5_TYPE_UDP_IN_UDP [] [] [DgData [7, 8]]) =
       Some (2, [9, 9, 9], replicate sizeof_addr 0, w')"
  using udp_short_datagram_as_payload[of "sample_udp HEV_SOCKS5_TYPE_UDP_IN_UDP [] [] [DgData [7, 8]]" "[7, 8]" "[]"
      "[9, 9, 9]" "replicate sizeof_addr 0"] by simp

text \<open>
  C22: In the framing inside the control stream the header length is one byte.  Sending to a name of 249
  characters or more succeeds, but the byte on the wire has wrapped around: it is 256 less than
  the length of the header.  With up to 253 characters it is less than the 5 bytes every header has, and
  the peer's \<open>recvfrom\<close> fails with -1 after reading 5 bytes, its stream then out of step.
\<close>

theorem udp_long_name_header_wraps:
  assumes "clean s" and "s5_calm s" and "s5_type s = HEV_SOCKS5_TYPE_UDP_IN_TCP"
    and "addr_decode addr = Some (Name name p)" and "249 \<le> length name"
    and "7 + length name + length data \<le> tx_room (net_tx s)"
  shows "\<exists>s' frame. hev_socks5_udp_sendto data addr s = Some (int (length frame), s') \<and> net_out s' = net_out s @ frame \<and>
     length frame = 7 + length name + length data \<and> unat (frame ! 2) + 256 = 7 + length name \<and>
     (length name \<le> 253 \<and> length data < 2 ^ 16 \<and> length data \<le> length buf \<and> clean w \<and> s5_calm w \<and>
      s5_type w = HEV_SOCKS5_TYPE_UDP_IN_TCP \<and> rx_bytes (net_rx w) = frame @ rest \<longrightarrow>
      (\<exists>w'. hev_socks5_udp_recvfrom buf mem w = Some (-1, buf, mem, w') \<and>
         rx_bytes (net_rx w') = drop 5 frame @ rest))"
proof -
  let ?f = "udp_frame data (Name name p)"
  have n: "length name < 256" using addr_encode_decode(1)[OF assms(4)] by simp
  have len: "length ?f = 7 + length name + length data" by (simp add: udp_frame_def)
  have byte: "?f ! 2 = of_nat (7 + length name)" by (simp add: udp_frame_def nth_append)
  have wrap: "unat (?f ! 2) + 256 = 7 + length name"
    unfolding byte using assms(5) n by (subst unat_of_nat) (simp add: mod_if, linarith)
  obtain s' where "hev_socks5_udp_sendto data addr s = Some (int (length ?f), s')" and "goes s [] ?f s'"
    by (rule sendto_frame[OF assms(1-4), of data]) (use assms(6) len in auto)
  moreover have "\<exists>w'. hev_socks5_udp_recvfrom buf mem w = Some (-1, buf, mem, w') \<and> rx_bytes (net_rx w') = drop 5 ?f @ rest"
    if "length name \<le> 253" "length data < 2 ^ 16" "length data \<le> length buf" "clean w" "s5_calm w"
      "s5_type w = HEV_SOCKS5_TYPE_UDP_IN_TCP" "rx_bytes (net_rx w) = ?f @ rest"
    using recvfrom_bad_header[OF that(4-7)] that(1-3) wrap len by (simp add: udp_frame_def unat_of_nat)
  ultimately show ?thesis using len wrap by (fastforce simp: goes_def moved_def)
qed

theorem udp_long_name_header_wraps_witness:
  "\<exists>s' w'. hev_socks5_udp_sendto [1, 2] (addr_encode (Name (replicate 250 97) 0x5000))
       (sample_udp HEV_SOCKS5_TYPE_UDP_IN_TCP [] (replicate 300 (TxOk 1)) []) = Some (259, s') \<and>
     unat (net_out s' ! 2) = 1 \<and>
     hev_socks5_udp_recvfrom [8, 9] (replicate sizeof_addr 0) (sample_udp HEV_SOCKS5_TYPE_UDP_IN_TCP [RxData (net_out s')] [] []) =
       Some (-1, [8, 9], replicate sizeof_addr 0, w')"
proof -
  let ?s = "sample_udp HEV_SOCKS5_TYPE_UDP_IN_TCP [] (replicate 300 (TxOk 1)) []" and ?e = "Name (replicate 250 97) 0x5000"
  let ?w = "\<lambda>f. sample_udp HEV_SOCKS5_TYPE_UDP_IN_TCP [RxData f] [] []"
  have e: "addr_decode (addr_encode ?e) = Some ?e" using addr_decode_encode[of ?e "[]"] by simp
  have s: "clean ?s" "7 + length (replicate 250 97 :: byte list) + length [1, 2 :: byte] \<le> tx_room (net_tx ?s)"
    by (simp_all add: clean_def) (code_simp+)
  note T = udp_long_name_header_wraps[OF s(1) _ _ e _ s(2), where rest = "[]" and buf = "[8, 9]" and mem = "replicate sizeof_addr 0"]
  obtain s' where s': "hev_socks5_udp_sendto [1, 2] (addr_encode ?e) ?s = Some (259, s')" "length (net_out s') = 259"
      "unat (net_out s' ! 2) = 1"
    using T[of "?w []"] by auto
  then have "clean (?w (net_out s'))" by (auto simp: clean_def)
  with T[of "?w (net_out s')"] s' show ?thesis by auto
qed

text \<open>
  C20: When the server closes the control connection of a UDP association, a \<open>recvfrom\<close> that finds no
  datagram does not wait: it gives up with -2 and the session is marked as terminated.
\<close>

theorem udp_control_close_stops:
  assumes "s5_type w = HEV_SOCKS5_TYPE_UDP_IN_UDP" and "cu_rx w = DgAgain # es"
    and "net_rx w = RxEof # rs \<or> net_rx w = RxErr # rs" and "s5_udp_associated w \<noteq> 0"
  shows "\<exists>w'. hev_socks5_udp_recvfrom buf mem w = Some (-2, buf, mem, w') \<and> s5_timeout w' = 0"
proof -
  have "hev_task_io_socket_recvfrom task_io_yielder False 1500 [] w =
      Option.bind (task_io_yielder HEV_TASK_WAITIO (w\<lparr>cu_rx := es\<rparr>)) (\<lambda>(y, w).
        if y \<noteq> 0 then Some (-2, [], w) else hev_task_io_socket_recvfrom task_io_yielder False 1500 [] w)"
    using assms(2) by (subst hev_task_io_socket_recvfrom.simps) (simp add: dg_recvfrom_def)
  moreover have "\<exists>w'. task_io_yielder HEV_TASK_WAITIO (w\<lparr>cu_rx := es\<rparr>) = Some (-1, w') \<and> s5_timeout w' = 0"
    using assms(1,3)
    by (auto simp: task_io_yielder_def sys_recv_now_def sys_recv_def hev_socks5_set_timeout_def)
  ultimately show ?thesis
    using assms(1,4) by (auto simp: hev_socks5_udp_recvfrom_def hev_socks5_udp_recvfrom_udp_def)
qed

theorem udp_control_close_stops_witness:
  "\<exists>w'. hev_socks5_udp_recvfrom [9] (replicate sizeof_addr 0)
     (sample_udp HEV_SOCKS5_TYPE_UDP_IN_UDP [RxEof] [] [DgAgain]) = Some (-2, [9], replicate sizeof_addr 0, w') \<and>
     s5_timeout w' = 0"
  by (rule udp_control_close_stops) simp_all

end
