(* ===== verification/RBTree.thy ===== *)
theory RBTree
  imports Prelude
begin

text \<open>
  The red-black tree of \<open>core/src/hev-rbtree.c\<close> and \<open>hev-rbtree.h\<close>: intrusive nodes in memory, with
  the parent pointer and the colour packed into one word.  A \<open>HevRBTree\<close> of the model is the tree
  together with the memory that holds the nodes; an access through \<open>NULL\<close> or to memory that holds no
  node is \<^const>\<open>None\<close>.

  The source writes every rebalancing step twice, once for each side, the second time with left and
  right exchanged.  The model writes a step once, with the side as an argument that is computed by the
  test that chooses between the two texts.
\<close>

section \<open>Memory\<close>

record HevRBTreeNode =
  rn_pc :: u64
  rn_right :: u64
  rn_left :: u64

record HevRBTree =
  rt_root :: u64
  rt_mem :: "u64 \<Rightarrow> HevRBTreeNode option"

datatype side = SLeft | SRight

fun opp :: "side \<Rightarrow> side" where
  "opp SLeft = SRight"
| "opp SRight = SLeft"

fun rn_child :: "side \<Rightarrow> HevRBTreeNode \<Rightarrow> u64" where
  "rn_child SLeft n = rn_left n"
| "rn_child SRight n = rn_right n"

fun rn_set_child :: "side \<Rightarrow> u64 \<Rightarrow> HevRBTreeNode \<Rightarrow> HevRBTreeNode" where
  "rn_set_child SLeft p n = n\<lparr>rn_left := p\<rparr>"
| "rn_set_child SRight p n = n\<lparr>rn_right := p\<rparr>"

definition rd :: "(HevRBTreeNode \<Rightarrow> 'v) \<Rightarrow> u64 \<Rightarrow> HevRBTree \<Rightarrow> 'v option" where
  "rd f p m = (if p = 0 then None else map_option f (rt_mem m p))"

definition wr :: "(HevRBTreeNode \<Rightarrow> HevRBTreeNode) \<Rightarrow> u64 \<Rightarrow> HevRBTree \<Rightarrow> HevRBTree option" where
  "wr f p m = (if p = 0 then None
     else case rt_mem m p of None \<Rightarrow> None | Some n \<Rightarrow> Some (m\<lparr>rt_mem := (rt_mem m)(p \<mapsto> f n)\<rparr>))"

section \<open>Accessors\<close>

definition HEV_RBTREE_RED :: u64 where "HEV_RBTREE_RED = 0"
definition HEV_RBTREE_BLACK :: u64 where "HEV_RBTREE_BLACK = 1"

definition hev_rbtree_node_empty :: "u64 \<Rightarrow> HevRBTree \<Rightarrow> bool option" where
  "hev_rbtree_node_empty node m = rd (\<lambda>n. rn_pc n = node) node m"

definition hev_rbtree_node_parent :: "u64 \<Rightarrow> HevRBTree \<Rightarrow> u64 option" where
  "hev_rbtree_node_parent node m = rd (\<lambda>n. rn_pc n AND NOT 3) node m"

definition hev_rbtree_node_color :: "u64 \<Rightarrow> HevRBTree \<Rightarrow> u64 option" where
  "hev_rbtree_node_color node m = rd (\<lambda>n. rn_pc n AND 1) node m"

definition hev_rbtree_node_is_red :: "u64 \<Rightarrow> HevRBTree \<Rightarrow> bool option" where
  "hev_rbtree_node_is_red node m = map_option (\<lambda>c. c AND HEV_RBTREE_BLACK = 0) (hev_rbtree_node_color node m)"

definition hev_rbtree_node_is_black :: "u64 \<Rightarrow> HevRBTree \<Rightarrow> bool option" where
  "hev_rbtree_node_is_black node m = map_option (\<lambda>c. c AND HEV_RBTREE_BLACK \<noteq> 0) (hev_rbtree_node_color node m)"

definition pc_is_black :: "u64 \<Rightarrow> bool" where
  "pc_is_black pc \<longleftrightarrow> pc AND HEV_RBTREE_BLACK \<noteq> 0"

definition pc_parent :: "u64 \<Rightarrow> u64" where
  "pc_parent pc = pc AND NOT 3"

definition hev_rbtree_node_red_parent :: "u64 \<Rightarrow> HevRBTree \<Rightarrow> u64 option" where
  "hev_rbtree_node_red_parent node m = rd rn_pc node m"

definition hev_rbtree_node_set_black :: "u64 \<Rightarrow> HevRBTree \<Rightarrow> HevRBTree option" where
  "hev_rbtree_node_set_black node m = wr (\<lambda>n. n\<lparr>rn_pc := rn_pc n OR HEV_RBTREE_BLACK\<rparr>) node m"

definition hev_rbtree_node_set_parent :: "u64 \<Rightarrow> u64 \<Rightarrow> HevRBTree \<Rightarrow> HevRBTree option" where
  "hev_rbtree_node_set_parent node parent m = do {
     c \<leftarrow> hev_rbtree_node_color node m;
     wr (\<lambda>n. n\<lparr>rn_pc := c OR parent\<rparr>) node m }"

definition hev_rbtree_node_set_parent_color :: "u64 \<Rightarrow> u64 \<Rightarrow> u64 \<Rightarrow> HevRBTree \<Rightarrow> HevRBTree option" where
  "hev_rbtree_node_set_parent_color node parent color m = wr (\<lambda>n. n\<lparr>rn_pc := parent OR color\<rparr>) node m"

definition hev_rbtree_change_child :: "u64 \<Rightarrow> u64 \<Rightarrow> u64 \<Rightarrow> HevRBTree \<Rightarrow> HevRBTree option" where
  "hev_rbtree_change_child old new parent m =
     (if parent \<noteq> 0 then do {
        l \<leftarrow> rd rn_left parent m;
        if l = old then wr (\<lambda>n. n\<lparr>rn_left := new\<rparr>) parent m
        else wr (\<lambda>n. n\<lparr>rn_right := new\<rparr>) parent m }
      else Some (m\<lparr>rt_root := new\<rparr>))"

definition hev_rbtree_rotate_set_parents :: "u64 \<Rightarrow> u64 \<Rightarrow> u64 \<Rightarrow> HevRBTree \<Rightarrow> HevRBTree option" where
  "hev_rbtree_rotate_set_parents old new color m = do {
     parent \<leftarrow> hev_rbtree_node_parent old m;
     pc \<leftarrow> rd rn_pc old m;
     m \<leftarrow> wr (\<lambda>n. n\<lparr>rn_pc := pc\<rparr>) new m;
     m \<leftarrow> hev_rbtree_node_set_parent_color old new color m;
     hev_rbtree_change_child old new parent m }"

text \<open>The \<open>link\<close> argument of \<open>node_link\<close> is the address of the root or of a child field of a node.\<close>

datatype rblink = RootLink | ChildLink side u64

definition hev_rbtree_node_link :: "u64 \<Rightarrow> u64 \<Rightarrow> rblink \<Rightarrow> HevRBTree \<Rightarrow> HevRBTree option" where
  "hev_rbtree_node_link node parent link m = do {
     m \<leftarrow> wr (\<lambda>n. n\<lparr>rn_pc := parent, rn_left := 0, rn_right := 0\<rparr>) node m;
     (case link of RootLink \<Rightarrow> Some (m\<lparr>rt_root := node\<rparr>) | ChildLink d q \<Rightarrow> wr (rn_set_child d node) q m) }"

section \<open>Walking\<close>

text \<open>The loops \<open>while (n->left) n = n->left\<close> and their mirror images.\<close>

partial_function (option) go_down :: "side \<Rightarrow> u64 \<Rightarrow> HevRBTree \<Rightarrow> u64 option" where
  "go_down d n m = do {
     c \<leftarrow> rd (rn_child d) n m;
     if c \<noteq> 0 then go_down d c m else Some n }"

text \<open>The loops \<open>while ((parent = parent (node)) && node == parent->left) node = parent\<close>.\<close>

partial_function (option) go_up :: "side \<Rightarrow> u64 \<Rightarrow> HevRBTree \<Rightarrow> u64 option" where
  "go_up d node m = do {
     parent \<leftarrow> hev_rbtree_node_parent node m;
     if parent = 0 then Some 0
     else do {
       c \<leftarrow> rd (rn_child d) parent m;
       if node = c then go_up d parent m else Some parent } }"

definition node_step :: "side \<Rightarrow> u64 \<Rightarrow> HevRBTree \<Rightarrow> u64 option" where
  "node_step d node m = do {
     empty \<leftarrow> hev_rbtree_node_empty node m;
     if empty then Some 0
     else do {
       c \<leftarrow> rd (rn_child d) node m;
       if c \<noteq> 0 then go_down (opp d) c m else go_up d node m } }"

definition hev_rbtree_node_prev :: "u64 \<Rightarrow> HevRBTree \<Rightarrow> u64 option" where
  "hev_rbtree_node_prev = node_step SLeft"

definition hev_rbtree_node_next :: "u64 \<Rightarrow> HevRBTree \<Rightarrow> u64 option" where
  "hev_rbtree_node_next = node_step SRight"

definition hev_rbtree_first :: "HevRBTree \<Rightarrow> u64 option" where
  "hev_rbtree_first m = (if rt_root m = 0 then Some 0 else go_down SLeft (rt_root m) m)"

definition hev_rbtree_last :: "HevRBTree \<Rightarrow> u64 option" where
  "hev_rbtree_last m = (if rt_root m = 0 then Some 0 else go_down SRight (rt_root m) m)"

section \<open>Insertion\<close>

definition if_node :: "u64 \<Rightarrow> (HevRBTree \<Rightarrow> HevRBTree option) \<Rightarrow> HevRBTree \<Rightarrow> HevRBTree option" where
  "if_node p f m = (if p \<noteq> 0 then f m else Some m)"

definition insert_color_rotate :: "side \<Rightarrow> u64 \<Rightarrow> u64 \<Rightarrow> u64 \<Rightarrow> HevRBTree \<Rightarrow> HevRBTree option" where
  "insert_color_rotate d node parent gparent m = do {
     tmp \<leftarrow> rd (rn_child (opp d)) parent m;
     (parent, tmp, m) \<leftarrow>
       (if node = tmp then do {
          tmp \<leftarrow> rd (rn_child d) node m;
          m \<leftarrow> wr (rn_set_child (opp d) tmp) parent m;
          m \<leftarrow> wr (rn_set_child d parent) node m;
          m \<leftarrow> if_node tmp (hev_rbtree_node_set_parent_color tmp parent HEV_RBTREE_BLACK) m;
          m \<leftarrow> hev_rbtree_node_set_parent_color parent node HEV_RBTREE_RED m;
          tmp \<leftarrow> rd (rn_child (opp d)) node m;
          Some (node, tmp, m) }
        else Some (parent, tmp, m));
     m \<leftarrow> wr (rn_set_child d tmp) gparent m;
     m \<leftarrow> wr (rn_set_child (opp d) gparent) parent m;
     m \<leftarrow> if_node tmp (hev_rbtree_node_set_parent_color tmp gparent HEV_RBTREE_BLACK) m;
     hev_rbtree_rotate_set_parents gparent parent HEV_RBTREE_RED m }"

definition is_red_node :: "u64 \<Rightarrow> HevRBTree \<Rightarrow> bool option" where
  "is_red_node p m = (if p = 0 then Some False else hev_rbtree_node_is_red p m)"

partial_function (option) insert_color_loop :: "u64 \<Rightarrow> u64 \<Rightarrow> HevRBTree \<Rightarrow> HevRBTree option" where
  "insert_color_loop node parent m =
     (if parent = 0 then hev_rbtree_node_set_parent_color node 0 HEV_RBTREE_BLACK m
      else do {
        black \<leftarrow> hev_rbtree_node_is_black parent m;
        if black then Some m
        else do {
          gparent \<leftarrow> hev_rbtree_node_red_parent parent m;
          r \<leftarrow> rd rn_right gparent m;
          let d = (if parent \<noteq> r then SLeft else SRight);
          tmp \<leftarrow> rd (rn_child (opp d)) gparent m;
          red \<leftarrow> is_red_node tmp m;
          if red then do {
            m \<leftarrow> hev_rbtree_node_set_parent_color tmp gparent HEV_RBTREE_BLACK m;
            m \<leftarrow> hev_rbtree_node_set_parent_color parent gparent HEV_RBTREE_BLACK m;
            parent \<leftarrow> hev_rbtree_node_parent gparent m;
            m \<leftarrow> hev_rbtree_node_set_parent_color gparent parent HEV_RBTREE_RED m;
            insert_color_loop gparent parent m }
          else insert_color_rotate d node parent gparent m } })"

definition hev_rbtree_insert_color :: "u64 \<Rightarrow> HevRBTree \<Rightarrow> HevRBTree option" where
  "hev_rbtree_insert_color node m = do {
     parent \<leftarrow> hev_rbtree_node_red_parent node m;
     insert_color_loop node parent m }"

section \<open>Replacement and removal\<close>

definition hev_rbtree_replace :: "u64 \<Rightarrow> u64 \<Rightarrow> HevRBTree \<Rightarrow> HevRBTree option" where
  "hev_rbtree_replace victim new m = do {
     parent \<leftarrow> hev_rbtree_node_parent victim m;
     v \<leftarrow> rd (\<lambda>n. n) victim m;
     m \<leftarrow> wr (\<lambda>_. v) new m;
     l \<leftarrow> rd rn_left victim m;
     m \<leftarrow> if_node l (hev_rbtree_node_set_parent l new) m;
     r \<leftarrow> rd rn_right victim m;
     m \<leftarrow> if_node r (hev_rbtree_node_set_parent r new) m;
     hev_rbtree_change_child victim new parent m }"

text \<open>The loop of case 3: the leftmost node under \<open>tmp\<close> and the parent it hangs on.\<close>

partial_function (option) find_successor :: "u64 \<Rightarrow> u64 \<Rightarrow> HevRBTree \<Rightarrow> (u64 \<times> u64) option" where
  "find_successor parent tmp m = do {
     l \<leftarrow> rd rn_left tmp m;
     if l \<noteq> 0 then find_successor tmp l m else Some (parent, tmp) }"

text \<open>The common end of the cases 2 and 3.\<close>

definition erase_tail :: "u64 \<Rightarrow> u64 \<Rightarrow> u64 \<Rightarrow> u64 \<Rightarrow> HevRBTree \<Rightarrow> (u64 \<times> HevRBTree) option" where
  "erase_tail node parent successor child2 m = do {
     tmp \<leftarrow> rd rn_left node m;
     m \<leftarrow> wr (\<lambda>n. n\<lparr>rn_left := tmp\<rparr>) successor m;
     m \<leftarrow> hev_rbtree_node_set_parent tmp successor m;
     pc \<leftarrow> rd rn_pc node m;
     m \<leftarrow> hev_rbtree_change_child node successor (pc_parent pc) m;
     (rebalance, m) \<leftarrow>
       (if child2 \<noteq> 0 then do {
          m \<leftarrow> hev_rbtree_node_set_parent_color child2 parent HEV_RBTREE_BLACK m;
          Some (0, m) }
        else do {
          black \<leftarrow> hev_rbtree_node_is_black successor m;
          Some (if black then parent else 0, m) });
     m \<leftarrow> wr (\<lambda>n. n\<lparr>rn_pc := pc\<rparr>) successor m;
     Some (rebalance, m) }"

definition erase_two_children :: "u64 \<Rightarrow> u64 \<Rightarrow> HevRBTree \<Rightarrow> (u64 \<times> HevRBTree) option" where
  "erase_two_children node child m = do {
     tmp \<leftarrow> rd rn_left child m;
     if tmp = 0 then do {
       child2 \<leftarrow> rd rn_right child m;
       erase_tail node child child child2 m }
     else do {
       (parent, successor) \<leftarrow> find_successor child tmp m;
       child2 \<leftarrow> rd rn_right successor m;
       m \<leftarrow> wr (\<lambda>n. n\<lparr>rn_left := child2\<rparr>) parent m;
       m \<leftarrow> wr (\<lambda>n. n\<lparr>rn_right := child\<rparr>) successor m;
       m \<leftarrow> hev_rbtree_node_set_parent child successor m;
       erase_tail node parent successor child2 m } }"

definition rbtree_erase_node :: "u64 \<Rightarrow> HevRBTree \<Rightarrow> (u64 \<times> HevRBTree) option" where
  "rbtree_erase_node node m = do {
     child \<leftarrow> rd rn_right node m;
     tmp \<leftarrow> rd rn_left node m;
     if tmp = 0 then do {
       pc \<leftarrow> rd rn_pc node m;
       m \<leftarrow> hev_rbtree_change_child node child (pc_parent pc) m;
       if child \<noteq> 0 then do {
         m \<leftarrow> wr (\<lambda>n. n\<lparr>rn_pc := pc\<rparr>) child m;
         Some (0, m) }
       else Some (if pc_is_black pc then pc_parent pc else 0, m) }
     else if child = 0 then do {
       pc \<leftarrow> rd rn_pc node m;
       m \<leftarrow> wr (\<lambda>n. n\<lparr>rn_pc := pc\<rparr>) tmp m;
       m \<leftarrow> hev_rbtree_change_child node tmp (pc_parent pc) m;
       Some (0, m) }
     else erase_two_children node child m }"

text \<open>\<open>!tmp || is_black (tmp)\<close>\<close>

definition is_black_child :: "u64 \<Rightarrow> HevRBTree \<Rightarrow> bool option" where
  "is_black_child p m = (if p = 0 then Some True else hev_rbtree_node_is_black p m)"

text \<open>Case 1: rotate at the parent when the sibling is red.\<close>

definition erase_color_case1 :: "side \<Rightarrow> u64 \<Rightarrow> u64 \<Rightarrow> HevRBTree \<Rightarrow> (u64 \<times> HevRBTree) option" where
  "erase_color_case1 d parent sibling m = do {
     red \<leftarrow> hev_rbtree_node_is_red sibling m;
     if red then do {
       tmp1 \<leftarrow> rd (rn_child d) sibling m;
       m \<leftarrow> wr (rn_set_child (opp d) tmp1) parent m;
       m \<leftarrow> wr (rn_set_child d parent) sibling m;
       m \<leftarrow> hev_rbtree_node_set_parent_color tmp1 parent HEV_RBTREE_BLACK m;
       m \<leftarrow> hev_rbtree_rotate_set_parents parent sibling HEV_RBTREE_RED m;
       Some (tmp1, m) }
     else Some (sibling, m) }"

text \<open>Case 3, the rotation at the sibling; the result is the new \<open>tmp1\<close> and the new sibling.\<close>

definition erase_color_case3 :: "side \<Rightarrow> u64 \<Rightarrow> u64 \<Rightarrow> u64 \<Rightarrow> HevRBTree \<Rightarrow> HevRBTree option" where
  "erase_color_case3 d parent sibling tmp2 m = do {
     tmp1 \<leftarrow> rd (rn_child (opp d)) tmp2 m;
     m \<leftarrow> wr (rn_set_child d tmp1) sibling m;
     m \<leftarrow> wr (rn_set_child (opp d) sibling) tmp2 m;
     m \<leftarrow> wr (rn_set_child (opp d) tmp2) parent m;
     if_node tmp1 (hev_rbtree_node_set_parent_color tmp1 sibling HEV_RBTREE_BLACK) m }"

text \<open>Case 4, the rotation at the parent.\<close>

definition erase_color_case4 :: "side \<Rightarrow> u64 \<Rightarrow> u64 \<Rightarrow> u64 \<Rightarrow> HevRBTree \<Rightarrow> HevRBTree option" where
  "erase_color_case4 d parent sibling tmp1 m = do {
     tmp2 \<leftarrow> rd (rn_child d) sibling m;
     m \<leftarrow> wr (rn_set_child (opp d) tmp2) parent m;
     m \<leftarrow> wr (rn_set_child d parent) sibling m;
     m \<leftarrow> hev_rbtree_node_set_parent_color tmp1 sibling HEV_RBTREE_BLACK m;
     m \<leftarrow> if_node tmp2 (hev_rbtree_node_set_parent tmp2 parent) m;
     hev_rbtree_rotate_set_parents parent sibling HEV_RBTREE_BLACK m }"

text \<open>
  Case 2, the colour flip: the result is the parent at which the loop continues, \<open>NULL\<close> for a break.
\<close>

definition erase_color_case2 :: "u64 \<Rightarrow> u64 \<Rightarrow> HevRBTree \<Rightarrow> (u64 \<times> HevRBTree) option" where
  "erase_color_case2 parent sibling m = do {
     m \<leftarrow> hev_rbtree_node_set_parent_color sibling parent HEV_RBTREE_RED m;
     red \<leftarrow> hev_rbtree_node_is_red parent m;
     if red then do { m \<leftarrow> hev_rbtree_node_set_black parent m; Some (0, m) }
     else do { gparent \<leftarrow> hev_rbtree_node_parent parent m; Some (gparent, m) } }"

text \<open>Cases 2 to 4.\<close>

definition erase_color_rest :: "side \<Rightarrow> u64 \<Rightarrow> u64 \<Rightarrow> HevRBTree \<Rightarrow> (u64 \<times> HevRBTree) option" where
  "erase_color_rest d parent sibling m = do {
     tmp1 \<leftarrow> rd (rn_child (opp d)) sibling m;
     black1 \<leftarrow> is_black_child tmp1 m;
     if black1 then do {
       tmp2 \<leftarrow> rd (rn_child d) sibling m;
       black2 \<leftarrow> is_black_child tmp2 m;
       if black2 then erase_color_case2 parent sibling m
       else do {
         m \<leftarrow> erase_color_case3 d parent sibling tmp2 m;
         m \<leftarrow> erase_color_case4 d parent tmp2 sibling m;
         Some (0, m) } }
     else do {
       m \<leftarrow> erase_color_case4 d parent sibling tmp1 m;
       Some (0, m) } }"

partial_function (option) erase_color_loop :: "u64 \<Rightarrow> u64 \<Rightarrow> HevRBTree \<Rightarrow> HevRBTree option" where
  "erase_color_loop node parent m = do {
     r \<leftarrow> rd rn_right parent m;
     let d = (if node \<noteq> r then SLeft else SRight);
     sibling \<leftarrow> rd (rn_child (opp d)) parent m;
     (sibling, m) \<leftarrow> erase_color_case1 d parent sibling m;
     (gparent, m) \<leftarrow> erase_color_rest d parent sibling m;
     if gparent \<noteq> 0 then erase_color_loop parent gparent m else Some m }"

definition rbtree_erase_color :: "u64 \<Rightarrow> HevRBTree \<Rightarrow> HevRBTree option" where
  "rbtree_erase_color parent m = erase_color_loop 0 parent m"

definition hev_rbtree_erase :: "u64 \<Rightarrow> HevRBTree \<Rightarrow> HevRBTree option" where
  "hev_rbtree_erase node m = do {
     (rebalance, m) \<leftarrow> rbtree_erase_node node m;
     if rebalance \<noteq> 0 then rbtree_erase_color rebalance m else Some m }"

declare go_down.simps [code] go_up.simps [code] insert_color_loop.simps [code] find_successor.simps [code]
  erase_color_loop.simps [code]

end
