(* ===== verification/RBTree_Shape.thy ===== *)
theory RBTree_Shape
  imports RBTree
begin

text \<open>
  The trees that the memory of a \<open>HevRBTree\<close> represents: coloured binary trees over node addresses,
  positions in them (a subtree and the path from it to the root), and the predicate that ties both
  to the memory.  The memory operations of \<open>hev-rbtree.c\<close> are described by what they do to this shape.
\<close>

section \<open>Trees and paths\<close>

datatype colour = Red | Black

datatype rbt = Lf | Nd colour rbt u64 rbt

datatype frame = Fr side colour u64 rbt

fun nd :: "side \<Rightarrow> colour \<Rightarrow> u64 \<Rightarrow> rbt \<Rightarrow> rbt \<Rightarrow> rbt" where
  "nd SLeft c p a b = Nd c a p b"
| "nd SRight c p a b = Nd c b p a"

fun rp :: "rbt \<Rightarrow> u64" where
  "rp Lf = 0"
| "rp (Nd c l p r) = p"

fun paint :: "colour \<Rightarrow> rbt \<Rightarrow> rbt" where
  "paint c Lf = Lf"
| "paint c (Nd c' l p r) = Nd c l p r"

fun colour_of :: "rbt \<Rightarrow> colour" where
  "colour_of Lf = Black"
| "colour_of (Nd c l p r) = c"

fun nodes :: "rbt \<Rightarrow> u64 list" where
  "nodes Lf = []"
| "nodes (Nd c l p r) = nodes l @ p # nodes r"

fun plug :: "rbt \<Rightarrow> frame list \<Rightarrow> rbt" where
  "plug t [] = t"
| "plug t (Fr d c p s # fs) = plug (nd d c p t s) fs"

fun nodes_before :: "frame list \<Rightarrow> u64 list" where
  "nodes_before [] = []"
| "nodes_before (Fr SLeft c p s # fs) = nodes_before fs"
| "nodes_before (Fr SRight c p s # fs) = nodes_before fs @ nodes s @ [p]"

fun nodes_after :: "frame list \<Rightarrow> u64 list" where
  "nodes_after [] = []"
| "nodes_after (Fr SLeft c p s # fs) = p # nodes s @ nodes_after fs"
| "nodes_after (Fr SRight c p s # fs) = nodes_after fs"

definition path_nodes :: "frame list \<Rightarrow> u64 set" where
  "path_nodes fs = set (nodes_before fs) \<union> set (nodes_after fs)"

fun up :: "frame list \<Rightarrow> u64" where
  "up [] = 0"
| "up (Fr d c p s # fs) = p"

fun top :: "u64 \<Rightarrow> frame list \<Rightarrow> u64" where
  "top p [] = p"
| "top p (Fr d c q s # fs) = top q fs"

lemma nodes_nd [simp]: "set (nodes (nd d c p a b)) = insert p (set (nodes a) \<union> set (nodes b))"
  by (cases d) auto

lemma distinct_nd [simp]:
  "distinct (nodes (nd d c p a b)) \<longleftrightarrow>
     p \<notin> set (nodes a) \<and> p \<notin> set (nodes b) \<and> distinct (nodes a) \<and> distinct (nodes b) \<and>
     set (nodes a) \<inter> set (nodes b) = {}"
  by (cases d) auto

lemma rp_nd [simp]: "rp (nd d c p a b) = p"
  by (cases d) auto

lemma paint_nd [simp]: "paint c' (nd d c p a b) = nd d c' p a b"
  by (cases d) auto

lemma colour_of_nd [simp]: "colour_of (nd d c p a b) = c"
  by (cases d) auto

lemma nodes_paint [simp]: "nodes (paint c t) = nodes t"
  by (cases t) auto

lemma rp_paint [simp]: "rp (paint c t) = rp t"
  by (cases t) auto

lemma paint_id [simp]: "paint (colour_of t) t = t"
  by (cases t) auto

lemma nd_neq_Lf [simp]: "nd d c p a b \<noteq> Lf" "Lf \<noteq> nd d c p a b"
  by (cases d; simp)+

lemma nd_inject [simp]: "nd d c p a b = nd d c' p' a' b' \<longleftrightarrow> c = c' \<and> p = p' \<and> a = a' \<and> b = b'"
  by (cases d) auto

lemma opp_opp [simp]: "opp (opp d) = d" and opp_neq [simp]: "opp d \<noteq> d" "d \<noteq> opp d"
  by (cases d; simp)+

lemma nd_opp: "nd (opp d) c p a b = nd d c p b a"
  by (cases d) auto

lemma side_cases: "e = d \<or> e = opp d"
  by (cases d; cases e) auto

lemma rbt_cases [case_names Lf nd]:
  obtains "t = Lf" | c p a b where "t = nd d c p a b"
proof (cases t)
  case (Nd c l p r)
  then have "t = nd d c p (if d = SLeft then l else r) (if d = SLeft then r else l)" by (cases d) auto
  then show thesis by (rule that(2))
qed (use that(1) in simp)

lemma rp_in_nodes: "t \<noteq> Lf \<Longrightarrow> rp t \<in> set (nodes t)"
  by (cases t) auto

lemma path_nodes_simps [simp]:
  "path_nodes [] = {}"
  "path_nodes (Fr d c p s # fs) = insert p (set (nodes s) \<union> path_nodes fs)"
  by (cases d; auto simp: path_nodes_def)+

lemma nodes_plug: "nodes (plug t fs) = nodes_before fs @ nodes t @ nodes_after fs"
proof (induction t fs rule: plug.induct)
  case (2 t d c p s fs)
  then show ?case by (cases d) auto
qed simp

lemma distinct_plug:
  "distinct (nodes (plug t fs)) \<longleftrightarrow>
     distinct (nodes_before fs @ nodes_after fs) \<and> distinct (nodes t) \<and> set (nodes t) \<inter> path_nodes fs = {}"
  by (auto simp: nodes_plug path_nodes_def)

lemma path_distinct_Cons [simp]:
  "distinct (nodes_before (Fr d c p s # fs) @ nodes_after (Fr d c p s # fs)) \<longleftrightarrow>
     p \<notin> set (nodes s) \<and> distinct (nodes s) \<and> p \<notin> path_nodes fs \<and> set (nodes s) \<inter> path_nodes fs = {} \<and>
     distinct (nodes_before fs @ nodes_after fs)"
  by (cases d) (auto simp: path_nodes_def)

section \<open>Nodes in memory\<close>

fun col :: "colour \<Rightarrow> u64" where
  "col Red = HEV_RBTREE_RED"
| "col Black = HEV_RBTREE_BLACK"

lemma HEV_RBTREE_col: "HEV_RBTREE_RED = col Red" "HEV_RBTREE_BLACK = col Black"
  by simp_all

definition al :: "u64 \<Rightarrow> bool" where
  "al p \<longleftrightarrow> p AND 3 = 0"

definition ptr_ok :: "u64 \<Rightarrow> bool" where
  "ptr_ok p \<longleftrightarrow> p \<noteq> 0 \<and> al p"

lemma al_0 [simp]: "al 0"
  by (simp add: al_def)

lemma ptr_ok_0 [simp]: "\<not> ptr_ok 0"
  by (simp add: ptr_ok_def)

lemma ptr_okD [simp]: "ptr_ok p \<Longrightarrow> p \<noteq> 0" "ptr_ok p \<Longrightarrow> al p"
  by (simp_all add: ptr_ok_def)

lemma bit_three: "bit (3 :: u64) n \<longleftrightarrow> n < 2"
proof -
  have "(3 :: u64) = mask 2" by (simp add: mask_eq_exp_minus_1)
  then show ?thesis by (simp only: bit_mask_iff) auto
qed

lemma al_bits: "al p \<Longrightarrow> n < 2 \<Longrightarrow> \<not> bit p n"
proof -
  assume "al p" and "n < 2"
  then have "bit (p AND 3) n = bit (0 :: u64) n" by (simp only: al_def)
  with \<open>n < 2\<close> show ?thesis by (simp only: bit_and_iff bit_three) simp
qed

lemma bit_col: "bit (col c) n \<longleftrightarrow> c = Black \<and> n = 0"
  by (cases c) (auto simp: HEV_RBTREE_RED_def HEV_RBTREE_BLACK_def bit_1_iff)

lemma and_not_aligned:
  assumes "\<And>n. bit m n \<longleftrightarrow> n < 2" and "al p"
  shows "(p OR col c) AND NOT m = p"
proof (rule bit_word_eqI)
  fix n assume "n < LENGTH(64)"
  then show "bit ((p OR col c) AND NOT m) n = bit p n"
    using assms(1)[of n] al_bits[OF assms(2), of n]
    by (cases "n < 2") (simp_all add: bit_and_iff bit_or_iff bit_not_iff bit_col)
qed

lemma pc_and_not_3: "al p \<Longrightarrow> (p OR col c) AND NOT 3 = p"
  by (rule and_not_aligned) (rule bit_three)

lemma pc_parent_numeral [simp]: "al p \<Longrightarrow> (p OR col c) AND - 4 = p"
  using pc_and_not_3 by simp

lemma pc_colour [simp]: "al p \<Longrightarrow> (p OR col c) AND 1 = col c"
  by (rule bit_word_eqI) (auto simp: bit_and_iff bit_or_iff bit_1_iff bit_col al_bits)

lemma pc_red [simp]: "al p \<Longrightarrow> p AND - 4 = p" "al p \<Longrightarrow> p AND 1 = 0"
  using pc_parent_numeral[of p Red] pc_colour[of p Red] by (simp_all add: HEV_RBTREE_RED_def)

lemma pc_root [simp]: "col c AND - 4 = 0" "col c AND 1 = col c"
  using pc_parent_numeral[of 0 c] pc_colour[of 0 c] by simp_all

lemma col_and: "col c AND HEV_RBTREE_BLACK = col c"
  by (cases c) (simp_all add: HEV_RBTREE_RED_def HEV_RBTREE_BLACK_def)

lemma col_0 [simp]: "col c = 0 \<longleftrightarrow> c = Red"
  by (cases c) (simp_all add: HEV_RBTREE_RED_def HEV_RBTREE_BLACK_def)

lemma or_red [simp]: "p OR col Red = p"
  by (simp add: HEV_RBTREE_RED_def)

lemma or_black: "p OR col c OR HEV_RBTREE_BLACK = p OR col Black"
  by (cases c) (simp_all add: HEV_RBTREE_RED_def or.assoc)

declare col.simps [simp del] HEV_RBTREE_col [simp] col_and [unfolded HEV_RBTREE_col, simp]
  or_black [unfolded HEV_RBTREE_col, simp]

lemma colour_neq [simp]: "c \<noteq> Red \<longleftrightarrow> c = Black" "c \<noteq> Black \<longleftrightarrow> c = Red"
  by (cases c; simp)+

lemma pc_fields [simp]:
  assumes "al p"
  shows "pc_parent (p OR col c) = p" and "pc_is_black (p OR col c) \<longleftrightarrow> c = Black"
  using assms unfolding pc_parent_def pc_is_black_def HEV_RBTREE_BLACK_def by simp_all

definition mk :: "side \<Rightarrow> u64 \<Rightarrow> u64 \<Rightarrow> u64 \<Rightarrow> HevRBTreeNode" where
  "mk d pc a b = (case d of SLeft \<Rightarrow> \<lparr>rn_pc = pc, rn_right = b, rn_left = a\<rparr>
     | SRight \<Rightarrow> \<lparr>rn_pc = pc, rn_right = a, rn_left = b\<rparr>)"

lemma mk_simps [simp]:
  "rn_pc (mk d pc a b) = pc"
  "rn_child d (mk d pc a b) = a"
  "rn_child (opp d) (mk d pc a b) = b"
  "rn_set_child d x (mk d pc a b) = mk d pc x b"
  "rn_set_child (opp d) x (mk d pc a b) = mk d pc a x"
  "mk d pc a b\<lparr>rn_pc := pc'\<rparr> = mk d pc' a b"
  "mk d pc a b = mk d pc' a' b' \<longleftrightarrow> pc = pc' \<and> a = a' \<and> b = b'"
  by (cases d; auto simp: mk_def)+

lemma mk_sides [simp]:
  "rn_left (mk SLeft pc a b) = a" "rn_right (mk SLeft pc a b) = b"
  "rn_left (mk SRight pc a b) = b" "rn_right (mk SRight pc a b) = a"
  "mk SLeft pc a b\<lparr>rn_left := x\<rparr> = mk SLeft pc x b" "mk SLeft pc a b\<lparr>rn_right := x\<rparr> = mk SLeft pc a x"
  "mk SRight pc a b\<lparr>rn_left := x\<rparr> = mk SRight pc a x" "mk SRight pc a b\<lparr>rn_right := x\<rparr> = mk SRight pc x b"
  by (simp_all add: mk_def)

lemma mk_opp: "mk (opp d) pc a b = mk d pc b a"
  by (cases d) (simp_all add: mk_def)

lemma mk_SRight: "mk SRight pc a b = mk SLeft pc b a"
  by (simp add: mk_def)

section \<open>Representation\<close>

fun tree_at :: "(u64 \<Rightarrow> HevRBTreeNode option) \<Rightarrow> u64 \<Rightarrow> rbt \<Rightarrow> bool" where
  "tree_at h par Lf \<longleftrightarrow> True"
| "tree_at h par (Nd c l p r) \<longleftrightarrow>
     al par \<and> ptr_ok p \<and> h p = Some (mk SLeft (par OR col c) (rp l) (rp r)) \<and> tree_at h p l \<and> tree_at h p r"

fun path_at :: "(u64 \<Rightarrow> HevRBTreeNode option) \<Rightarrow> u64 \<Rightarrow> frame list \<Rightarrow> bool" where
  "path_at h p [] \<longleftrightarrow> True"
| "path_at h p (Fr d c q s # fs) \<longleftrightarrow>
     ptr_ok q \<and> h q = Some (mk d (up fs OR col c) p (rp s)) \<and> tree_at h q s \<and> path_at h q fs"

definition at :: "HevRBTree \<Rightarrow> rbt \<Rightarrow> frame list \<Rightarrow> bool" where
  "at m t fs \<longleftrightarrow> tree_at (rt_mem m) (up fs) t \<and> path_at (rt_mem m) (rp t) fs \<and> rt_root m = top (rp t) fs \<and>
     distinct (nodes (plug t fs))"

definition represents :: "HevRBTree \<Rightarrow> rbt \<Rightarrow> bool" where
  "represents m t \<longleftrightarrow> at m t []"

lemma tree_at_nd [simp]:
  "tree_at h par (nd d c p a b) \<longleftrightarrow>
     al par \<and> ptr_ok p \<and> h p = Some (mk d (par OR col c) (rp a) (rp b)) \<and> tree_at h p a \<and> tree_at h p b"
  by (cases d) (auto simp: mk_SRight)

lemma tree_at_rp: "tree_at h par t \<Longrightarrow> rp t = 0 \<longleftrightarrow> t = Lf"
  by (cases t) auto

lemma tree_at_nodes: "tree_at h par t \<Longrightarrow> p \<in> set (nodes t) \<Longrightarrow> ptr_ok p"
  by (induction t arbitrary: par) auto

lemma path_up: "path_at h p fs \<Longrightarrow> al (up fs)"
  by (cases fs rule: up.cases) auto

lemma path_up_0: "path_at h p fs \<Longrightarrow> up fs = 0 \<longleftrightarrow> fs = []"
  by (cases fs rule: up.cases) auto

lemma tree_at_upd [simp]: "p \<notin> set (nodes t) \<Longrightarrow> tree_at (h(p := x)) par t = tree_at h par t"
  by (induction t arbitrary: par) auto

lemma path_at_upd [simp]: "p \<notin> path_nodes fs \<Longrightarrow> path_at (h(p := x)) q fs = path_at h q fs"
  by (induction h q fs rule: path_at.induct) auto

lemma at_Cons: "at m t (Fr d c p s # fs) \<longleftrightarrow> at m (nd d c p t s) fs"
  unfolding at_def by (auto dest: path_up)

lemma at_plug: "at m t fs \<longleftrightarrow> represents m (plug t fs)"
  unfolding represents_def by (induction t fs rule: plug.induct) (simp_all add: at_Cons)

text \<open>Rewriting the root of a subtree for a parent and a colour.\<close>

fun put :: "u64 \<Rightarrow> rbt \<Rightarrow> (u64 \<Rightarrow> HevRBTreeNode option) \<Rightarrow> (u64 \<Rightarrow> HevRBTreeNode option)" where
  "put par Lf h = h"
| "put par (Nd c l p r) h = h(p \<mapsto> mk SLeft (par OR col c) (rp l) (rp r))"

lemmas disjoint_simps = Int_Un_distrib Int_Un_distrib2 Un_empty

lemma put_other [simp]: "q \<notin> set (nodes s) \<Longrightarrow> put par s h q = h q"
  by (cases s) auto

lemma tree_at_put_other [simp]: "set (nodes s) \<inter> set (nodes t) = {} \<Longrightarrow> tree_at (put par s h) par' t = tree_at h par' t"
  by (cases s) auto

lemma path_at_put_other [simp]: "set (nodes s) \<inter> path_nodes fs = {} \<Longrightarrow> path_at (put par s h) p fs = path_at h p fs"
  by (cases s) auto

lemma put_other_swapped [simp]:
  "set (nodes t) \<inter> set (nodes s) = {} \<Longrightarrow> tree_at (put par s h) par' t = tree_at h par' t"
  "path_nodes fs \<inter> set (nodes s) = {} \<Longrightarrow> path_at (put par s h) p fs = path_at h p fs"
  by (simp_all add: Int_commute)

lemma tree_at_put:
  assumes "tree_at h par0 s" and "al par" and "distinct (nodes s)"
  shows "tree_at (put par (paint c s) h) par (paint c s)" and "tree_at (put par s h) par s"
  using assms by (cases s; auto)+

section \<open>Reading and writing\<close>

lemma rd_mem: "rt_mem m p = Some n \<Longrightarrow> p \<noteq> 0 \<Longrightarrow> rd f p m = Some (f n)"
  by (simp add: rd_def)

lemma wr_mem: "rt_mem m p = Some n \<Longrightarrow> p \<noteq> 0 \<Longrightarrow> wr f p m = Some (m\<lparr>rt_mem := (rt_mem m)(p \<mapsto> f n)\<rparr>)"
  by (simp add: wr_def)

lemmas access_defs = hev_rbtree_node_empty_def hev_rbtree_node_parent_def hev_rbtree_node_color_def
  hev_rbtree_node_is_red_def hev_rbtree_node_is_black_def hev_rbtree_node_red_parent_def
  hev_rbtree_node_set_black_def hev_rbtree_node_set_parent_color_def

lemma node_access:
  assumes "rt_mem m p = Some (mk d (par OR col c) a b)" and "p \<noteq> 0" and "al par"
  shows "hev_rbtree_node_parent p m = Some par"
    and "hev_rbtree_node_color p m = Some (col c)"
    and "hev_rbtree_node_is_red p m = Some (c = Red)"
    and "hev_rbtree_node_is_black p m = Some (c = Black)"
    and "hev_rbtree_node_red_parent p m = Some (par OR col c)"
    and "rd (rn_child d) p m = Some a" and "rd (rn_child (opp d)) p m = Some b"
    and "rd rn_pc p m = Some (par OR col c)"
    and "hev_rbtree_node_set_parent_color p par' x m =
      Some (m\<lparr>rt_mem := (rt_mem m)(p \<mapsto> mk d (par' OR x) a b)\<rparr>)"
    and "hev_rbtree_node_set_parent p par' m =
      Some (m\<lparr>rt_mem := (rt_mem m)(p \<mapsto> mk d (par' OR col c) a b)\<rparr>)"
  using assms by (simp_all add: access_defs rd_mem wr_mem hev_rbtree_node_set_parent_def or.commute[of "col c"])

lemma subtree_access:
  assumes "tree_at (rt_mem m) par t"
  shows "is_red_node (rp t) m = Some (colour_of t = Red)"
    and "is_black_child (rp t) m = Some (colour_of t = Black)"
    and "if_node (rp t) (hev_rbtree_node_set_parent_color (rp t) par' (col c)) m =
      Some (m\<lparr>rt_mem := put par' (paint c t) (rt_mem m)\<rparr>)"
    and "if_node (rp t) (hev_rbtree_node_set_parent (rp t) par') m = Some (m\<lparr>rt_mem := put par' t (rt_mem m)\<rparr>)"
  using assms by (cases t; simp add: is_red_node_def is_black_child_def if_node_def node_access)+

lemma change_child_at:
  assumes "path_at (rt_mem m) old fs" and "rt_root m = top old fs" and "old \<noteq> 0" and "old \<notin> path_nodes fs"
    and "tree_at (rt_mem m) (up fs) t" and "distinct (nodes (plug t fs))"
  shows "\<exists>m'. hev_rbtree_change_child old (rp t) (up fs) m = Some m' \<and> at m' t fs"
proof (cases fs rule: up.cases)
  case 1
  then show ?thesis using assms by (simp add: hev_rbtree_change_child_def at_def)
next
  case (2 d c p s fs')
  have p: "p \<noteq> 0" "rt_mem m p = Some (mk d (up fs' OR col c) old (rp s))" using assms(1) 2 by auto
  moreover have s: "rp s \<noteq> old" using assms(3,4) 2 rp_in_nodes[of s] by (cases s) auto
  ultimately have "hev_rbtree_change_child old (rp t) p m =
      Some (m\<lparr>rt_mem := (rt_mem m)(p \<mapsto> mk d (up fs' OR col c) (rp t) (rp s))\<rparr>)"
    by (cases d) (simp_all add: hev_rbtree_change_child_def rd_mem wr_mem)
  then show ?thesis using assms 2 unfolding at_def by (auto simp: distinct_plug)
qed

section \<open>Red-black invariants\<close>

fun invc :: "rbt \<Rightarrow> bool" where
  "invc Lf \<longleftrightarrow> True"
| "invc (Nd c l p r) \<longleftrightarrow> (c = Red \<longrightarrow> colour_of l = Black \<and> colour_of r = Black) \<and> invc l \<and> invc r"

fun bh :: "rbt \<Rightarrow> nat" where
  "bh Lf = 0"
| "bh (Nd c l p r) = bh l + (if c = Black then 1 else 0)"

fun invh :: "rbt \<Rightarrow> bool" where
  "invh Lf \<longleftrightarrow> True"
| "invh (Nd c l p r) \<longleftrightarrow> bh l = bh r \<and> invh l \<and> invh r"

definition rb :: "rbt \<Rightarrow> bool" where
  "rb t \<longleftrightarrow> invc t \<and> invh t \<and> colour_of t = Black"

text \<open>The colour above a position; above the root only a black node is allowed.\<close>

fun edge :: "frame list \<Rightarrow> colour" where
  "edge [] = Red"
| "edge (Fr d c p s # fs) = c"

fun path_ok :: "nat \<Rightarrow> frame list \<Rightarrow> bool" where
  "path_ok n [] \<longleftrightarrow> True"
| "path_ok n (Fr d c p s # fs) \<longleftrightarrow>
     invc s \<and> invh s \<and> bh s = n \<and> (c = Red \<longrightarrow> colour_of s = Black \<and> edge fs = Black) \<and>
     path_ok (n + (if c = Black then 1 else 0)) fs"

lemma inv_nd [simp]:
  "invc (nd d c p a b) \<longleftrightarrow> (c = Red \<longrightarrow> colour_of a = Black \<and> colour_of b = Black) \<and> invc a \<and> invc b"
  "invh (nd d c p a b) \<longleftrightarrow> bh a = bh b \<and> invh a \<and> invh b"
  "bh a = bh b \<Longrightarrow> bh (nd d c p a b) = bh b + (if c = Black then 1 else 0)"
  by (cases d; auto)+

lemma inv_paint [simp]:
  "invh (paint c t) \<longleftrightarrow> invh t"
  "invc t \<Longrightarrow> invc (paint Black t)"
  "colour_of (paint Black t) = Black"
  by (cases t; auto)+

lemma paint_black_id [simp]: "colour_of t = Black \<Longrightarrow> paint Black t = t"
  by (cases t) auto

lemma rb_plug:
  "rb (plug t fs) \<longleftrightarrow>
     invc t \<and> invh t \<and> path_ok (bh t) fs \<and> (colour_of t = Red \<longrightarrow> edge fs = Black)"
proof (induction t fs rule: plug.induct)
  case (1 t)
  then show ?case by (cases "colour_of t") (auto simp: rb_def)
next
  case (2 t d c p s fs)
  then show ?case by (cases "bh t = bh s"; cases c; cases "colour_of t"; auto)
qed

text \<open>A red-black tree is not deep: one of depth \<open>h\<close> has at least \<open>2 ^ (h div 2) - 1\<close> nodes.\<close>

fun depth :: "rbt \<Rightarrow> nat" where
  "depth Lf = 0"
| "depth (Nd c l p r) = Suc (max (depth l) (depth r))"

lemma depth_bh: "invc t \<Longrightarrow> invh t \<Longrightarrow> depth t \<le> 2 * bh t + (if colour_of t = Red then 1 else 0)"
  by (induction t) (auto split: if_splits)

lemma bh_size: "invh t \<Longrightarrow> 2 ^ bh t \<le> length (nodes t) + 1"
  by (induction t) auto

lemma rb_depth:
  assumes "rb t"
  shows "2 ^ (depth t div 2) \<le> length (nodes t) + 1"
proof -
  have "depth t div 2 \<le> bh t" using assms depth_bh[of t] by (simp add: rb_def)
  then have "(2 :: nat) ^ (depth t div 2) \<le> 2 ^ bh t" by (intro power_increasing) simp_all
  also have "\<dots> \<le> length (nodes t) + 1" using assms bh_size[of t] by (simp add: rb_def)
  finally show ?thesis .
qed

end
