(* ===== verification/RBTree_Insert.thy ===== *)
theory RBTree_Insert
  imports RBTree_Shape
begin

text \<open>
  What linking and \<open>hev_rbtree_insert_color\<close> do to the shape of a tree: the rotations and colour flips
  as a function on positions, which the memory operations implement, which keeps the in-order
  sequence of the nodes and restores the red-black invariants.
\<close>

lemmas mem_defs = rd_def wr_def access_defs hev_rbtree_node_set_parent_def

lemma atD:
  assumes "at m t fs"
  shows "tree_at (rt_mem m) (up fs) t" and "path_at (rt_mem m) (rp t) fs" and "rt_root m = top (rp t) fs"
    and "distinct (nodes t)" and "set (nodes t) \<inter> path_nodes fs = {}"
    and "distinct (nodes_before fs @ nodes_after fs)"
  using assms by (auto simp: at_def distinct_plug)

section \<open>Rotations\<close>

lemma rotate_outer:
  assumes "at m (nd e c g (nd e Red p t s) u) fs" and "t \<noteq> Lf"
  shows "\<exists>m'. insert_color_rotate e (rp t) p g m = Some m' \<and>
     at m' (nd e c p t (nd e Red g (paint Black s) u)) fs"
proof -
  note a = atD[OF assms(1)]
  have n: "rp t \<in> set (nodes t)" by (rule rp_in_nodes[OF assms(2)])
  have ne: "rp t \<noteq> rp s" using a(1,4) n rp_in_nodes[of s] assms(2) by (cases "s = Lf") (auto simp: tree_at_rp)
  let ?h = "put g (paint Black s) ((rt_mem m)(g \<mapsto> mk e (up fs OR col c) (rp s) (rp u), p \<mapsto> mk e (g OR col Red) (rp t) g))"
  let ?h' = "?h(p \<mapsto> mk e (up fs OR col c) (rp t) g, g \<mapsto> mk e (p OR col Red) (rp s) (rp u))"
  have "insert_color_rotate e (rp t) p g m = hev_rbtree_change_child g p (up fs) (m\<lparr>rt_mem := ?h'\<rparr>)"
    using a ne subtree_access(3)[where t = s and par = p and c = Black]
    by (clarsimp simp: insert_color_rotate_def hev_rbtree_rotate_set_parents_def mem_defs)
  moreover have "\<exists>m'. hev_rbtree_change_child g (rp (nd e c p t (nd e Red g (paint Black s) u))) (up fs) (m\<lparr>rt_mem := ?h'\<rparr>) = Some m' \<and>
      at m' (nd e c p t (nd e Red g (paint Black s) u)) fs"
    using a by (intro change_child_at) (auto simp: distinct_plug disjoint_simps intro!: tree_at_put(1))
  ultimately show ?thesis by simp
qed

lemma rotate_inner:
  assumes "at m (nd e c g (nd e Red p s (nd e x n a b)) u) fs"
  shows "\<exists>m'. insert_color_rotate e n p g m = Some m' \<and>
     at m' (nd e c n (nd e Red p s (paint Black a)) (nd e Red g (paint Black b) u)) fs"
proof -
  note a = atD[OF assms(1)]
  let ?t = "nd e c n (nd e Red p s (paint Black a)) (nd e Red g (paint Black b) u)"
  let ?h1 = "put p (paint Black a) ((rt_mem m)(p \<mapsto> mk e (g OR col Red) (rp s) (rp a), n \<mapsto> mk e (p OR col x) p (rp b)))"
  let ?h2 = "put g (paint Black b) (?h1(p \<mapsto> mk e (n OR col Red) (rp s) (rp a), g \<mapsto> mk e (up fs OR col c) (rp b) (rp u),
     n \<mapsto> mk e (p OR col x) p g))"
  let ?h3 = "?h2(n \<mapsto> mk e (up fs OR col c) p g, g \<mapsto> mk e (n OR col Red) (rp b) (rp u))"
  have "insert_color_rotate e n p g m = hev_rbtree_change_child g n (up fs) (m\<lparr>rt_mem := ?h3\<rparr>)"
    using a subtree_access(3)[where t = a and par = n and c = Black] subtree_access(3)[where t = b and par = n and c = Black]
    by (clarsimp simp: insert_color_rotate_def hev_rbtree_rotate_set_parents_def mem_defs disjoint_simps)
  moreover have "\<exists>m'. hev_rbtree_change_child g (rp ?t) (up fs) (m\<lparr>rt_mem := ?h3\<rparr>) = Some m' \<and> at m' ?t fs"
    using a by (intro change_child_at) (auto simp: distinct_plug disjoint_simps intro!: tree_at_put(1))
  ultimately show ?thesis by simp
qed

lemma colour_flip:
  assumes "at m (nd e c g (nd d Red p t s) u) fs" and "colour_of u = Red"
  shows "\<exists>m'. do {
      m \<leftarrow> hev_rbtree_node_set_parent_color (rp u) g HEV_RBTREE_BLACK m;
      m \<leftarrow> hev_rbtree_node_set_parent_color p g HEV_RBTREE_BLACK m;
      parent \<leftarrow> hev_rbtree_node_parent g m;
      m \<leftarrow> hev_rbtree_node_set_parent_color g parent HEV_RBTREE_RED m;
      insert_color_loop g parent m } = insert_color_loop g (up fs) m' \<and>
     at m' (nd e Red g (nd d Black p t s) (paint Black u)) fs"
proof -
  note a = atD[OF assms(1)]
  have u: "u \<noteq> Lf" using assms(2) by auto
  let ?h = "(put g (paint Black u) (rt_mem m))(p \<mapsto> mk d (g OR col Black) (rp t) (rp s), g \<mapsto> mk e (up fs OR col Red) p (rp u))"
  have "hev_rbtree_node_set_parent_color (rp u) g (col Black) m = Some (m\<lparr>rt_mem := put g (paint Black u) (rt_mem m)\<rparr>)"
    using subtree_access(3)[of m g u g Black] a(1) u by (auto simp: if_node_def tree_at_rp)
  then have "do {
      m \<leftarrow> hev_rbtree_node_set_parent_color (rp u) g HEV_RBTREE_BLACK m;
      m \<leftarrow> hev_rbtree_node_set_parent_color p g HEV_RBTREE_BLACK m;
      parent \<leftarrow> hev_rbtree_node_parent g m;
      m \<leftarrow> hev_rbtree_node_set_parent_color g parent HEV_RBTREE_RED m;
      insert_color_loop g parent m } = insert_color_loop g (up fs) (m\<lparr>rt_mem := ?h\<rparr>)"
    using a by (clarsimp simp: mem_defs disjoint_simps)
  moreover have "at (m\<lparr>rt_mem := ?h\<rparr>) (nd e Red g (nd d Black p t s) (paint Black u)) fs"
    using a unfolding at_def by (auto simp: distinct_plug disjoint_simps intro!: tree_at_put(1))
  ultimately show ?thesis by blast
qed

section \<open>The loop\<close>

fun rot_inner :: "side \<Rightarrow> colour \<Rightarrow> u64 \<Rightarrow> rbt \<Rightarrow> u64 \<Rightarrow> rbt \<Rightarrow> rbt \<Rightarrow> rbt" where
  "rot_inner SLeft c g u p s (Nd x a n b) = nd SLeft c n (nd SLeft Red p s (paint Black a)) (nd SLeft Red g (paint Black b) u)"
| "rot_inner SRight c g u p s (Nd x a n b) = nd SRight c n (nd SRight Red p s (paint Black b)) (nd SRight Red g (paint Black a) u)"
| "rot_inner e c g u p s Lf = Lf"

lemma rot_inner_nd [simp]:
  "rot_inner e c g u p s (nd e x n a b) = nd e c n (nd e Red p s (paint Black a)) (nd e Red g (paint Black b) u)"
  by (cases e) simp_all

fun ins_fix :: "rbt \<Rightarrow> frame list \<Rightarrow> rbt" where
  "ins_fix t [] = paint Black t"
| "ins_fix t (Fr d Black p s # fs) = plug (nd d Black p t s) fs"
| "ins_fix t [Fr d Red p s] = nd d Red p t s"
| "ins_fix t (Fr d Red p s # Fr e c g u # fs) =
     (if colour_of u = Red then ins_fix (nd e Red g (nd d Black p t s) (paint Black u)) fs
      else plug (if d = e then nd e c p t (nd e Red g (paint Black s) u) else rot_inner e c g u p s t) fs)"

fun root_black :: "frame list \<Rightarrow> bool" where
  "root_black [] \<longleftrightarrow> True"
| "root_black [Fr d c p s] \<longleftrightarrow> c = Black"
| "root_black (f # f' # fs) \<longleftrightarrow> root_black (f' # fs)"

lemma root_black_tl: "root_black (f # fs) \<Longrightarrow> root_black fs"
  by (cases fs) auto

lemma which_side:
  assumes "rd rn_right g m = Some r" and "rt_mem m g = Some (mk e pc p q)" and "p \<noteq> q"
  shows "(if p \<noteq> r then SLeft else SRight) = e"
  using assms by (cases e) (auto simp: rd_def split: if_splits)

lemma insert_color_loop_at:
  assumes "at m t fs" and "t \<noteq> Lf" and "root_black fs"
  shows "\<exists>m'. insert_color_loop (rp t) (up fs) m = Some m' \<and> represents m' (ins_fix t fs)"
  using assms
proof (induction t fs arbitrary: m rule: ins_fix.induct)
  case (1 t)
  then obtain c l p r where t: "t = Nd c l p r" by (cases t) auto
  have "insert_color_loop (rp t) (up []) m = Some (m\<lparr>rt_mem := (rt_mem m)(p \<mapsto> mk SLeft (0 OR col Black) (rp l) (rp r))\<rparr>)"
    using atD[OF 1(1)] by (subst insert_color_loop.simps) (simp add: mem_defs t)
  then show ?case using atD[OF 1(1)] by (auto simp: represents_def at_def t)
next
  case (2 t d p s fs)
  have "insert_color_loop (rp t) p m = Some m"
    using atD[OF 2(1)] path_up[of "rt_mem m" p fs] by (subst insert_color_loop.simps) (simp add: node_access)
  with 2 show ?case by (simp add: at_plug)
next
  case (3 t d p s)
  then show ?case by simp
next
  case (4 t d p s e c g u fs)
  have at': "at m (nd e c g (nd d Red p t s) u) fs" using 4(2) by (simp add: at_Cons)
  note a = atD[OF at']
  have pu: "p \<noteq> rp u" using a(1,4) rp_in_nodes[of u] by (cases "u = Lf") auto
  have side: "rd rn_right g m = Some (rn_right (mk e (up fs OR col c) p (rp u)))" using a(1) by (simp add: rd_def)
  have loop: "insert_color_loop (rp t) p m =
     (if colour_of u = Red then do {
        m \<leftarrow> hev_rbtree_node_set_parent_color (rp u) g HEV_RBTREE_BLACK m;
        m \<leftarrow> hev_rbtree_node_set_parent_color p g HEV_RBTREE_BLACK m;
        parent \<leftarrow> hev_rbtree_node_parent g m;
        m \<leftarrow> hev_rbtree_node_set_parent_color g parent HEV_RBTREE_RED m;
        insert_color_loop g parent m }
      else insert_color_rotate e (rp t) p g m)"
  proof -
    have p: "rt_mem m p = Some (mk d (g OR col Red) (rp t) (rp s))" "p \<noteq> 0" "al g"
      and g: "rt_mem m g = Some (mk e (up fs OR col c) p (rp u))" "g \<noteq> 0" "al (up fs)" and u: "tree_at (rt_mem m) g u"
      using a(1) by simp_all
    show ?thesis
      using node_access(4,5)[OF p] node_access(7)[OF g] which_side[OF side g(1) pu] side p(2) subtree_access(1)[OF u]
      by (subst insert_color_loop.simps) simp
  qed
  show ?case
  proof (cases "colour_of u = Red")
    case True
    from colour_flip[OF at' True] obtain m' where m': "insert_color_loop (rp t) p m = insert_color_loop g (up fs) m'"
      "at m' (nd e Red g (nd d Black p t s) (paint Black u)) fs" using loop True by auto
    from 4(1)[OF True m'(2)] 4(4) m'(1) True show ?thesis by (auto dest!: root_black_tl)
  next
    case False
    have "\<exists>m'. insert_color_rotate e (rp t) p g m = Some m' \<and>
        at m' (if d = e then nd e c p t (nd e Red g (paint Black s) u) else rot_inner e c g u p s t) fs"
    proof (cases "d = e")
      case True
      then show ?thesis using rotate_outer[of m e c g p t s u fs] at' 4(3) by simp
    next
      case False
      obtain x n a b where t: "t = nd e x n a b" using 4(3) by (cases t rule: rbt_cases[where d = e]) auto
      have "d = opp e" using False side_cases by blast
      then show ?thesis using rotate_inner[of m e c g p s x n a b u fs] at' False by (simp add: t nd_opp)
    qed
    then show ?thesis using loop False by (simp add: at_plug)
  qed
qed

lemma path_ok_root_black: "path_ok n fs \<Longrightarrow> root_black fs"
  by (induction fs arbitrary: n rule: root_black.induct) (auto elim: path_ok.elims)

lemma nodes_rot_inner: "t \<noteq> Lf \<Longrightarrow> d = opp e \<Longrightarrow> nodes (rot_inner e c g u p s t) = nodes (nd e x g (nd d y p t s) u)"
  by (cases t; cases e) auto

lemma nodes_ins_fix: "t \<noteq> Lf \<Longrightarrow> nodes (ins_fix t fs) = nodes (plug t fs)"
proof (induction t fs rule: ins_fix.induct)
  case (4 t d p s e c g u fs)
  show ?case
  proof (cases "colour_of u = Red")
    case True
    then show ?thesis using 4(1)[OF True] by (cases d; cases e) (simp_all add: nodes_plug)
  next
    case False
    have "d = e \<or> d = opp e" by (rule side_cases)
    then show ?thesis using False 4(2) nodes_rot_inner[of t d e c g u p s c Red]
      by (cases d; cases e) (auto simp: nodes_plug)
  qed
qed simp_all

lemma ins_fix_rb:
  assumes "colour_of t = Red" and "invc t" and "invh t" and "path_ok (bh t) fs"
  shows "rb (ins_fix t fs)"
  using assms
proof (induction t fs rule: ins_fix.induct)
  case (4 t d p s e c g u fs)
  have c: "c = Black" and s: "invc s" "invh s" "bh s = bh t" "colour_of s = Black"
    and u: "invc u" "invh u" "bh u = bh t" and fs: "path_ok (Suc (bh t)) fs"
    using 4(5) by auto
  show ?case
  proof (cases "colour_of u = Red")
    case True
    have "bh (paint Black u) = Suc (bh t)" using True u(3) by (cases u) auto
    then show ?thesis using True 4 s u fs by simp
  next
    case False
    obtain n a b where t: "t = nd e Red n a b" using 4(2) by (cases t rule: rbt_cases[where d = e]) auto
    have "rb (plug (rot_inner e Black g u p s t) fs)" "rb (plug (nd e Black p t (nd e Red g s u)) fs)"
      using False 4(3,4) s u fs by (auto simp: rb_plug t)
    then show ?thesis using False by (simp add: c s)
  qed
next
  case (1 t)
  then show ?case by (simp add: rb_def)
qed (auto simp: rb_plug)

section \<open>Linking and inserting\<close>

fun link_of :: "frame list \<Rightarrow> rblink" where
  "link_of [] = RootLink"
| "link_of (Fr d c p s # fs) = ChildLink d p"

lemma node_link_at:
  assumes "at m Lf fs" and "ptr_ok n" and "n \<notin> path_nodes fs" and "rt_mem m n = Some x"
  shows "\<exists>m'. hev_rbtree_node_link n (up fs) (link_of fs) m = Some m' \<and> at m' (Nd Red Lf n Lf) fs"
proof (cases fs rule: up.cases)
  case 1
  then show ?thesis using assms by (simp add: hev_rbtree_node_link_def wr_def at_def mk_def)
next
  case (2 d c p s fs')
  then have "p \<noteq> n" using assms(3) by auto
  then show ?thesis using assms 2 atD[OF assms(1)]
    by (cases d) (auto simp: hev_rbtree_node_link_def wr_def at_def distinct_plug mk_def)
qed

lemma insert_at:
  assumes "represents m (plug Lf fs)" and "rb (plug Lf fs)"
    and "ptr_ok n" and "n \<notin> set (nodes (plug Lf fs))" and "rt_mem m n = Some x"
  shows "\<exists>m' m'' t. hev_rbtree_node_link n (up fs) (link_of fs) m = Some m' \<and>
     hev_rbtree_insert_color n m' = Some m'' \<and> represents m'' t \<and> rb t \<and>
     nodes t = nodes_before fs @ [n] @ nodes_after fs"
proof -
  have at: "at m Lf fs" using assms(1) by (simp add: at_plug)
  have n: "n \<notin> path_nodes fs" using assms(4) by (simp add: nodes_plug path_nodes_def)
  obtain m' where m': "hev_rbtree_node_link n (up fs) (link_of fs) m = Some m'" "at m' (Nd Red Lf n Lf) fs"
    using node_link_at[OF at assms(3) n assms(5)] by blast
  have ok: "path_ok 0 fs" using assms(2) by (simp add: rb_plug)
  obtain m'' where "insert_color_loop n (up fs) m' = Some m''" "represents m'' (ins_fix (Nd Red Lf n Lf) fs)"
    using insert_color_loop_at[OF m'(2) _ path_ok_root_black[OF ok]] by auto
  moreover have "hev_rbtree_node_red_parent n m' = Some (up fs)"
    using atD(1)[OF m'(2)] by (simp add: access_defs rd_def)
  ultimately show ?thesis
    using m'(1) ins_fix_rb[of "Nd Red Lf n Lf" fs] ok nodes_ins_fix[of "Nd Red Lf n Lf" fs]
    by (auto simp: hev_rbtree_insert_color_def nodes_plug)
qed

end
