(* ===== verification/RBTree_Erase.thy ===== *)
theory RBTree_Erase
  imports RBTree_Insert
begin

text \<open>
  What \<open>hev_rbtree_erase\<close> does to the shape of a tree: unlinking a node (\<open>_hev_rbtree_erase\<close>) and the
  rebalancing loop (\<open>_hev_rbtree_erase_color\<close>), as functions on positions that the memory operations
  implement; the sequence of the remaining nodes is kept and the red-black invariants are restored.
\<close>

section \<open>Rotations of the rebalancing loop\<close>

lemma case1_at:
  assumes "at m (nd d c p t (nd d Red q sl sr)) fs" and "sl \<noteq> Lf"
  shows "\<exists>m'. erase_color_case1 d p q m = Some (rp sl, m') \<and>
     at m' (nd d c q (nd d Red p t (paint Black sl)) sr) fs"
proof -
  note a = atD[OF assms(1)]
  let ?t = "nd d c q (nd d Red p t (paint Black sl)) sr"
  let ?h = "put p (paint Black sl) ((rt_mem m)(p \<mapsto> mk d (up fs OR col c) (rp t) (rp sl), q \<mapsto> mk d (p OR col Red) p (rp sr)))"
  let ?h' = "?h(q \<mapsto> mk d (up fs OR col c) p (rp sr), p \<mapsto> mk d (q OR col Red) (rp t) (rp sl))"
  have sl: "hev_rbtree_node_set_parent_color (rp sl) p (col Black) m' =
      Some (m'\<lparr>rt_mem := put p (paint Black sl) (rt_mem m')\<rparr>)" if "tree_at (rt_mem m') q sl" for m'
    using subtree_access(3)[OF that, of p Black] assms(2) that by (simp add: if_node_def tree_at_rp)
  have "erase_color_case1 d p q m = Option.bind (hev_rbtree_change_child p q (up fs) (m\<lparr>rt_mem := ?h'\<rparr>)) (\<lambda>m. Some (rp sl, m))"
    using a sl by (clarsimp simp: erase_color_case1_def hev_rbtree_rotate_set_parents_def mem_defs disjoint_simps)
  moreover have "\<exists>m'. hev_rbtree_change_child p (rp ?t) (up fs) (m\<lparr>rt_mem := ?h'\<rparr>) = Some m' \<and> at m' ?t fs"
    using a by (intro change_child_at) (auto simp: distinct_plug disjoint_simps intro!: tree_at_put(1))
  ultimately show ?thesis by auto
qed

lemma case2_at:
  assumes "at m (nd d c p t (nd d x q sl sr)) fs"
  shows "\<exists>m'. erase_color_case2 p q m = Some (if c = Red then 0 else up fs, m') \<and>
     at m' (nd d Black p t (nd d Red q sl sr)) fs"
proof -
  note a = atD[OF assms(1)]
  let ?h = "(rt_mem m)(q \<mapsto> mk d (p OR col Red) (rp sl) (rp sr), p \<mapsto> mk d (up fs OR col Black) (rp t) q)"
  have "(rt_mem m)(q \<mapsto> mk d (p OR col Red) (rp sl) (rp sr)) = ?h" if "c = Black"
    using a(1,4) that by (auto simp: fun_eq_iff)
  then have "erase_color_case2 p q m = Some (if c = Red then 0 else up fs, m\<lparr>rt_mem := ?h\<rparr>)"
    using a by (cases c) (clarsimp simp: erase_color_case2_def mem_defs)+
  moreover have "at (m\<lparr>rt_mem := ?h\<rparr>) (nd d Black p t (nd d Red q sl sr)) fs"
    using a unfolding at_def by (auto simp: distinct_plug disjoint_simps)
  ultimately show ?thesis by blast
qed

lemma case4_at:
  assumes "at m (nd d c p t (nd d x q sl sr)) fs" and "sr \<noteq> Lf"
  shows "\<exists>m'. erase_color_case4 d p q (rp sr) m = Some m' \<and>
     at m' (nd d c q (nd d Black p t sl) (paint Black sr)) fs"
proof -
  note a = atD[OF assms(1)]
  let ?t = "nd d c q (nd d Black p t sl) (paint Black sr)"
  let ?h = "put p sl (put q (paint Black sr)
    ((rt_mem m)(p \<mapsto> mk d (up fs OR col c) (rp t) (rp sl), q \<mapsto> mk d (p OR col x) p (rp sr))))"
  let ?h' = "?h(q \<mapsto> mk d (up fs OR col c) p (rp sr), p \<mapsto> mk d (q OR col Black) (rp t) (rp sl))"
  have sr: "hev_rbtree_node_set_parent_color (rp sr) q (col Black) m' =
      Some (m'\<lparr>rt_mem := put q (paint Black sr) (rt_mem m')\<rparr>)" if "tree_at (rt_mem m') q sr" for m'
    using subtree_access(3)[OF that, of q Black] assms(2) that by (simp add: if_node_def tree_at_rp)
  have "erase_color_case4 d p q (rp sr) m = hev_rbtree_change_child p q (up fs) (m\<lparr>rt_mem := ?h'\<rparr>)"
    using a sr subtree_access(4)[where t = sl and par = q]
    by (clarsimp simp: erase_color_case4_def hev_rbtree_rotate_set_parents_def mem_defs disjoint_simps)
  moreover have "\<exists>m'. hev_rbtree_change_child p (rp ?t) (up fs) (m\<lparr>rt_mem := ?h'\<rparr>) = Some m' \<and> at m' ?t fs"
    using a by (intro change_child_at) (auto simp: distinct_plug disjoint_simps intro!: tree_at_put(1)[where s = sr] tree_at_put(2)[where s = sl])
  ultimately show ?thesis by simp
qed

lemma case34_at:
  assumes "at m (nd d c p t (nd d x q (nd d y n a b) sr)) fs"
  shows "\<exists>m'. Option.bind (erase_color_case3 d p q n m) (erase_color_case4 d p n q) = Some m' \<and>
     at m' (nd d c n (nd d Black p t a) (nd d Black q (paint Black b) sr)) fs"
proof -
  note a = atD[OF assms(1)]
  let ?t = "nd d c n (nd d Black p t a) (nd d Black q (paint Black b) sr)"
  let ?h1 = "put q (paint Black b) ((rt_mem m)(q \<mapsto> mk d (p OR col x) (rp b) (rp sr), n \<mapsto> mk d (q OR col y) (rp a) q,
     p \<mapsto> mk d (up fs OR col c) (rp t) n))"
  let ?h2 = "put p a (?h1(p \<mapsto> mk d (up fs OR col c) (rp t) (rp a), n \<mapsto> mk d (q OR col y) p q, q \<mapsto> mk d (n OR col Black) (rp b) (rp sr)))"
  let ?h3 = "?h2(n \<mapsto> mk d (up fs OR col c) p q, p \<mapsto> mk d (n OR col Black) (rp t) (rp a))"
  have "erase_color_case3 d p q n m = Some (m\<lparr>rt_mem := ?h1\<rparr>)"
    using a subtree_access(3)[where t = b and par = n and c = Black]
    by (clarsimp simp: erase_color_case3_def mem_defs disjoint_simps)
  moreover have "erase_color_case4 d p n q (m\<lparr>rt_mem := ?h1\<rparr>) = hev_rbtree_change_child p n (up fs) (m\<lparr>rt_mem := ?h3\<rparr>)"
    using a subtree_access(4)[where t = a and par = n]
    by (clarsimp simp: erase_color_case4_def hev_rbtree_rotate_set_parents_def mem_defs disjoint_simps)
  moreover have "\<exists>m'. hev_rbtree_change_child p (rp ?t) (up fs) (m\<lparr>rt_mem := ?h3\<rparr>) = Some m' \<and> at m' ?t fs"
    using a by (intro change_child_at)
      (auto simp: distinct_plug disjoint_simps intro!: tree_at_put(1)[where s = b] tree_at_put(2)[where s = a])
  ultimately show ?thesis by simp
qed

section \<open>The rebalancing loop\<close>

fun sub :: "side \<Rightarrow> rbt \<Rightarrow> rbt" where
  "sub SLeft (Nd c l p r) = l"
| "sub SRight (Nd c l p r) = r"
| "sub d Lf = Lf"

lemma sub_nd [simp]: "sub d (nd d c p a b) = a" "sub (opp d) (nd d c p a b) = b"
  by (cases d; simp)+

text \<open>
  The subtree at the parent after the cases 2 to 4, where \<open>t\<close> lacks one black node and \<open>s\<close> is its
  sibling, and whether it lacks one itself.
\<close>

definition del_step :: "side \<Rightarrow> colour \<Rightarrow> u64 \<Rightarrow> rbt \<Rightarrow> rbt \<Rightarrow> rbt \<times> bool" where
  "del_step d c p t s =
     (let near = sub d s; far = sub (opp d) s; q = rp s in
      if colour_of far = Black then
        if colour_of near = Black then (nd d Black p t (paint Red s), c = Black)
        else (nd d c (rp near) (nd d Black p t (sub d near)) (nd d Black q (paint Black (sub (opp d) near)) far), False)
      else (nd d c q (nd d Black p t near) (paint Black far), False))"

lemma erase_color_rest_at:
  assumes "at m (nd d c p t s) fs" and "s \<noteq> Lf"
  shows "\<exists>m'. erase_color_rest d p (rp s) m = Some (if snd (del_step d c p t s) then up fs else 0, m') \<and>
     at m' (fst (del_step d c p t s)) fs"
proof -
  obtain x q sl sr where s: "s = nd d x q sl sr" using assms(2) by (cases s rule: rbt_cases[where d = d]) auto
  note at = assms(1)[unfolded s]
  note a = atD[OF at]
  have q: "rt_mem m q = Some (mk d (p OR col x) (rp sl) (rp sr))" "q \<noteq> 0" "al p"
    and sub: "tree_at (rt_mem m) q sl" "tree_at (rt_mem m) q sr" using a(1) by simp_all
  note rest = erase_color_rest_def node_access(6,7)[OF q] subtree_access(2)[OF sub(1)] subtree_access(2)[OF sub(2)]
  show ?thesis
  proof (cases "colour_of sr = Black")
    case False
    then have "sr \<noteq> Lf" by auto
    from case4_at[OF at this] False show ?thesis by (auto simp: rest s del_step_def)
  next
    case far: True
    show ?thesis
    proof (cases "colour_of sl = Black")
      case True
      from case2_at[OF at] far True show ?thesis by (auto simp: rest s del_step_def)
    next
      case False
      then obtain n a b where sl: "sl = nd d Red n a b" by (cases sl rule: rbt_cases[where d = d]) auto
      from case34_at[OF at[unfolded sl]] obtain m1 m' where
        "erase_color_case3 d p q n m = Some m1" "erase_color_case4 d p n q m1 = Some m'"
        "at m' (nd d c n (nd d Black p t a) (nd d Black q (paint Black b) sr)) fs"
        by (auto simp: bind_eq_Some_conv)
      with far show ?thesis by (simp add: rest[unfolded sl rp_nd] s sl del_step_def)
    qed
  qed
qed

fun del_fix :: "rbt \<Rightarrow> frame list \<Rightarrow> rbt" where
  "del_fix t [] = t"
| "del_fix t (Fr d c p s # fs) =
     (if colour_of s = Red
      then plug (fst (del_step d Red p t (paint Black (sub d s)))) (Fr d c (rp s) (sub (opp d) s) # fs)
      else let (t', b) = del_step d c p t s in if b then del_fix t' fs else plug t' fs)"

lemma erase_color_loop_at:
  assumes "at m t fs" and "fs \<noteq> []" and "path_ok (Suc n) fs" and "invh t" and "bh t = n"
  shows "\<exists>m'. erase_color_loop (rp t) (up fs) m = Some m' \<and> represents m' (del_fix t fs)"
  using assms
proof (induction t fs arbitrary: m n rule: del_fix.induct)
  case (2 t d c p s fs)
  have at: "at m (nd d c p t s) fs" using 2(2) by (simp add: at_Cons)
  note a = atD[OF at]
  have s: "bh s = Suc n" "invc s" "invh s" using 2(4) by auto
  then have sne: "s \<noteq> Lf" by auto
  have ts: "rp t \<noteq> rp s"
    using a(1,4) rp_in_nodes[of t] rp_in_nodes[OF sne] sne by (cases "t = Lf") (auto simp: tree_at_rp)
  have p: "rt_mem m p = Some (mk d (up fs OR col c) (rp t) (rp s))" "p \<noteq> 0" "al (up fs)" using a(1) by simp_all
  have right: "rd rn_right p m = Some (rn_right (mk d (up fs OR col c) (rp t) (rp s)))" using p by (simp add: rd_def)
  have loop: "erase_color_loop (rp t) p m = do {
      (sibling, m) \<leftarrow> erase_color_case1 d p (rp s) m;
      (gparent, m) \<leftarrow> erase_color_rest d p sibling m;
      if gparent \<noteq> 0 then erase_color_loop p gparent m else Some m }"
    using which_side[OF right p(1) ts] right node_access(7)[OF p]
    by (subst erase_color_loop.simps) simp
  show ?case
  proof (cases "colour_of s = Red")
    case True
    then obtain q sl sr where sq: "s = nd d Red q sl sr" using sne by (cases s rule: rbt_cases[where d = d]) auto
    have "sl \<noteq> Lf" using s(1,3) sq by auto
    with case1_at[of m d c p t q sl sr fs] at obtain m1 where
      m1: "erase_color_case1 d p q m = Some (rp sl, m1)" "at m1 (nd d Red p t (paint Black sl)) (Fr d c q sr # fs)"
      by (auto simp: sq at_Cons)
    from erase_color_rest_at[OF m1(2)] \<open>sl \<noteq> Lf\<close> obtain m2 where
      "erase_color_rest d p (rp sl) m1 = Some (0, m2)" "at m2 (fst (del_step d Red p t (paint Black sl))) (Fr d c q sr # fs)"
      by (cases sl) (auto simp: del_step_def Let_def split: if_splits)
    then show ?thesis using loop m1(1) by (simp add: sq at_plug)
  next
    case False
    then have "hev_rbtree_node_is_red (rp s) m = Some False"
      using a(1) sne by (cases s) (auto simp: node_access)
    then have c1: "erase_color_case1 d p (rp s) m = Some (rp s, m)" by (simp add: erase_color_case1_def)
    obtain t' b where step: "del_step d c p t s = (t', b)" by fastforce
    from erase_color_rest_at[OF at sne] obtain m1 where
      m1: "erase_color_rest d p (rp s) m = Some (if b then up fs else 0, m1)" "at m1 t' fs"
      by (auto simp: step)
    show ?thesis
    proof (cases "b \<and> fs \<noteq> []")
      case False
      then show ?thesis using loop c1 m1 \<open>colour_of s \<noteq> Red\<close> by (auto simp: step at_plug)
    next
      case True
      then have b: "b" "fs \<noteq> []" by auto
      have t': "t' = nd d Black p t (paint Red s)" "c = Black"
        using step b(1) by (auto simp: del_step_def Let_def split: if_splits)
      have bhs: "bh (paint Red s) = n" using False s(1) by (cases s) auto
      have "\<exists>m'. erase_color_loop (rp t') (up fs) m1 = Some m' \<and> represents m' (del_fix t' fs)"
        using 2(1)[OF False step[symmetric] refl b(1) m1(2) b(2), of "Suc n"] 2(4,5,6) s t' bhs by auto
      moreover have "up fs \<noteq> 0" using path_up_0[OF atD(2)[OF m1(2)]] b(2) by simp
      ultimately show ?thesis using loop c1 m1 False b(1) t' step by auto
    qed
  qed
qed simp

lemma nodes_sub: "s \<noteq> Lf \<Longrightarrow> nodes s = nodes (sub SLeft s) @ rp s # nodes (sub SRight s)"
  by (cases s) auto

lemma nodes_del_step:
  assumes "s \<noteq> Lf"
  shows "nodes (fst (del_step d c p t s)) = nodes (nd d c' p t s)"
proof -
  obtain x q sl sr where s: "s = nd d x q sl sr" using assms by (cases s rule: rbt_cases[where d = d]) auto
  show ?thesis
  proof (cases "sl = Lf")
    case True
    then show ?thesis by (cases d) (auto simp: del_step_def s)
  next
    case False
    then obtain y n a b where "sl = nd d y n a b" by (cases sl rule: rbt_cases[where d = d]) auto
    then show ?thesis by (cases d) (auto simp: del_step_def s Let_def)
  qed
qed

lemma nodes_del_fix: "path_ok (Suc n) fs \<Longrightarrow> invh t \<Longrightarrow> bh t = n \<Longrightarrow> nodes (del_fix t fs) = nodes (plug t fs)"
proof (induction t fs arbitrary: n rule: del_fix.induct)
  case (2 t d c p s fs)
  have s: "bh s = Suc n" "invh s" using 2(2) by auto
  then have sne: "s \<noteq> Lf" by auto
  show ?case
  proof (cases "colour_of s = Red")
    case True
    then obtain q sl sr where sq: "s = nd d Red q sl sr" using sne by (cases s rule: rbt_cases[where d = d]) auto
    have "paint Black sl \<noteq> Lf" using s sq by (cases sl) auto
    from nodes_del_step[OF this, of d Red p t Red] show ?thesis
      using True by (cases d) (auto simp: sq nodes_plug)
  next
    case False
    obtain t' b where step: "del_step d c p t s = (t', b)" by fastforce
    have t': "nodes t' = nodes (nd d c p t s)" using nodes_del_step[OF sne, of d c p t c] step by simp
    show ?thesis
    proof (cases b)
      case True
      have "bh (paint Red s) = n" using False s(1) by (cases s) auto
      moreover have "t' = nd d Black p t (paint Red s)" "c = Black"
        using step True by (auto simp: del_step_def Let_def split: if_splits)
      ultimately have "nodes (del_fix t' fs) = nodes (plug t' fs)"
        using 2(1)[OF False step[symmetric] refl True, of "Suc n"] 2(2,3,4) s by auto
      then show ?thesis using False True t' by (simp add: step nodes_plug)
    next
      case no: False
      then show ?thesis using False t' by (simp add: step nodes_plug)
    qed
  qed
qed simp

lemma del_step_inv:
  assumes "colour_of s = Black" and "bh s = Suc (bh t)" and "invc s" "invh s" "invc t" "invh t" and "colour_of t = Black"
  shows "invc (fst (del_step d c p t s))" and "invh (fst (del_step d c p t s))"
    and "bh (fst (del_step d c p t s)) = (if snd (del_step d c p t s) then Suc (bh t) else Suc (bh t) + (if c = Black then 1 else 0))"
    and "colour_of (fst (del_step d c p t s)) = Red \<Longrightarrow> c = Red"
proof -
  obtain q sl sr where s: "s = nd d Black q sl sr"
    using assms(1,2) by (cases s rule: rbt_cases[where d = d]) auto
  have "\<exists>n a b. sl = nd d Red n a b" if "colour_of sl = Red"
    using that by (cases sl rule: rbt_cases[where d = d]) auto
  moreover have "bh (paint Black sr) = Suc (bh sr)" if "colour_of sr = Red"
    using that by (cases sr) auto
  moreover have *: "bh sl = bh t" "bh sr = bh t" using assms(2,4) s by auto
  ultimately show "invc (fst (del_step d c p t s))" "invh (fst (del_step d c p t s))"
    "bh (fst (del_step d c p t s)) = (if snd (del_step d c p t s) then Suc (bh t) else Suc (bh t) + (if c = Black then 1 else 0))"
    "colour_of (fst (del_step d c p t s)) = Red \<Longrightarrow> c = Red"
    using assms by (auto simp: del_step_def s Let_def split: if_splits)
qed

lemma del_fix_rb:
  assumes "invc t" and "invh t" and "colour_of t = Black" and "path_ok (Suc (bh t)) fs"
  shows "rb (del_fix t fs)"
  using assms
proof (induction t fs rule: del_fix.induct)
  case (1 t)
  then show ?case by (simp add: rb_def)
next
  case (2 t d c p s fs)
  have s: "bh s = Suc (bh t)" "invc s" "invh s" "c = Red \<Longrightarrow> colour_of s = Black \<and> edge fs = Black"
    and fs: "path_ok (Suc (bh t) + (if c = Black then 1 else 0)) fs"
    using 2(5) by auto
  show ?case
  proof (cases "colour_of s = Red")
    case True
    then obtain q sl sr where sq: "s = nd d Red q sl sr" by (cases s rule: rbt_cases[where d = d]) auto
    have sl: "colour_of sl = Black" "bh sl = Suc (bh t)" "invc sl" "invh sl" using s sq by auto
    have "c = Black" using s(4) True by (cases c) auto
    with del_step_inv[OF sl(1,2,3,4) 2(2,3,4), of d Red p] show ?thesis
      using True s fs sl by (auto simp: sq rb_plug simp del: plug.simps)
  next
    case False
    then have sb: "colour_of s = Black" by simp
    obtain t' b where step: "del_step d c p t s = (t', b)" by fastforce
    note i = del_step_inv[OF sb s(1,2,3) 2(2,3,4), of d c p, unfolded step fst_conv snd_conv]
    show ?thesis
    proof (cases b)
      case True
      moreover have "t' = nd d Black p t (paint Red s)" "c = Black"
        using step True by (auto simp: del_step_def Let_def split: if_splits)
      ultimately show ?thesis
        using 2(1)[OF False step[symmetric] refl] i fs False step by auto
    next
      case no: False
      then have "rb (plug t' fs)" using i fs s(4) by (auto simp: rb_plug)
      then show ?thesis using False no by (simp add: step)
    qed
  qed
qed

section \<open>Unlinking\<close>

text \<open>The explicit effect of \<open>change_child\<close> on memory and root.\<close>

fun relink :: "frame list \<Rightarrow> u64 \<Rightarrow> (u64 \<Rightarrow> HevRBTreeNode option) \<Rightarrow> (u64 \<Rightarrow> HevRBTreeNode option)" where
  "relink [] new h = h"
| "relink (Fr d c p s # fs) new h = h(p \<mapsto> mk d (up fs OR col c) new (rp s))"

definition new_root :: "frame list \<Rightarrow> u64 \<Rightarrow> u64 \<Rightarrow> u64" where
  "new_root fs new r = (if fs = [] then new else r)"

lemma change_child_relink:
  assumes "path_at (rt_mem m) old fs" and "old \<noteq> 0" and "old \<notin> path_nodes fs"
  shows "hev_rbtree_change_child old new (up fs) m =
     Some (m\<lparr>rt_root := new_root fs new (rt_root m), rt_mem := relink fs new (rt_mem m)\<rparr>)"
proof (cases fs rule: up.cases)
  case (2 d c p s fs')
  have p: "p \<noteq> 0" "rt_mem m p = Some (mk d (up fs' OR col c) old (rp s))" using assms(1) 2 by auto
  moreover have s: "rp s \<noteq> old" using assms(2,3) 2 rp_in_nodes[of s] by (cases s) auto
  ultimately show ?thesis
    using 2 by (cases d) (simp_all add: hev_rbtree_change_child_def rd_mem wr_mem new_root_def)
qed (simp add: hev_rbtree_change_child_def new_root_def)

lemma relink_other [simp]: "q \<notin> path_nodes fs \<Longrightarrow> relink fs new h q = h q"
  by (cases fs rule: up.cases) auto

lemma tree_at_relink [simp]:
  "set (nodes t) \<inter> path_nodes fs = {} \<Longrightarrow> tree_at (relink fs new h) par t = tree_at h par t"
  by (cases fs rule: up.cases) auto

lemma path_at_relink:
  "path_at h old fs \<Longrightarrow> distinct (nodes_before fs @ nodes_after fs) \<Longrightarrow> path_at (relink fs new h) new fs"
  by (cases fs rule: up.cases) (auto simp: path_distinct_Cons simp del: distinct_append)

lemma top_new_root: "new_root fs new (top old fs) = top new fs"
  by (cases fs rule: up.cases) (auto simp: new_root_def)

lemma put_upd [simp]: "q \<notin> set (nodes t) \<Longrightarrow> put par t (h(q := v)) = (put par t h)(q := v)"
  by (cases t) (auto simp: fun_upd_twist)

lemma tree_at_put_root: "rp s \<notin> set (nodes t) \<Longrightarrow> tree_at (put par s h) par' t = tree_at h par' t"
  by (cases s) auto

lemma put_root_upd: "q \<noteq> rp t \<Longrightarrow> put par t (h(q := v)) = (put par t h)(q := v)"
  by (cases t) (auto simp: fun_upd_twist)

lemma put_root_other: "q \<noteq> rp t \<Longrightarrow> put par t h q = h q"
  by (cases t) auto

lemma rp_plug: "rp (plug t fs) = top (rp t) fs"
  by (induction t fs rule: plug.induct) auto

lemma top_in_path: "top p fs \<in> insert p (path_nodes fs)"
  by (induction p fs rule: top.induct) auto

lemma path_nodes_append: "path_nodes (xs @ ys) = path_nodes xs \<union> path_nodes ys"
  by (induction xs rule: nodes_before.induct) auto

lemma put_put: "rp s \<noteq> rp t \<Longrightarrow> put par s (put par' t h) = put par' t (put par s h)"
  by (cases s; cases t) (auto simp: fun_upd_twist)

lemma relink_upd [simp]: "q \<notin> path_nodes fs \<Longrightarrow> relink fs new (h(q := v)) = (relink fs new h)(q := v)"
  by (cases fs rule: up.cases) (auto simp: fun_upd_twist)

lemma put_relink: "set (nodes t) \<inter> path_nodes fs = {} \<Longrightarrow> put par t (relink fs new h) = relink fs new (put par t h)"
  by (cases fs rule: up.cases) auto

text \<open>The subtree below \<open>n\<close> is replaced by one whose root is rewritten for its new parent.\<close>

lemma replace_by_subtree:
  assumes "at m (Nd c l n r) fs" and "t = l \<or> t = r"
  shows "at (m\<lparr>rt_root := new_root fs (rp t) (rt_root m), rt_mem := put (up fs) (paint c' t) (relink fs (rp t) (rt_mem m))\<rparr>)
    (paint c' t) fs"
proof -
  note a = atD[OF assms(1)]
  have t: "tree_at (rt_mem m) n t" "set (nodes t) \<inter> path_nodes fs = {}" "distinct (nodes t)"
    using a assms(2) by (auto simp: disjoint_simps)
  then have "tree_at (relink fs (rp t) (rt_mem m)) n t" by simp
  from tree_at_put(1)[OF this _ t(3)] path_up[OF a(2)]
  have "tree_at (put (up fs) (paint c' t) (relink fs (rp t) (rt_mem m))) (up fs) (paint c' t)" by simp
  then show ?thesis
    using a t path_at_relink[OF a(2,6), of "rp t"] top_new_root[of fs "rp t" "rp (Nd c l n r)"]
    unfolding at_def by (auto simp: distinct_plug)
qed

lemma erase_leaf:
  assumes "at m (Nd c Lf n Lf) fs"
  shows "\<exists>m'. rbtree_erase_node n m = Some (if c = Black then up fs else 0, m') \<and> at m' Lf fs"
proof -
  note a = atD[OF assms]
  have n: "n \<notin> path_nodes fs" "n \<noteq> 0" using a by auto
  from a(2) have p: "path_at (rt_mem m) n fs" by simp
  have "rbtree_erase_node n m = Some (if c = Black then up fs else 0,
      m\<lparr>rt_root := new_root fs 0 (rt_root m), rt_mem := relink fs 0 (rt_mem m)\<rparr>)"
    using a n change_child_relink[OF p n(2,1), of 0]
    by (simp add: rbtree_erase_node_def rd_def)
  then show ?thesis
    using a p path_at_relink[OF p a(6), of 0] top_new_root[of fs 0 n] by (auto simp: at_def distinct_plug)
qed

lemma erase_one:
  assumes "at m (Nd c l n r) fs" and "l = Lf \<and> r \<noteq> Lf \<and> t = r \<or> l \<noteq> Lf \<and> r = Lf \<and> t = l"
  shows "\<exists>m'. rbtree_erase_node n m = Some (0, m') \<and> at m' (paint c t) fs"
proof -
  note a = atD[OF assms(1)]
  have n: "n \<notin> path_nodes fs" "n \<noteq> 0" using a by auto
  from a(2) have p: "path_at (rt_mem m) n fs" by simp
  obtain x tl q tr where t: "t = Nd x tl q tr" using assms(2) by (cases t) auto
  have q: "q \<notin> path_nodes fs" "q \<noteq> 0" "rt_mem m q = Some (mk SLeft (n OR col x) (rp tl) (rp tr))" "q \<noteq> n"
    using a assms(2) t by (auto simp: disjoint_simps)
  have "rbtree_erase_node n m = Some (0, m\<lparr>rt_root := new_root fs q (rt_root m),
      rt_mem := put (up fs) (paint c t) (relink fs q (rt_mem m))\<rparr>)"
    using assms(2)
  proof
    assume "l = Lf \<and> r \<noteq> Lf \<and> t = r"
    then have lr: "l = Lf" "r = Nd x tl q tr" using t by auto
    show ?thesis
      using a[unfolded lr] q change_child_relink[OF p n(2,1), of q]
      by (clarsimp simp: t lr rbtree_erase_node_def rd_def wr_def)
  next
    assume "l \<noteq> Lf \<and> r = Lf \<and> t = l"
    then have lr: "r = Lf" "l = Nd x tl q tr" using t by auto
    let ?m = "m\<lparr>rt_mem := put (up fs) (paint c t) (rt_mem m)\<rparr>"
    have "path_at (rt_mem ?m) n fs" using p a lr by (auto simp: t disjoint_simps)
    from change_child_relink[OF this n(2,1), of q] show ?thesis
      using a[unfolded lr] q put_relink[of "paint c t" fs "up fs" q "rt_mem m"]
      by (clarsimp simp: t lr rbtree_erase_node_def rd_def wr_def disjoint_simps)
  qed
  moreover have ne: "t = l \<or> t = r" using assms(2) by auto
  note replace_by_subtree[OF assms(1) ne, of c]
  ultimately show ?thesis by (simp add: t)
qed

subsection \<open>The successor\<close>

fun leftmost :: "rbt \<Rightarrow> frame list \<Rightarrow> rbt \<times> frame list" where
  "leftmost (Nd c l p r) gs = (if l = Lf then (Nd c l p r, gs) else leftmost l (Fr SLeft c p r # gs))"
| "leftmost Lf gs = (Lf, gs)"

lemma leftmost_plug: "leftmost t gs = (t', gs') \<Longrightarrow> plug t' gs' = plug t gs"
  by (induction t gs rule: leftmost.induct) (auto split: if_splits)

lemma leftmost_Nd: "leftmost t gs = (t', gs') \<Longrightarrow> t \<noteq> Lf \<Longrightarrow> \<exists>c p r. t' = Nd c Lf p r"
  by (induction t gs rule: leftmost.induct) (auto split: if_splits)

lemma nodes_before_append [simp]: "nodes_before (xs @ ys) = nodes_before ys @ nodes_before xs"
  by (induction xs rule: nodes_before.induct) auto

lemma nodes_after_append [simp]: "nodes_after (xs @ ys) = nodes_after xs @ nodes_after ys"
  by (induction xs rule: nodes_after.induct) auto

lemma leftmost_append:
  "leftmost t gs = (t', gs') \<Longrightarrow> \<exists>xs. gs' = xs @ gs \<and> nodes_before xs = [] \<and> (\<forall>fs. leftmost t fs = (t', xs @ fs))"
proof (induction t gs rule: leftmost.induct)
  case (1 c l p r gs)
  show ?case
  proof (cases "l = Lf")
    case True
    then show ?thesis using 1(2) by auto
  next
    case False
    then obtain xs where "gs' = xs @ Fr SLeft c p r # gs" "nodes_before xs = []" "\<And>fs. leftmost l fs = (t', xs @ fs)"
      using 1 by auto
    then show ?thesis using False by (intro exI[of _ "xs @ [Fr SLeft c p r]"]) auto
  qed
qed auto

lemma find_successor_at:
  assumes "at m t (Fr SLeft c p r # fs)" and "t \<noteq> Lf" and "leftmost t (Fr SLeft c p r # fs) = (t', gs)"
  shows "find_successor p (rp t) m = Some (up gs, rp t')"
  using assms
proof (induction t "Fr SLeft c p r # fs" arbitrary: c p r fs rule: leftmost.induct)
  case (1 x l q s)
  have q: "rd rn_left q m = Some (rp l)" using atD(1)[OF 1(2)] by (simp add: rd_def)
  show ?case
  proof (cases "l = Lf")
    case True
    then show ?thesis using 1(4) q by (subst find_successor.simps) auto
  next
    case False
    then have "rp l \<noteq> 0" using atD(1)[OF 1(2)] tree_at_rp[of "rt_mem m" q l] by auto
    moreover have "at m l (Fr SLeft x q s # Fr SLeft c p r # fs)" using 1(2) by (simp add: at_Cons)
    ultimately show ?thesis using 1(1)[OF False] 1(4) q False by (subst find_successor.simps) simp
  qed
qed simp

lemma plug_append: "plug t (xs @ ys) = plug (plug t xs) ys"
  by (induction t xs rule: plug.induct) auto

text \<open>Putting a detached node \<open>s\<close> in the place of \<open>n\<close>, with the subtrees \<open>l\<close> and \<open>r\<close>.\<close>

lemma replace_node:
  assumes "path_at h n fs" and "rt_root m = top n fs" and "ptr_ok s" and "distinct (nodes (plug (Nd c l s r) fs))"
    and "tree_at (put s l h) s l" and "tree_at (put s r h) s r"
  shows "at (m\<lparr>rt_root := new_root fs s (rt_root m),
      rt_mem := (relink fs s (put s l (put s r h)))(s \<mapsto> mk SLeft (up fs OR col c) (rp l) (rp r))\<rparr>) (Nd c l s r) fs"
proof -
  have d: "set (nodes l) \<inter> set (nodes r) = {}" "set (nodes l) \<inter> path_nodes fs = {}" "set (nodes r) \<inter> path_nodes fs = {}"
    and s: "s \<notin> set (nodes l)" "s \<notin> set (nodes r)" "s \<notin> path_nodes fs"
    and fs: "distinct (nodes_before fs @ nodes_after fs)"
    using assms(4) by (auto simp: distinct_plug disjoint_simps)
  have l: "tree_at (put s l (put s r h)) s l"
  proof (cases "rp l = rp r")
    case True
    then have "r = Lf \<or> l = Lf" using d(1) rp_in_nodes[of l] rp_in_nodes[of r] by auto
    then show ?thesis using assms(5) by auto
  next
    case False
    then show ?thesis using assms(5) d(1) by (subst put_put) simp_all
  qed
  have r: "tree_at (put s l (put s r h)) s r" using assms(6) d(1) by simp
  have "path_at (put s l (put s r h)) n fs" using assms(1) d by simp
  from path_at_relink[OF this fs, of s] have p: "path_at (relink fs s (put s l (put s r h))) s fs" .
  show ?thesis
    unfolding at_def using assms(2,3,4) l r p s d path_up[OF assms(1)] top_new_root[of fs s n] by simp
qed

lemma erase_tail_at:
  assumes n: "rt_mem m n = Some (mk SLeft (up fs OR col c) (rp l) x)" "n \<noteq> 0" "n \<notin> path_nodes fs" "n \<notin> set (nodes l)"
      "path_at (rt_mem m) n fs"
    and s: "rt_mem m s = Some (mk SLeft (z OR col cs) y w)" "al z" "s \<noteq> 0" "s \<noteq> n"
      "s \<notin> path_nodes fs" "s \<notin> set (nodes l)" "s \<notin> set (nodes ch)"
    and l: "tree_at (rt_mem m) n l" "l \<noteq> Lf" "set (nodes l) \<inter> path_nodes fs = {}"
    and ch: "tree_at (rt_mem m) s ch" "set (nodes l) \<inter> set (nodes ch) = {}" "set (nodes ch) \<inter> path_nodes fs = {}"
  shows "erase_tail n p s (rp ch) m = Some (if ch = Lf \<and> cs = Black then p else 0,
     m\<lparr>rt_root := new_root fs s (rt_root m),
       rt_mem := (relink fs s (put s l (put p (paint Black ch) (rt_mem m))))(s \<mapsto> mk SLeft (up fs OR col c) (rp l) w)\<rparr>)"
proof -
  let ?h1 = "put s l ((rt_mem m)(s \<mapsto> mk SLeft (z OR col cs) (rp l) w))"
  let ?m2 = "m\<lparr>rt_root := new_root fs s (rt_root m), rt_mem := relink fs s ?h1\<rparr>"
  have "tree_at ((rt_mem m)(s \<mapsto> mk SLeft (z OR col cs) (rp l) w)) n l" using l(1) s by simp
  then have setl: "hev_rbtree_node_set_parent (rp l) s (m\<lparr>rt_mem := (rt_mem m)(s \<mapsto> mk SLeft (z OR col cs) (rp l) w)\<rparr>) =
      Some (m\<lparr>rt_mem := ?h1\<rparr>)"
    using subtree_access(4)[of "m\<lparr>rt_mem := (rt_mem m)(s \<mapsto> mk SLeft (z OR col cs) (rp l) w)\<rparr>" n l s] l(2)
    by (simp add: if_node_def tree_at_rp)
  have "path_at ?h1 n fs" using n(5) s l by simp
  then have cc: "hev_rbtree_change_child n s (up fs) (m\<lparr>rt_mem := ?h1\<rparr>) = Some ?m2"
    using change_child_relink[of "m\<lparr>rt_mem := ?h1\<rparr>" n fs s] n by simp
  have s2: "rt_mem ?m2 s = Some (mk SLeft (z OR col cs) (rp l) w)" using s by simp
  have ch2: "tree_at (rt_mem ?m2) s ch" using ch s by simp
  have al: "al (up fs)" by (rule path_up[OF n(5)])
  have start: "erase_tail n p s (rp ch) m = do {
     (rebalance, m) \<leftarrow>
       (if rp ch \<noteq> 0 then do {
          m \<leftarrow> hev_rbtree_node_set_parent_color (rp ch) p HEV_RBTREE_BLACK ?m2;
          Some (0, m) }
        else do {
          black \<leftarrow> hev_rbtree_node_is_black s ?m2;
          Some (if black then p else 0, ?m2) });
     m \<leftarrow> wr (\<lambda>k. k\<lparr>rn_pc := up fs OR col c\<rparr>) s m;
     Some (rebalance, m) }"
    using n s setl cc al by (simp add: erase_tail_def rd_def wr_def)
  have comm: "put p (paint Black ch) (relink fs s (put s l h)) = relink fs s (put s l (put p (paint Black ch) h))" for h
  proof (cases "ch = Lf")
    case False
    then have "rp l \<noteq> rp ch" using ch(2) l(2) rp_in_nodes[of l] rp_in_nodes[of ch] by auto
    then show ?thesis using ch(3) put_put[of l "paint Black ch" s p h] by (simp add: put_relink)
  qed simp
  show ?thesis
  proof (cases "ch = Lf")
    case True
    with start s2 node_access(4)[OF s2 s(3,2)] s show ?thesis by (simp add: wr_def)
  next
    case False
    then have "hev_rbtree_node_set_parent_color (rp ch) p (col Black) ?m2 =
        Some (?m2\<lparr>rt_mem := put p (paint Black ch) (rt_mem ?m2)\<rparr>)" "rp ch \<noteq> 0"
      using subtree_access(3)[OF ch2, of p Black] tree_at_rp[OF ch2] by (simp_all add: if_node_def)
    with start False s show ?thesis by (simp add: wr_def comm)
  qed
qed

lemma erase_right_child:
  assumes "at m (Nd c l n (Nd cs Lf s ch)) fs" and "l \<noteq> Lf"
  shows "\<exists>m'. erase_two_children n s m = Some (if ch = Lf \<and> cs = Black then s else 0, m') \<and>
     at m' (Nd c l s (paint Black ch)) fs"
proof -
  note a = atD[OF assms(1)]
  have d: "set (nodes l) \<inter> set (nodes ch) = {}" "set (nodes l) \<inter> path_nodes fs = {}" "set (nodes ch) \<inter> path_nodes fs = {}"
    and f: "s \<notin> path_nodes fs" "s \<notin> set (nodes l)" "s \<notin> set (nodes ch)" "s \<noteq> n"
      "n \<notin> path_nodes fs" "n \<notin> set (nodes l)"
    and t: "tree_at (rt_mem m) n l" "tree_at (rt_mem m) s ch" "distinct (nodes l)" "distinct (nodes ch)"
    using a(1,4,5) by (auto simp: disjoint_simps)
  let ?m' = "m\<lparr>rt_root := new_root fs s (rt_root m),
     rt_mem := (relink fs s (put s l (put s (paint Black ch) (rt_mem m))))(s \<mapsto> mk SLeft (up fs OR col c) (rp l) (rp ch))\<rparr>"
  have e: "erase_tail n s s (rp ch) m = Some (if ch = Lf \<and> cs = Black then s else 0, ?m')"
    using a(1,2) d f t assms(2) by (intro erase_tail_at[where x = s and z = n and y = 0]) auto
  moreover have "erase_two_children n s m = erase_tail n s s (rp ch) m"
    using a(1) by (simp add: erase_two_children_def rd_def)
  moreover have "at ?m' (Nd c l s (paint Black ch)) fs"
  proof -
    have "tree_at (put s l (rt_mem m)) s l" "tree_at (put s (paint Black ch) (rt_mem m)) s (paint Black ch)"
      using tree_at_put[OF t(1) _ t(3)] tree_at_put[OF t(2) _ t(4)] a(1) by simp_all
    moreover have "path_at (rt_mem m) n fs" "rt_root m = top n fs" "ptr_ok s"
      "distinct (nodes (plug (Nd c l s (paint Black ch)) fs))"
      using a d f by (simp_all add: distinct_plug disjoint_simps)
    ultimately show ?thesis using replace_node[of "rt_mem m" n fs m s c l "paint Black ch"] by simp
  qed
  ultimately show ?thesis by auto
qed

lemma erase_deep:
  assumes "at m (Nd cs Lf s ch) (Fr SLeft c1 p r1 # gs @ Fr SRight c n l # fs)" and "l \<noteq> Lf"
    and "find_successor child tmp m = Some (p, s)" and "rd rn_left child m = Some tmp" and "tmp \<noteq> 0"
    and "child = rp (plug (Nd cs Lf s ch) (Fr SLeft c1 p r1 # gs))"
  shows "\<exists>m'. erase_two_children n child m = Some (if ch = Lf \<and> cs = Black then p else 0, m') \<and>
     at m' (Nd c l s (plug (paint Black ch) (Fr SLeft c1 p r1 # gs))) fs"
proof -
  let ?gs = "Fr SLeft c1 p r1 # gs" and ?fs = "Fr SLeft c1 p r1 # gs @ Fr SRight c n l # fs"
  define r where "r = plug (paint Black ch) ?gs"
  define h1 where "h1 = relink ?fs (rp ch) (rt_mem m)"
  define h where "h = put p (paint Black ch) h1"
  note a = atD[OF assms(1)]
  have "at (m\<lparr>rt_mem := h\<rparr>) (paint Black ch) ?fs"
    using replace_by_subtree[OF assms(1), of ch Black] by (simp add: new_root_def h_def h1_def)
  then have at1: "at (m\<lparr>rt_mem := h\<rparr>) (Nd c l n r) fs" by (simp add: at_plug plug_append r_def)
  note b = atD[OF at1]
  have child: "child = top p gs" "rp r = child" using assms(6) by (simp_all add: rp_plug r_def)
  have "child \<in> path_nodes ?gs" using top_in_path[of p gs] child(1) by auto
  then have cn: "child \<noteq> s" "child \<notin> set (nodes ch)" using a(5) by (auto simp: path_nodes_append)
  have all: "nodes (plug (Nd c l n r) fs) = nodes (plug ch ?fs)"
    by (simp add: nodes_plug plug_append r_def)
  have s: "s \<notin> set (nodes (plug ch ?fs))" "s \<noteq> 0" "ptr_ok s" "rt_mem m s = Some (mk SLeft (p OR col cs) 0 (rp ch))" "p \<noteq> s"
    "tree_at (rt_mem m) s ch" and p: "p \<notin> set (nodes ch)" "p \<noteq> 0" "al p"
      "rt_mem m p = Some (mk SLeft (up (gs @ Fr SRight c n l # fs) OR col c1) s (rp r1))"
    using a(1,2,4,5) by (auto simp: nodes_plug path_nodes_append path_nodes_def)
  have d: "s \<notin> set (nodes l)" "s \<notin> set (nodes r)" "s \<notin> path_nodes fs" "s \<noteq> n" "s \<notin> set (nodes ch)"
    using s(1) unfolding all[symmetric] by (auto simp: nodes_plug path_nodes_def r_def)
  have ch: "set (nodes ch) \<subseteq> set (nodes r)" by (auto simp: nodes_plug r_def)
  have n: "n \<notin> set (nodes l)" "n \<notin> set (nodes r)" "n \<notin> path_nodes fs" "n \<noteq> 0" "ptr_ok n" "al (up fs)"
    and dis: "set (nodes l) \<inter> set (nodes r) = {}" "set (nodes l) \<inter> path_nodes fs = {}" "set (nodes r) \<inter> path_nodes fs = {}"
    and dd: "distinct (nodes l)" "distinct (nodes r)"
    and t: "tree_at h n l" "tree_at h n r" "h n = Some (mk SLeft (up fs OR col c) (rp l) child)"
      "path_at h n fs" "rt_root m = top n fs"
    using b(1-5) child(2) by (auto simp: disjoint_simps)
  have chd: "set (nodes l) \<inter> set (nodes ch) = {}" "set (nodes ch) \<inter> path_nodes fs = {}" "n \<notin> set (nodes ch)" using ch dis n by blast+
  have "p \<in> set (nodes r)" by (simp add: r_def nodes_plug)
  then have rne: "r \<noteq> Lf" by auto
  let ?h3 = "(put s r h1)(s \<mapsto> mk SLeft (p OR col cs) 0 child)"
  have comm: "put p (paint Black ch) (put s r h1) = put s r h"
  proof (cases "ch = Lf")
    case False
    then have "rp ch \<noteq> rp r" using cn(2) child(2) rp_in_nodes[of ch] by auto
    then show ?thesis using put_put[of "paint Black ch" r p s h1] by (simp add: h_def)
  qed (simp add: h_def)
  have r3: "hev_rbtree_node_set_parent child s (m\<lparr>rt_mem := h1(s \<mapsto> mk SLeft (p OR col cs) 0 child)\<rparr>) = Some (m\<lparr>rt_mem := ?h3\<rparr>)"
  proof -
    obtain cr rl rr where r: "r = Nd cr rl child rr" using rne child(2) by (cases r) auto
    then have "h child = Some (mk SLeft (n OR col cr) (rp rl) (rp rr))" "child \<noteq> 0" "al n" using t(2) by simp_all
    moreover have "h child = h1 child" using cn(2) by (simp add: h_def)
    ultimately show ?thesis using cn(1) r by (subst node_access(10)) (auto simp: fun_upd_twist)
  qed
  have tail: "erase_tail n p s (rp ch) (m\<lparr>rt_mem := ?h3\<rparr>) = Some (if ch = Lf \<and> cs = Black then p else 0,
     m\<lparr>rt_root := new_root fs s (rt_root m),
       rt_mem := (relink fs s (put s l (put s r h)))(s \<mapsto> mk SLeft (up fs OR col c) (rp l) child)\<rparr>)"
  proof -
    have "tree_at h1 n l" "path_at h1 n fs" "h1 n = h n" using t chd by (simp_all add: h_def)
    moreover have "tree_at ?h3 s ch" using s(6) p(1) cn(2) child(2) d(5) by (simp add: h1_def tree_at_put_root)
    ultimately show ?thesis
      using erase_tail_at[of "m\<lparr>rt_mem := ?h3\<rparr>" n fs c l child s p cs 0 child ch p] n s d chd t dis p assms(2) comm
      by simp
  qed
  have "erase_two_children n child m = erase_tail n p s (rp ch) (m\<lparr>rt_mem := ?h3\<rparr>)"
    using assms(3,4,5) s p r3 by (simp add: erase_two_children_def rd_def wr_def h1_def fun_upd_twist)
  moreover have "distinct (nodes (plug (Nd c l s r) fs))"
    using b(4,5,6) d by (auto simp: distinct_plug)
  with replace_node[of h n fs m s c l r] tree_at_put(2)[OF t(1) _ dd(1), of s] tree_at_put(2)[OF t(2) _ dd(2), of s] t s(3) child(2)
  have "at (m\<lparr>rt_root := new_root fs s (rt_root m),
       rt_mem := (relink fs s (put s l (put s r h)))(s \<mapsto> mk SLeft (up fs OR col c) (rp l) child)\<rparr>) (Nd c l s r) fs" by simp
  ultimately show ?thesis using tail unfolding r_def by simp
qed

section \<open>Erasing\<close>

text \<open>The position after unlinking \<open>n\<close>, and whether the subtree there lacks a black node.\<close>

definition unlinked :: "colour \<Rightarrow> rbt \<Rightarrow> rbt \<Rightarrow> frame list \<Rightarrow> rbt \<times> frame list \<times> bool" where
  "unlinked c l r fs =
     (if l = Lf then (paint c r, fs, r = Lf \<and> c = Black)
      else if r = Lf then (paint c l, fs, False)
      else case leftmost r [] of (t, gs) \<Rightarrow>
        (case t of Nd cs _ s ch \<Rightarrow> (paint Black ch, gs @ Fr SRight c s l # fs, ch = Lf \<and> cs = Black)))"

lemma erase_node_at:
  assumes "at m (Nd c l n r) fs" and "unlinked c l r fs = (t, gs, b)"
  shows "\<exists>m'. rbtree_erase_node n m = Some (if b then up gs else 0, m') \<and> at m' t gs"
proof -
  consider "l = Lf" "r = Lf" | "l = Lf \<and> r \<noteq> Lf \<or> l \<noteq> Lf \<and> r = Lf" | "l \<noteq> Lf" "r \<noteq> Lf" by blast
  then show ?thesis
  proof cases
    case 1
    then show ?thesis using erase_leaf[of m c n fs] assms by (auto simp: unlinked_def)
  next
    case 2
    then show ?thesis
      using erase_one[OF assms(1), of r] erase_one[OF assms(1), of l] assms(2) by (auto simp: unlinked_def)
  next
    case 3
    obtain t0 xs where lm: "leftmost r [] = (t0, xs)" by fastforce
    obtain cs s ch where t0: "t0 = Nd cs Lf s ch" using leftmost_Nd[OF lm 3(2)] by blast
    have res: "t = paint Black ch" "gs = xs @ Fr SRight c s l # fs" "b \<longleftrightarrow> ch = Lf \<and> cs = Black"
      using assms(2) 3 lm t0 by (auto simp: unlinked_def)
    have r: "r = plug (Nd cs Lf s ch) xs" using leftmost_plug[OF lm] t0 by simp
    have child: "rd rn_right n m = Some (rp r)" "rd rn_left n m = Some (rp l)" "rp l \<noteq> 0" "rp r \<noteq> 0"
      and tr: "tree_at (rt_mem m) n r"
      using atD(1)[OF assms(1)] 3 tree_at_rp[of "rt_mem m" n] by (auto simp: rd_def)
    have e: "rbtree_erase_node n m = erase_two_children n (rp r) m" using child by (simp add: rbtree_erase_node_def)
    show ?thesis
    proof (cases xs rule: up.cases)
      case 1
      then show ?thesis using erase_right_child[of m c l n cs s ch fs] assms(1) r 3 res e by (auto simp: at_Cons)
    next
      case (2 d c1 p r1 xs')
      have "d = SLeft" using leftmost_append[OF lm] 2 by (cases d) auto
      obtain cr rl q rr where r': "r = Nd cr rl q rr" using 3(2) by (cases r) auto
      have rl: "rl \<noteq> Lf" using lm r' 2 by (auto split: if_splits)
      have lm2: "leftmost rl (Fr SLeft cr q rr # Fr SRight c n l # fs) = (t0, xs @ Fr SRight c n l # fs)"
        using leftmost_append[OF lm] r' rl by auto
      have at2: "at m rl (Fr SLeft cr q rr # Fr SRight c n l # fs)" using assms(1) r' by (simp add: at_Cons)
      have fs: "find_successor q (rp rl) m = Some (p, s)" using find_successor_at[OF at2 rl lm2] 2 t0 by simp
      have at3: "at m (Nd cs Lf s ch) (Fr SLeft c1 p r1 # xs' @ Fr SRight c n l # fs)"
        using at2 leftmost_plug[OF lm2] 2 t0 \<open>d = SLeft\<close> by (simp add: at_plug)
      have left: "rd rn_left q m = Some (rp rl)" "rp rl \<noteq> 0"
        using tr rl r' tree_at_rp[of "rt_mem m" q rl] by (auto simp: rd_def)
      have "rp r = rp (plug (Nd cs Lf s ch) (Fr SLeft c1 p r1 # xs'))" using r 2 \<open>d = SLeft\<close> by simp
      then have q: "q = rp (plug (Nd cs Lf s ch) (Fr SLeft c1 p r1 # xs'))" unfolding r' rp.simps .
      obtain m' where "erase_two_children n q m = Some (if ch = Lf \<and> cs = Black then p else 0, m')"
        "at m' (Nd c l s (plug (paint Black ch) xs)) fs"
        using erase_deep[OF at3 3(1) fs left q] 2 \<open>d = SLeft\<close> by auto
      then show ?thesis using e r' res 2 by (simp add: at_plug plug_append)
    qed
  qed
qed

definition erased :: "colour \<Rightarrow> rbt \<Rightarrow> rbt \<Rightarrow> frame list \<Rightarrow> rbt" where
  "erased c l r fs = (case unlinked c l r fs of (t, gs, b) \<Rightarrow> if b then del_fix t gs else plug t gs)"

lemma bh_0_red: "bh t = 0 \<Longrightarrow> invh t \<Longrightarrow> t \<noteq> Lf \<Longrightarrow> colour_of t = Red \<and> bh (paint Black t) = 1"
  by (cases t) (auto split: if_splits)

lemma edge_pointer: "edge (xs @ Fr d c n l # fs) = edge (xs @ Fr d c s l # fs)"
  by (cases xs rule: up.cases) auto

lemma path_ok_pointer: "path_ok k (xs @ Fr d c n l # fs) \<longleftrightarrow> path_ok k (xs @ Fr d c s l # fs)"
  by (induction k xs rule: path_ok.induct) (auto simp: edge_pointer[of _ d c n l fs s])

lemma unlinked_rb:
  assumes "rb (plug (Nd c l n r) fs)" and "unlinked c l r fs = (t, gs, b)"
  shows "if b then t = Lf \<and> path_ok 1 gs else rb (plug t gs)"
proof -
  have i: "invc l" "invc r" "invh l" "invh r" "bh l = bh r" "c = Red \<Longrightarrow> colour_of l = Black \<and> colour_of r = Black \<and> edge fs = Black"
    "path_ok (bh l + (if c = Black then 1 else 0)) fs"
    using assms(1) by (auto simp: rb_plug)
  show ?thesis
  proof (cases "l = Lf \<or> r = Lf")
    case True
    have lr: "colour_of r = Red \<and> bh (paint Black r) = 1" if "r \<noteq> Lf" using bh_0_red[of r] that True i(4,5) by auto
    moreover have "colour_of l = Red \<and> bh (paint Black l) = 1" if "l \<noteq> Lf" using bh_0_red[of l] that True i(3,5) by auto
    ultimately show ?thesis
      using True i assms(2) by (cases c; cases "r = Lf"; cases "l = Lf") (auto simp: unlinked_def rb_plug)
  next
    case False
    obtain t0 xs where lm: "leftmost r [] = (t0, xs)" by fastforce
    obtain cs s ch where t0: "t0 = Nd cs Lf s ch" using leftmost_Nd[OF lm] False by blast
    have res: "t = paint Black ch" "gs = xs @ Fr SRight c s l # fs" "b \<longleftrightarrow> ch = Lf \<and> cs = Black"
      using assms(2) False lm t0 by (auto simp: unlinked_def)
    have "rb (plug (Nd cs Lf s ch) (xs @ Fr SRight c n l # fs))"
      using assms(1) leftmost_plug[OF lm] t0 by (simp add: plug_append)
    then have k: "invc (Nd cs Lf s ch)" "invh (Nd cs Lf s ch)" "path_ok (bh (Nd cs Lf s ch)) gs"
      unfolding rb_plug res path_ok_pointer[of _ xs SRight c n l fs s] by auto
    show ?thesis
    proof (cases "ch = Lf")
      case True
      then show ?thesis using res k by (cases cs) (auto simp: rb_plug)
    next
      case ne: False
      have "bh ch = 0" "invh ch" using k(2) by auto
      from bh_0_red[OF this ne] have "colour_of ch = Red" "bh (paint Black ch) = 1" by auto
      moreover have "cs = Black" using k(1) \<open>colour_of ch = Red\<close> by auto
      ultimately show ?thesis using res k ne by (auto simp: rb_plug)
    qed
  qed
qed

lemma nodes_unlinked:
  assumes "unlinked c l r fs = (t, gs, b)"
  shows "nodes (plug t gs) = nodes_before fs @ nodes l @ nodes r @ nodes_after fs"
proof (cases "l = Lf \<or> r = Lf")
  case True
  then show ?thesis using assms by (auto simp: unlinked_def nodes_plug split: if_splits)
next
  case False
  obtain t0 xs where lm: "leftmost r [] = (t0, xs)" by fastforce
  obtain cs s ch where t0: "t0 = Nd cs Lf s ch" using leftmost_Nd[OF lm] False by blast
  have "t = paint Black ch" "gs = xs @ Fr SRight c s l # fs" using assms False lm t0 by (auto simp: unlinked_def)
  moreover have "nodes r = s # nodes ch @ nodes_after xs" "nodes_before xs = []"
    using leftmost_plug[OF lm] t0 leftmost_append[OF lm] nodes_plug[of t0 xs] by auto
  ultimately show ?thesis by (simp add: nodes_plug)
qed

lemma erase_at:
  assumes "represents m (plug (Nd c l n r) fs)" and "rb (plug (Nd c l n r) fs)"
  shows "\<exists>m' t. hev_rbtree_erase n m = Some m' \<and> represents m' t \<and> rb t \<and>
     nodes t = nodes_before fs @ nodes l @ nodes r @ nodes_after fs"
proof -
  obtain t gs b where u: "unlinked c l r fs = (t, gs, b)" by (cases "unlinked c l r fs") auto
  obtain m1 where m1: "rbtree_erase_node n m = Some (if b then up gs else 0, m1)" "at m1 t gs"
    using erase_node_at[OF _ u] assms(1) by (auto simp: at_plug)
  note ok = unlinked_rb[OF assms(2) u]
  have up: "up gs = 0 \<longleftrightarrow> gs = []" by (rule path_up_0[OF atD(2)[OF m1(2)]])
  show ?thesis
  proof (cases "b \<and> gs \<noteq> []")
    case True
    then have t: "t = Lf" "path_ok 1 gs" using ok by auto
    obtain m' where "erase_color_loop 0 (up gs) m1 = Some m'" "represents m' (del_fix t gs)"
      using erase_color_loop_at[OF m1(2), of 0] True t by auto
    then show ?thesis
      using True m1 up del_fix_rb[of t gs] t nodes_del_fix[of 0 gs t] nodes_unlinked[OF u]
      by (auto simp: hev_rbtree_erase_def rbtree_erase_color_def)
  next
    case False
    then have "rb (plug t gs)" using ok by (auto simp: rb_def split: if_splits)
    then show ?thesis
      using False m1 up nodes_unlinked[OF u] by (auto simp: hev_rbtree_erase_def at_plug)
  qed
qed

end
