(* ===== verification/RBTree_Walk.thy ===== *)
theory RBTree_Walk
  imports RBTree_Erase
begin

text \<open>
  In-order traversal and replacement of nodes, and the contract of the red-black tree: the properties
  of insertion, removal and traversal over the sequence of nodes that a tree represents.
\<close>

section \<open>Positions\<close>

lemma position:
  assumes "p \<in> set (nodes t)"
  obtains c l r fs where "t = plug (Nd c l p r) fs"
proof -
  have "\<exists>c l r fs'. plug t fs = plug (Nd c l p r) fs'" if "p \<in> set (nodes t)" for fs using that
  proof (induction t arbitrary: fs)
    case (Nd c l q r)
    then show ?case
      using Nd.IH(1)[of "Fr SLeft c q r # fs"] Nd.IH(2)[of "Fr SRight c q l # fs"] by auto
  qed simp
  from this[of "[]"] that assms show thesis by auto
qed

lemma position_nodes:
  assumes "distinct (nodes (plug (Nd c l p r) fs))" and "nodes (plug (Nd c l p r) fs) = xs @ p # ys"
  shows "xs = nodes_before fs @ nodes l" and "ys = nodes r @ nodes_after fs"
proof -
  have "(nodes_before fs @ nodes l) @ p # nodes r @ nodes_after fs = xs @ p # ys"
    using assms(2) by (simp add: nodes_plug)
  moreover have "p \<notin> set (nodes_before fs @ nodes l)" "p \<notin> set xs"
    using assms by (auto simp: nodes_plug) (metis assms distinct_append distinct.simps(2) not_distinct_conv_prefix)
  ultimately show "xs = nodes_before fs @ nodes l" "ys = nodes r @ nodes_after fs"
    by (auto simp: append_eq_append_conv2 append_eq_Cons_conv Cons_eq_append_conv)
qed

section \<open>Walking\<close>

fun end_node :: "side \<Rightarrow> rbt \<Rightarrow> u64" where
  "end_node d Lf = 0"
| "end_node d t = (case d of SLeft \<Rightarrow> hd (nodes t) | SRight \<Rightarrow> last (nodes t))"

lemma end_node_nd: "end_node d (nd d c p a b) = (if a = Lf then p else end_node d a)"
  by (cases d; cases a) (auto simp: hd_append)

lemma go_down_tree:
  assumes "tree_at (rt_mem m) par t" and "t \<noteq> Lf"
  shows "go_down d (rp t) m = Some (end_node d t)"
  using assms
proof (induction t arbitrary: par rule: measure_induct_rule[where f = size])
  case (less t)
  obtain c p a b where t: "t = nd d c p a b" using less.prems(2) by (cases t rule: rbt_cases[where d = d]) auto
  have p: "rd (rn_child d) p m = Some (rp a)" "tree_at (rt_mem m) p a" using less.prems(1) by (auto simp: t rd_def)
  show ?case
  proof (cases "a = Lf")
    case True
    then show ?thesis using p by (subst go_down.simps) (simp add: t end_node_nd)
  next
    case False
    then have "rp a \<noteq> 0" using tree_at_rp[OF p(2)] by simp
    moreover have "size a < size t" by (cases d) (simp_all add: t)
    ultimately show ?thesis using p less.IH[of a p] False by (subst go_down.simps) (simp add: t end_node_nd)
  qed
qed

fun above :: "side \<Rightarrow> frame list \<Rightarrow> u64" where
  "above d [] = 0"
| "above d (Fr e c p s # fs) = (if e = d then above d fs else p)"

lemma go_up_at:
  assumes "at m t fs" and "t \<noteq> Lf"
  shows "go_up d (rp t) m = Some (above d fs)"
  using assms
proof (induction fs arbitrary: t)
  case Nil
  then obtain c l p r where "t = Nd c l p r" by (cases t) auto
  with Nil show ?case using atD(1)[OF Nil(1)] by (subst go_up.simps) (simp add: hev_rbtree_node_parent_def rd_def)
next
  case (Cons f fs)
  obtain e c q s where f: "f = Fr e c q s" by (cases f) auto
  obtain x l p r where t: "t = Nd x l p r" using Cons.prems(2) by (cases t) auto
  note a = atD[OF Cons.prems(1)]
  have par: "hev_rbtree_node_parent p m = Some q" using a(1,2) by (simp add: hev_rbtree_node_parent_def rd_def t f)
  have q: "rt_mem m q = Some (mk e (up fs OR col c) p (rp s))" "q \<noteq> 0" "tree_at (rt_mem m) q s" using a(2) by (auto simp: t f)
  have "rp s \<noteq> p" using a(1,5) q(3) rp_in_nodes[of s] by (cases s) (auto simp: t f)
  moreover have "at m (nd e c q t s) fs" using Cons.prems(1) by (simp add: at_Cons f)
  note Cons.IH[OF this]
  moreover have "d = e \<or> d = opp e" by (rule side_cases)
  ultimately show ?case using par q by (subst go_up.simps) (auto simp: t f rd_def)
qed

lemma above_nodes:
  "above SRight fs = (if nodes_after fs = [] then 0 else hd (nodes_after fs))"
  "above SLeft fs = (if nodes_before fs = [] then 0 else last (nodes_before fs))"
  by (induction fs rule: nodes_after.induct; simp)+

lemma node_step_at:
  assumes "at m (nd d c p a b) fs"
  shows "node_step d p m = Some (if a = Lf then above d fs else end_node (opp d) a)"
proof -
  note t = atD[OF assms]
  have p: "rt_mem m p = Some (mk d (up fs OR col c) (rp a) (rp b))" "p \<noteq> 0" "al (up fs)" "tree_at (rt_mem m) p a"
    using t(1) by auto
  have "up fs \<noteq> p"
    using t(5) p(2) by (cases fs rule: up.cases) auto
  then have ne: "up fs OR col c \<noteq> p"
    using pc_parent_numeral[OF p(3), of c] pc_red(1)[of p] t(1) by (metis ptr_okD(2) tree_at_nd)
  show ?thesis
  proof (cases "a = Lf")
    case True
    then show ?thesis using go_up_at[OF assms, of d] p ne
      by (simp add: node_step_def hev_rbtree_node_empty_def rd_def)
  next
    case False
    then show ?thesis using go_down_tree[OF p(4) False, of "opp d"] tree_at_rp[OF p(4)] p ne
      by (simp add: node_step_def hev_rbtree_node_empty_def rd_def)
  qed
qed

lemma walk_at:
  assumes "represents m t" and "nodes t = xs @ p # ys"
  shows "hev_rbtree_node_next p m = Some (if ys = [] then 0 else hd ys)"
    and "hev_rbtree_node_prev p m = Some (if xs = [] then 0 else last xs)"
proof -
  have "p \<in> set (nodes t)" using assms(2) by simp
  then obtain c l r fs where t: "t = plug (Nd c l p r) fs" by (rule position)
  have at: "at m (Nd c l p r) fs" using assms(1) by (simp add: at_plug t)
  have xy: "xs = nodes_before fs @ nodes l" "ys = nodes r @ nodes_after fs"
    using position_nodes[of c l p r fs xs ys] assms(2) at by (auto simp: at_def t)
  show "hev_rbtree_node_next p m = Some (if ys = [] then 0 else hd ys)"
    using node_step_at[of m SRight c p r l fs] at
    by (cases r) (auto simp: hev_rbtree_node_next_def xy above_nodes hd_append)
  show "hev_rbtree_node_prev p m = Some (if xs = [] then 0 else last xs)"
    using node_step_at[of m SLeft c p l r fs] at
    by (cases l) (auto simp: hev_rbtree_node_prev_def xy above_nodes last_append)
qed

lemma ends_at:
  assumes "represents m t"
  shows "hev_rbtree_first m = Some (if nodes t = [] then 0 else hd (nodes t))"
    and "hev_rbtree_last m = Some (if nodes t = [] then 0 else last (nodes t))"
proof -
  have r: "rt_root m = rp t" "tree_at (rt_mem m) 0 t" using assms by (simp_all add: represents_def at_def)
  show "hev_rbtree_first m = Some (if nodes t = [] then 0 else hd (nodes t))"
    "hev_rbtree_last m = Some (if nodes t = [] then 0 else last (nodes t))"
    using r go_down_tree[OF r(2)]
    by (cases t; auto simp: hev_rbtree_first_def hev_rbtree_last_def)+
qed

section \<open>Replacement\<close>

text \<open>The same tree with another node in the place of \<open>v\<close>.\<close>

primrec rename_node :: "u64 \<Rightarrow> u64 \<Rightarrow> rbt \<Rightarrow> rbt" where
  "rename_node v n Lf = Lf"
| "rename_node v n (Nd c l p r) = Nd c (rename_node v n l) (if p = v then n else p) (rename_node v n r)"

lemma rename_other: "v \<notin> set (nodes t) \<Longrightarrow> rename_node v n t = t"
  by (induction t) auto

lemma rename_plug: "v \<notin> path_nodes fs \<Longrightarrow> rename_node v n (plug t fs) = plug (rename_node v n t) fs"
proof (induction t fs rule: plug.induct)
  case (2 t d c p s fs)
  then show ?case by (cases d) (auto simp: path_nodes_def rename_other)
qed simp

lemma replace_at:
  assumes "at m (Nd c l v r) fs" and "ptr_ok n" and "n \<notin> set (nodes (plug (Nd c l v r) fs))" and "rt_mem m n = Some x"
  shows "\<exists>m'. hev_rbtree_replace v n m = Some m' \<and> at m' (Nd c l n r) fs"
proof -
  note a = atD[OF assms(1)]
  have n: "n \<notin> set (nodes l)" "n \<notin> set (nodes r)" "n \<notin> path_nodes fs" "n \<noteq> v" "n \<noteq> 0" "al n"
    using assms(2,3) by (auto simp: nodes_plug path_nodes_def)
  let ?h = "(rt_mem m)(n \<mapsto> mk SLeft (up fs OR col c) (rp l) (rp r))"
  let ?h' = "put n r (put n l ?h)"
  have t: "tree_at ?h v l" "tree_at (put n l ?h) v r" using a(1,4) n by (auto simp: disjoint_simps)
  have "hev_rbtree_replace v n m = hev_rbtree_change_child v n (up fs) (m\<lparr>rt_mem := ?h'\<rparr>)"
    using a n assms(4) subtree_access(4)[of "m\<lparr>rt_mem := ?h\<rparr>" v l n] subtree_access(4)[of "m\<lparr>rt_mem := put n l ?h\<rparr>" v r n] t
    by (clarsimp simp: hev_rbtree_replace_def rd_def wr_def hev_rbtree_node_parent_def)
  moreover have "\<exists>m'. hev_rbtree_change_child v (rp (Nd c l n r)) (up fs) (m\<lparr>rt_mem := ?h'\<rparr>) = Some m' \<and> at m' (Nd c l n r) fs"
    using a n assms(2) tree_at_put(2)[OF t(1), of n] tree_at_put(2)[OF t(2), of n]
    by (intro change_child_at) (auto simp: distinct_plug disjoint_simps)
  ultimately show ?thesis by simp
qed

section \<open>Removal\<close>

lemma rbtree_erased:
  assumes "represents m t" and "rb t" and "n \<in> set (nodes t)"
  shows "\<exists>m' t'. hev_rbtree_erase n m = Some m' \<and> represents m' t' \<and> rb t' \<and> nodes t' = remove1 n (nodes t)"
proof -
  obtain c l r fs where t: "t = plug (Nd c l n r) fs" using assms(3) by (rule position)
  have "distinct (nodes t)" using assms(1) by (simp add: represents_def at_def)
  then have "remove1 n (nodes t) = nodes_before fs @ nodes l @ nodes r @ nodes_after fs"
    by (simp add: t nodes_plug remove1_append)
  then show ?thesis using erase_at[of m c l n r fs] assms t by auto
qed

section \<open>Properties\<close>

text \<open>
  C24: Linking a new node at any free place of a red-black tree and calling \<open>hev_rbtree_insert_color\<close>
  ends, without an access through a null pointer; memory then holds a red-black tree again (parent
  pointers and packed colours included), whose in-order sequence is the old one with the new node at
  that place.
\<close>

theorem rbtree_insert:
  assumes "represents m (plug Lf fs)" and "rb (plug Lf fs)"
    and "ptr_ok n" and "n \<notin> set (nodes (plug Lf fs))" and "rt_mem m n = Some x"
  shows "\<exists>m' m'' t. hev_rbtree_node_link n (up fs) (link_of fs) m = Some m' \<and>
     hev_rbtree_insert_color n m' = Some m'' \<and> represents m'' t \<and> rb t \<and>
     nodes t = nodes_before fs @ [n] @ nodes_after fs"
  by (rule insert_at[OF assms])

definition sample_shape :: rbt where
  "sample_shape = Nd Black (Nd Red Lf 8 Lf) 16 (Nd Red Lf 24 Lf)"

definition sample_tree :: HevRBTree where
  "sample_tree = \<lparr>rt_root = 16, rt_mem =
     [8 \<mapsto> \<lparr>rn_pc = 16, rn_right = 0, rn_left = 0\<rparr>, 16 \<mapsto> \<lparr>rn_pc = 1, rn_right = 24, rn_left = 8\<rparr>,
      24 \<mapsto> \<lparr>rn_pc = 16, rn_right = 0, rn_left = 0\<rparr>, 32 \<mapsto> \<lparr>rn_pc = 0, rn_right = 0, rn_left = 0\<rparr>]\<rparr>"

lemma sample_ptrs: "ptr_ok 8" "ptr_ok 16" "ptr_ok 24" "ptr_ok 32"
  by (simp_all add: ptr_ok_def al_def)

lemma sample_represents: "represents sample_tree sample_shape" and sample_rb: "rb sample_shape"
proof -
  have "mk SLeft (col Black) 8 24 = \<lparr>rn_pc = 1, rn_right = 24, rn_left = 8\<rparr>"
    unfolding mk_def col.simps HEV_RBTREE_BLACK_def by simp
  moreover have "mk SLeft 16 0 0 = \<lparr>rn_pc = 16, rn_right = 0, rn_left = 0\<rparr>" by (simp add: mk_def)
  ultimately show "represents sample_tree sample_shape"
    using sample_ptrs by (simp add: represents_def at_def sample_tree_def sample_shape_def)
qed (simp add: rb_def sample_shape_def)

theorem rbtree_insert_witness:
  "\<exists>m' m'' t. hev_rbtree_node_link 32 24 (ChildLink SRight 24) sample_tree = Some m' \<and>
     hev_rbtree_insert_color 32 m' = Some m'' \<and> represents m'' t \<and> rb t \<and> nodes t = [8, 16, 24, 32]"
proof -
  let ?fs = "[Fr SRight Red 24 Lf, Fr SRight Black 16 (Nd Red Lf 8 Lf)]"
  have p: "plug Lf ?fs = sample_shape" by (simp add: sample_shape_def)
  have m: "rt_mem sample_tree 32 = Some \<lparr>rn_pc = 0, rn_right = 0, rn_left = 0\<rparr>" by (simp add: sample_tree_def)
  from rbtree_insert[of sample_tree ?fs 32, unfolded p, OF sample_represents sample_rb sample_ptrs(4) _ m]
  show ?thesis by (simp add: sample_shape_def)
qed

text \<open>
  C23: \<open>hev_rbtree_erase\<close> of a node of a red-black tree ends, without an access through a null pointer;
  memory then holds a red-black tree whose in-order sequence is the old one without the node.
\<close>

theorem rbtree_erase:
  assumes "represents m t" and "rb t" and "n \<in> set (nodes t)"
  shows "\<exists>m' t'. hev_rbtree_erase n m = Some m' \<and> represents m' t' \<and> rb t' \<and> nodes t' = remove1 n (nodes t)"
  by (rule rbtree_erased[OF assms])

theorem rbtree_erase_witness:
  "\<exists>m' t'. hev_rbtree_erase 16 sample_tree = Some m' \<and> represents m' t' \<and> rb t' \<and> nodes t' = [8, 24]"
  using rbtree_erase[OF sample_represents sample_rb, of 16] by (simp add: sample_shape_def)

text \<open>
  C25: Traversal: \<open>next\<close> and \<open>prev\<close> of a node are its neighbours in the in-order sequence and \<open>NULL\<close>
  at the ends, \<open>first\<close> and \<open>last\<close> are the ends of the sequence and \<open>NULL\<close> for the empty tree.
\<close>

theorem rbtree_walk:
  assumes "represents m t"
  shows "(nodes t = xs @ p # ys \<longrightarrow>
      hev_rbtree_node_next p m = Some (if ys = [] then 0 else hd ys) \<and>
      hev_rbtree_node_prev p m = Some (if xs = [] then 0 else last xs)) \<and>
     hev_rbtree_first m = Some (if nodes t = [] then 0 else hd (nodes t)) \<and>
     hev_rbtree_last m = Some (if nodes t = [] then 0 else last (nodes t))"
  using walk_at[OF assms, of xs p ys] ends_at[OF assms] by blast

theorem rbtree_walk_witness:
  "hev_rbtree_node_next 16 sample_tree = Some 24 \<and> hev_rbtree_node_prev 16 sample_tree = Some 8 \<and>
   hev_rbtree_first sample_tree = Some 8 \<and> hev_rbtree_last sample_tree = Some 24"
  using rbtree_walk[OF sample_represents, of "[8]" 16 "[24]"] by (simp add: sample_shape_def)

text \<open>
  C26: \<open>hev_rbtree_replace\<close> puts a new node in the place of an old one: memory then holds the same tree,
  every node with the colour, the children and the parent it had, except that the new node stands
  where the old one was; so the tree stays balanced and ordered as before.
\<close>

theorem rbtree_replace:
  assumes "represents m t" and "rb t" and "nodes t = xs @ v # ys" and "ptr_ok n" and "n \<notin> set (nodes t)"
    and "rt_mem m n = Some x"
  shows "\<exists>m'. hev_rbtree_replace v n m = Some m' \<and> represents m' (rename_node v n t) \<and> rb (rename_node v n t) \<and>
     nodes (rename_node v n t) = xs @ n # ys"
proof -
  have "v \<in> set (nodes t)" using assms(3) by simp
  then obtain c l r fs where t: "t = plug (Nd c l v r) fs" by (rule position)
  have at: "at m (Nd c l v r) fs" using assms(1) by (simp add: at_plug t)
  have xy: "xs = nodes_before fs @ nodes l" "ys = nodes r @ nodes_after fs"
    using position_nodes[of c l v r fs xs ys] assms(3) at by (auto simp: at_def t)
  have t': "rename_node v n t = plug (Nd c l n r) fs"
    using at by (simp add: at_def t distinct_plug rename_plug rename_other)
  obtain m' where "hev_rbtree_replace v n m = Some m'" "at m' (Nd c l n r) fs"
    using replace_at[OF at assms(4) _ assms(6)] assms(5) t by blast
  moreover have "rb (plug (Nd c l n r) fs)" using assms(2) by (auto simp: t rb_plug)
  ultimately show ?thesis by (auto simp: t' at_plug nodes_plug xy)
qed

theorem rbtree_replace_witness:
  "\<exists>m'. hev_rbtree_replace 16 32 sample_tree = Some m' \<and> represents m' (Nd Black (Nd Red Lf 8 Lf) 32 (Nd Red Lf 24 Lf))"
  using rbtree_replace[OF sample_represents sample_rb, of "[8]" 16 "[24]" 32] sample_ptrs(4)
  by (simp add: sample_shape_def) (auto simp: sample_tree_def)

end
