(* ===== verification/RBTree_Search.thy ===== *)
theory RBTree_Search
  imports RBTree_Walk
begin

text \<open>
  Search trees over the red-black tree: the descent that the authenticator (\<open>hev-socks5-authenticator.c\<close>)
  and the mapped DNS (\<open>hev-mapped-dns.c\<close>) write out over \<open>left\<close> and \<open>right\<close>, the order it relies on, and
  the comparisons of the C library the two pass to it.
\<close>

section \<open>The descent\<close>

text \<open>
  \<open>cmp p\<close> compares the key of the node \<open>p\<close> with the key sought.  The result is the node found, or \<open>NULL\<close>
  with the parent and the link at which the search ended.
\<close>

partial_function (option) descend ::
  "(u64 \<Rightarrow> int option) \<Rightarrow> u64 \<Rightarrow> rblink \<Rightarrow> u64 \<Rightarrow> HevRBTree \<Rightarrow> (u64 \<times> u64 \<times> rblink) option" where
  "descend cmp parent link cur m =
     (if cur = 0 then Some (0, parent, link)
      else do {
        res \<leftarrow> cmp cur;
        if res < 0 then do {
          next \<leftarrow> rd rn_left cur m;
          descend cmp cur (ChildLink SLeft cur) next m }
        else if res > 0 then do {
          next \<leftarrow> rd rn_right cur m;
          descend cmp cur (ChildLink SRight cur) next m }
        else Some (cur, parent, link) })"

declare descend.simps [code]

text \<open>Memory that is not part of the tree may change.\<close>

lemma represents_upd: "represents m t \<Longrightarrow> p \<notin> set (nodes t) \<Longrightarrow> represents (m\<lparr>rt_mem := (rt_mem m)(p := x)\<rparr>) t"
  by (simp add: represents_def at_def)

section \<open>Comparisons\<close>

fun memcmp :: "byte list \<Rightarrow> byte list \<Rightarrow> int" where
  "memcmp (x # xs) (y # ys) = (if x = y then memcmp xs ys else uint x - uint y)"
| "memcmp _ _ = 0"

fun strcmp :: "byte list \<Rightarrow> byte list \<Rightarrow> int" where
  "strcmp [] [] = 0"
| "strcmp [] (y # ys) = - uint y"
| "strcmp (x # xs) [] = uint x"
| "strcmp (x # xs) (y # ys) = (if x = y then strcmp xs ys else uint x - uint y)"

section \<open>Ordered keys\<close>

locale key_order =
  fixes cmp :: "'k \<Rightarrow> 'k \<Rightarrow> int" and ok :: "'k \<Rightarrow> bool"
  assumes cmp_eq: "ok x \<Longrightarrow> ok y \<Longrightarrow> cmp x y = 0 \<longleftrightarrow> x = y"
    and cmp_swap: "ok x \<Longrightarrow> ok y \<Longrightarrow> 0 < cmp x y \<longleftrightarrow> cmp y x < 0"
    and cmp_trans: "ok x \<Longrightarrow> ok y \<Longrightarrow> ok z \<Longrightarrow> 0 < cmp x y \<Longrightarrow> 0 < cmp y z \<Longrightarrow> 0 < cmp x z"
begin

text \<open>The keys of the nodes in order: the descent goes left when the node is smaller, so they decrease.\<close>

definition keys_sorted :: "(u64 \<Rightarrow> 'k) \<Rightarrow> u64 list \<Rightarrow> bool" where
  "keys_sorted key ps \<longleftrightarrow> (\<forall>p\<in>set ps. ok (key p)) \<and> sorted_wrt (\<lambda>p q. 0 < cmp (key p) (key q)) ps"

lemma keys_sorted_append [simp]:
  "keys_sorted key (xs @ ys) \<longleftrightarrow>
     keys_sorted key xs \<and> keys_sorted key ys \<and> (\<forall>p\<in>set xs. \<forall>q\<in>set ys. 0 < cmp (key p) (key q))"
  by (auto simp: keys_sorted_def sorted_wrt_append)

lemma keys_sorted_Cons [simp]:
  "keys_sorted key (p # ps) \<longleftrightarrow> ok (key p) \<and> keys_sorted key ps \<and> (\<forall>q\<in>set ps. 0 < cmp (key p) (key q))"
  by (auto simp: keys_sorted_def)

lemma keys_sorted_Nil [simp]: "keys_sorted key []"
  by (simp add: keys_sorted_def)

lemma keys_sorted_remove1: "keys_sorted key ps \<Longrightarrow> keys_sorted key (remove1 p ps)"
  by (induction ps) (auto dest: notin_set_remove1 set_remove1_subset[THEN subsetD])

lemma keys_sorted_cong: "(\<And>p. p \<in> set ps \<Longrightarrow> key p = key' p) \<Longrightarrow> keys_sorted key ps = keys_sorted key' ps"
  by (induction ps) auto

lemma keys_distinct:
  assumes "keys_sorted key ps" and "p \<in> set ps" and "q \<in> set ps" and "key p = key q"
  shows "p = q"
proof (rule ccontr)
  assume "p \<noteq> q"
  have irr: "\<not> 0 < cmp (key p) (key p)" using assms(1,2) cmp_eq[of "key p" "key p"] by (auto simp: keys_sorted_def)
  from split_list[OF assms(2)] obtain xs ys where ps: "ps = xs @ p # ys" by blast
  with assms(3) \<open>p \<noteq> q\<close> have "q \<in> set xs \<or> q \<in> set ys" by auto
  with assms(1) have "0 < cmp (key q) (key p) \<or> 0 < cmp (key p) (key q)" by (auto simp: ps)
  with irr assms(4) show False by simp
qed

text \<open>The position found for a key: smaller keys lie after it, greater keys before it.\<close>

definition gap_for :: "(u64 \<Rightarrow> 'k) \<Rightarrow> 'k \<Rightarrow> frame list \<Rightarrow> bool" where
  "gap_for key k fs \<longleftrightarrow> (\<forall>p\<in>set (nodes_before fs). 0 < cmp (key p) k) \<and> (\<forall>p\<in>set (nodes_after fs). cmp (key p) k < 0)"

lemma gap_push:
  assumes "keys_sorted key (nodes (nd d c p a b))" and "ok k" and "gap_for key k fs"
    and "cmp (key p) k < 0 \<and> d = SLeft \<or> 0 < cmp (key p) k \<and> d = SRight"
  shows "gap_for key k (Fr d c p b # fs)"
proof -
  have okp: "ok (key q)" if "q \<in> set (nodes (nd d c p a b))" for q using assms(1) that by (auto simp: keys_sorted_def)
  from assms(4) show ?thesis
  proof
    assume l: "cmp (key p) k < 0 \<and> d = SLeft"
    have "cmp (key q) k < 0" if "q \<in> set (nodes b)" for q
    proof -
      have "0 < cmp (key p) (key q)" using assms(1) that l by auto
      moreover have "0 < cmp k (key p)" using l cmp_swap[of k "key p"] okp assms(2) by simp
      ultimately have "0 < cmp k (key q)" using cmp_trans[of k "key p" "key q"] okp that assms(2) by simp
      then show ?thesis using cmp_swap[of k "key q"] okp that assms(2) by simp
    qed
    then show ?thesis using assms(3) l by (auto simp: gap_for_def)
  next
    assume r: "0 < cmp (key p) k \<and> d = SRight"
    have "0 < cmp (key q) k" if "q \<in> set (nodes b)" for q
      using assms(1) that r okp assms(2) cmp_trans[of "key q" "key p" k] by auto
    then show ?thesis using assms(3) r by (auto simp: gap_for_def)
  qed
qed

text \<open>What a search in the tree \<open>t\<close> returns: the node with the key, or the free place where it belongs.\<close>

definition search_ok :: "(u64 \<Rightarrow> 'k) \<Rightarrow> 'k \<Rightarrow> rbt \<Rightarrow> (u64 \<times> u64 \<times> rblink) option \<Rightarrow> bool" where
  "search_ok key k t res \<longleftrightarrow>
     (\<exists>p parent link. res = Some (p, parent, link) \<and> p \<noteq> 0 \<and> p \<in> set (nodes t) \<and> key p = k) \<or>
     (\<exists>gs. res = Some (0, up gs, link_of gs) \<and> t = plug Lf gs \<and> gap_for key k gs)"

lemma descend_at:
  assumes "at m t fs" and "keys_sorted key (nodes t)" and "ok k" and "gap_for key k fs"
    and "\<And>p. p \<in> set (nodes t) \<Longrightarrow> f p = Some (cmp (key p) k)"
  shows "search_ok key k (plug t fs) (descend f (up fs) (link_of fs) (rp t) m)"
  using assms
proof (induction t arbitrary: fs)
  case Lf
  then show ?case by (subst descend.simps) (auto simp: search_ok_def)
next
  case (Nd c l p r)
  note a = atD[OF Nd.prems(1)]
  have p: "rd rn_left p m = Some (rp l)" "rd rn_right p m = Some (rp r)" "p \<noteq> 0" using a(1) by (auto simp: rd_def)
  have fp: "f p = Some (cmp (key p) k)" using Nd.prems(5) by simp
  have okp: "ok (key p)" using Nd.prems(2) by simp
  consider "cmp (key p) k = 0" | "cmp (key p) k < 0" | "0 < cmp (key p) k" by linarith
  then show ?case
  proof cases
    case 1
    then have "descend f (up fs) (link_of fs) p m = Some (p, up fs, link_of fs)"
      using p fp by (subst descend.simps) simp
    moreover have "key p = k" using 1 cmp_eq[OF okp Nd.prems(3)] by simp
    ultimately show ?thesis using p(3) by (auto simp: search_ok_def nodes_plug)
  next
    case 2
    have d: "descend f (up fs) (link_of fs) p m = descend f (up (Fr SLeft c p r # fs)) (link_of (Fr SLeft c p r # fs)) (rp l) m"
      using 2 p fp by (subst descend.simps) simp
    have g: "gap_for key k (Fr SLeft c p r # fs)"
      by (rule gap_push[where a = l]) (use 2 Nd.prems in auto)
    have "at m l (Fr SLeft c p r # fs)" using Nd.prems(1) by (simp add: at_Cons)
    from Nd.IH(1)[OF this _ Nd.prems(3) g] Nd.prems(2,5) d show ?thesis by simp
  next
    case 3
    have d: "descend f (up fs) (link_of fs) p m = descend f (up (Fr SRight c p l # fs)) (link_of (Fr SRight c p l # fs)) (rp r) m"
      using 3 p fp by (subst descend.simps) simp
    have g: "gap_for key k (Fr SRight c p l # fs)"
      by (rule gap_push[where a = r]) (use 3 Nd.prems in auto)
    have "at m r (Fr SRight c p l # fs)" using Nd.prems(1) by (simp add: at_Cons)
    from Nd.IH(2)[OF this _ Nd.prems(3) g] Nd.prems(2,5) d show ?thesis by simp
  qed
qed

lemma search:
  assumes "represents m t" and "keys_sorted key (nodes t)" and "ok k"
    and "\<And>p. p \<in> set (nodes t) \<Longrightarrow> f p = Some (cmp (key p) k)"
  shows "search_ok key k t (descend f 0 RootLink (rt_root m) m)"
proof -
  have "at m t []" "gap_for key k []" using assms(1) by (simp_all add: represents_def gap_for_def)
  from descend_at[OF this(1) assms(2,3) this(2) assms(4)] assms(1) show ?thesis
    by (simp add: represents_def at_def)
qed

lemma gap_no_key:
  assumes "gap_for key k gs" and "keys_sorted key (nodes (plug Lf gs))" and "ok k" and "p \<in> set (nodes (plug Lf gs))"
  shows "key p \<noteq> k"
  using assms cmp_eq[of "key p" k] by (auto simp: gap_for_def nodes_plug)

lemma search_found:
  assumes "represents m t" and "keys_sorted key (nodes t)" and "ok k"
    and "\<And>p. p \<in> set (nodes t) \<Longrightarrow> f p = Some (cmp (key p) k)" and "p \<in> set (nodes t)" and "key p = k"
  shows "\<exists>parent link. descend f 0 RootLink (rt_root m) m = Some (p, parent, link) \<and> p \<noteq> 0"
proof -
  have "search_ok key k t (descend f 0 RootLink (rt_root m) m)" by (rule search[OF assms(1-3)]) (rule assms(4))
  moreover have "False" if "t = plug Lf gs" "gap_for key k gs" for gs
    using gap_no_key[OF that(2) _ assms(3), of p] that(1) assms(2,5,6) by simp
  moreover have "q = p" if "q \<in> set (nodes t)" "key q = k" for q
    using keys_distinct[OF assms(2) that(1) assms(5)] that(2) assms(6) by simp
  ultimately show ?thesis unfolding search_ok_def by blast
qed

lemma search_missing:
  assumes "represents m t" and "keys_sorted key (nodes t)" and "ok k"
    and "\<And>p. p \<in> set (nodes t) \<Longrightarrow> f p = Some (cmp (key p) k)" and "\<And>p. p \<in> set (nodes t) \<Longrightarrow> key p \<noteq> k"
  shows "\<exists>gs. descend f 0 RootLink (rt_root m) m = Some (0, up gs, link_of gs) \<and> t = plug Lf gs \<and> gap_for key k gs"
proof -
  have "search_ok key k t (descend f 0 RootLink (rt_root m) m)" by (rule search[OF assms(1-3)]) (rule assms(4))
  with assms(5) show ?thesis unfolding search_ok_def by blast
qed

lemma keys_sorted_insert:
  assumes "keys_sorted key (nodes (plug Lf gs))" and "gap_for key k gs" and "ok k" and "key' n = k"
    and "\<And>p. p \<in> set (nodes (plug Lf gs)) \<Longrightarrow> key' p = key p"
  shows "keys_sorted key' (nodes_before gs @ [n] @ nodes_after gs)"
proof -
  have "keys_sorted key' (nodes (plug Lf gs))" using assms(1) keys_sorted_cong[of "nodes (plug Lf gs)" key' key] assms(5) by simp
  then have s: "keys_sorted key' (nodes_before gs)" "keys_sorted key' (nodes_after gs)"
    and x: "\<forall>p\<in>set (nodes_before gs). \<forall>q\<in>set (nodes_after gs). 0 < cmp (key' p) (key' q)"
    by (auto simp: nodes_plug)
  have g: "\<forall>p\<in>set (nodes_before gs). 0 < cmp (key' p) k" "\<forall>p\<in>set (nodes_after gs). cmp (key' p) k < 0"
    using assms(2,5) by (auto simp: gap_for_def nodes_plug)
  have "\<forall>p\<in>set (nodes_after gs). 0 < cmp k (key' p)"
    using g(2) s(2) assms(3) cmp_swap by (auto simp: keys_sorted_def)
  with s x g(1) assms(3,4) show ?thesis by auto
qed

end

section \<open>The two orders\<close>

lemma byte_uint [simp]: "uint x = uint y \<longleftrightarrow> x = y" "uint x = 0 \<longleftrightarrow> x = 0" for x y :: byte
  by (simp_all add: word_uint_eq_iff)

lemma memcmp_eq: "length x = length y \<Longrightarrow> memcmp x y = 0 \<longleftrightarrow> x = y"
  by (induction x y rule: memcmp.induct) auto

lemma memcmp_swap: "length x = length y \<Longrightarrow> memcmp y x = - memcmp x y"
  by (induction x y rule: memcmp.induct) auto

lemma memcmp_trans:
  "length x = length y \<Longrightarrow> length y = length z \<Longrightarrow> 0 < memcmp x y \<Longrightarrow> 0 < memcmp y z \<Longrightarrow> 0 < memcmp x z"
proof (induction x z arbitrary: y rule: memcmp.induct)
  case (1 a xs b zs)
  then obtain c ys where "y = c # ys" by (cases y) auto
  with 1 show ?case by (auto split: if_splits)
qed auto

definition name_cmp :: "byte list \<Rightarrow> byte list \<Rightarrow> int" where
  "name_cmp x y = (if length x < length y then -1 else if length y < length x then 1 else memcmp x y)"

lemma name_order: "key_order name_cmp (\<lambda>_. True)"
proof
  show "name_cmp x y = 0 \<longleftrightarrow> x = y" for x y by (auto simp: name_cmp_def memcmp_eq)
  show "0 < name_cmp x y \<longleftrightarrow> name_cmp y x < 0" for x y
    using memcmp_swap[of x y] by (auto simp: name_cmp_def)
  show "0 < name_cmp x z" if "0 < name_cmp x y" "0 < name_cmp y z" for x y z
    using that memcmp_trans[of x y z] by (auto simp: name_cmp_def split: if_splits)
qed

interpretation names: key_order name_cmp "\<lambda>_. True"
  by (rule name_order)

lemma strcmp_eq: "0 \<notin> set x \<Longrightarrow> 0 \<notin> set y \<Longrightarrow> strcmp x y = 0 \<longleftrightarrow> x = y"
  by (induction x y rule: strcmp.induct) auto

lemma strcmp_swap: "strcmp y x = - strcmp x y"
  by (induction x y rule: strcmp.induct) auto

lemma uint_pos: "(x :: byte) \<noteq> 0 \<Longrightarrow> 0 < uint x"
  using byte_uint(2)[of x] unsigned_greater_eq[of x] by (metis order_le_less unsigned_greater_eq)

lemma strcmp_trans:
  "0 \<notin> set x \<Longrightarrow> 0 \<notin> set y \<Longrightarrow> 0 \<notin> set z \<Longrightarrow> 0 < strcmp x y \<Longrightarrow> 0 < strcmp y z \<Longrightarrow> 0 < strcmp x z"
proof (induction x z arbitrary: y rule: strcmp.induct)
  case (1 y)
  then show ?case using strcmp_swap[of "[]" y] by auto
next
  case (2 b zs y)
  then show ?case by (cases y) auto
next
  case (3 a xs y)
  then show ?case using uint_pos[of a] by auto
next
  case (4 a xs b zs y)
  from 4(5,6) obtain c ys where y: "y = c # ys" by (cases y) (auto split: if_splits)
  have xy: "0 < (if a = c then strcmp xs ys else uint a - uint c)" using 4(5) by (simp add: y)
  have yz: "0 < (if c = b then strcmp ys zs else uint c - uint b)" using 4(6) by (simp add: y)
  show ?case
  proof (cases "a = b")
    case True
    have "a = c" using xy yz True by (auto split: if_splits)
    then show ?thesis using 4(1)[OF True, of ys] 4(2,3,4) xy yz True by (simp add: y)
  next
    case False
    then show ?thesis using xy yz by (auto split: if_splits)
  qed
qed

interpretation strings: key_order strcmp "\<lambda>s. 0 \<notin> set s"
proof
  show "strcmp x y = 0 \<longleftrightarrow> x = y" if "0 \<notin> set x" "0 \<notin> set y" for x y by (rule strcmp_eq[OF that])
  show "0 < strcmp x y \<longleftrightarrow> strcmp y x < 0" for x y using strcmp_swap[of y x] by simp
  show "0 < strcmp x z" if "0 \<notin> set x" "0 \<notin> set y" "0 \<notin> set z" "0 < strcmp x y" "0 < strcmp y z" for x y z
    by (rule strcmp_trans[OF that])
qed

end
