(* ===== verification/Authenticator.thy ===== *)
theory Authenticator
  imports RBTree_Search
begin

text \<open>
  Users and the authenticator of the SOCKS5 server (\<open>core/src/hev-socks5-user.c\<close> and
  \<open>core/src/hev-socks5-authenticator.c\<close>): reference-counted user objects linked into a red-black tree by
  name.  A user is identified with the address of the tree node it embeds (\<open>container_of\<close>).
\<close>

section \<open>Users\<close>

text \<open>
  The reference counts are natural numbers here and \<open>unsigned int\<close> in the source.  The difference shows
  only with \<open>2 ^ 32\<close> references to one object at a time; each is held by a session of its own.
\<close>

record HevSocks5User =
  us_name :: "byte list"
  us_pass :: "byte list"
  us_ref :: nat

record HevSocks5Authenticator =
  au_tree :: HevRBTree
  au_users :: "u64 \<Rightarrow> HevSocks5User option"
  au_ref :: nat

text \<open>
  \<open>p\<close> is the address that \<open>calloc\<close> returned for the object.  The copies of name and password are part of
  the object here; their allocation is taken to succeed.
\<close>

definition hev_socks5_user_construct :: "byte list \<Rightarrow> byte list \<Rightarrow> HevSocks5User" where
  "hev_socks5_user_construct name pass = \<lparr>us_name = name, us_pass = pass, us_ref = 1\<rparr>"

definition hev_socks5_user_new ::
  "u64 \<Rightarrow> byte list \<Rightarrow> byte list \<Rightarrow> HevSocks5Authenticator \<Rightarrow> u64 \<times> HevSocks5Authenticator" where
  "hev_socks5_user_new p name pass self =
     (if p = 0 then (0, self)
      else (p, self\<lparr>au_users := (au_users self)(p \<mapsto> hev_socks5_user_construct name pass),
        au_tree := (au_tree self)\<lparr>rt_mem := (rt_mem (au_tree self))(p \<mapsto> \<lparr>rn_pc = 0, rn_right = 0, rn_left = 0\<rparr>)\<rparr>\<rparr>))"

definition hev_socks5_user_destruct :: "u64 \<Rightarrow> HevSocks5Authenticator \<Rightarrow> HevSocks5Authenticator" where
  "hev_socks5_user_destruct p self =
     self\<lparr>au_users := (au_users self)(p := None),
       au_tree := (au_tree self)\<lparr>rt_mem := (rt_mem (au_tree self))(p := None)\<rparr>\<rparr>"

definition hev_socks5_user_checker :: "HevSocks5User \<Rightarrow> byte list \<Rightarrow> int" where
  "hev_socks5_user_checker self pass =
     (if length (us_pass self) \<noteq> length pass then -1
      else if memcmp (us_pass self) pass \<noteq> 0 then -1
      else 0)"

text \<open>\<open>hev_object_ref\<close> and \<open>hev_object_unref\<close> on a user.\<close>

definition user_ref :: "u64 \<Rightarrow> HevSocks5Authenticator \<Rightarrow> HevSocks5Authenticator option" where
  "user_ref p self = do {
     u \<leftarrow> au_users self p;
     Some (self\<lparr>au_users := (au_users self)(p \<mapsto> u\<lparr>us_ref := us_ref u + 1\<rparr>)\<rparr>) }"

definition user_unref :: "u64 \<Rightarrow> HevSocks5Authenticator \<Rightarrow> HevSocks5Authenticator option" where
  "user_unref p self = do {
     u \<leftarrow> au_users self p;
     if us_ref u > 1 then Some (self\<lparr>au_users := (au_users self)(p \<mapsto> u\<lparr>us_ref := us_ref u - 1\<rparr>)\<rparr>)
     else Some (hev_socks5_user_destruct p self) }"

section \<open>The authenticator\<close>

definition hev_socks5_authenticator_construct :: "HevSocks5Authenticator \<Rightarrow> HevSocks5Authenticator" where
  "hev_socks5_authenticator_construct self =
     self\<lparr>au_tree := (au_tree self)\<lparr>rt_root := 0\<rparr>, au_ref := 1\<rparr>"

text \<open>The comparison of the three loops: first the lengths, then the bytes.\<close>

definition user_cmp :: "byte list \<Rightarrow> HevSocks5Authenticator \<Rightarrow> u64 \<Rightarrow> int option" where
  "user_cmp name self p =
     map_option (\<lambda>this.
       if length (us_name this) < length name then -1
       else if length (us_name this) > length name then 1
       else memcmp (us_name this) name) (au_users self p)"

definition hev_socks5_authenticator_add ::
  "u64 \<Rightarrow> HevSocks5Authenticator \<Rightarrow> (int \<times> HevSocks5Authenticator) option" where
  "hev_socks5_authenticator_add user self = do {
     u \<leftarrow> au_users self user;
     (found, parent, link) \<leftarrow>
       descend (user_cmp (us_name u) self) 0 RootLink (rt_root (au_tree self)) (au_tree self);
     if found \<noteq> 0 then Some (-1, self)
     else do {
       tree \<leftarrow> hev_rbtree_node_link user parent link (au_tree self);
       tree \<leftarrow> hev_rbtree_insert_color user tree;
       Some (0, self\<lparr>au_tree := tree\<rparr>) } }"

definition hev_socks5_authenticator_del ::
  "byte list \<Rightarrow> HevSocks5Authenticator \<Rightarrow> (int \<times> HevSocks5Authenticator) option" where
  "hev_socks5_authenticator_del name self = do {
     (found, parent, link) \<leftarrow>
       descend (user_cmp name self) 0 RootLink (rt_root (au_tree self)) (au_tree self);
     if found \<noteq> 0 then do {
       tree \<leftarrow> hev_rbtree_erase found (au_tree self);
       self \<leftarrow> user_unref found (self\<lparr>au_tree := tree\<rparr>);
       Some (0, self) }
     else Some (-1, self) }"

definition hev_socks5_authenticator_get :: "byte list \<Rightarrow> HevSocks5Authenticator \<Rightarrow> u64 option" where
  "hev_socks5_authenticator_get name self = do {
     (found, parent, link) \<leftarrow>
       descend (user_cmp name self) 0 RootLink (rt_root (au_tree self)) (au_tree self);
     Some found }"

partial_function (option) hev_socks5_authenticator_clear ::
  "HevSocks5Authenticator \<Rightarrow> HevSocks5Authenticator option" where
  "hev_socks5_authenticator_clear self = do {
     n \<leftarrow> hev_rbtree_first (au_tree self);
     if n \<noteq> 0 then do {
       tree \<leftarrow> hev_rbtree_erase n (au_tree self);
       self \<leftarrow> user_unref n (self\<lparr>au_tree := tree\<rparr>);
       hev_socks5_authenticator_clear self }
     else Some self }"

declare hev_socks5_authenticator_clear.simps [code]

definition hev_socks5_authenticator_destruct :: "HevSocks5Authenticator \<Rightarrow> HevSocks5Authenticator option" where
  "hev_socks5_authenticator_destruct self = hev_socks5_authenticator_clear self"

definition authenticator_unref :: "HevSocks5Authenticator \<Rightarrow> HevSocks5Authenticator option" where
  "authenticator_unref self =
     (let rc = au_ref self; self = self\<lparr>au_ref := au_ref self - 1\<rparr> in
      if rc > 1 then Some self else hev_socks5_authenticator_destruct self)"

section \<open>Invariant and abstraction\<close>

definition name_at :: "HevSocks5Authenticator \<Rightarrow> u64 \<Rightarrow> byte list" where
  "name_at self p = (case au_users self p of Some u \<Rightarrow> us_name u | None \<Rightarrow> [])"

text \<open>
  The tree in memory is a red-black tree \<open>t\<close>, sorted by name, and its nodes are live users.
\<close>

definition auth_inv :: "HevSocks5Authenticator \<Rightarrow> rbt \<Rightarrow> bool" where
  "auth_inv self t \<longleftrightarrow> represents (au_tree self) t \<and> rb t \<and> names.keys_sorted (name_at self) (nodes t) \<and>
     (\<forall>p\<in>set (nodes t). \<exists>u. au_users self p = Some u \<and> 0 < us_ref u)"

definition users_of :: "HevSocks5Authenticator \<Rightarrow> rbt \<Rightarrow> byte list \<Rightarrow> u64 option" where
  "users_of self t = map_of (map (\<lambda>p. (name_at self p, p)) (nodes t))"

lemma user_cmp_name: "au_users self p = Some u \<Longrightarrow> user_cmp name self p = Some (name_cmp (name_at self p) name)"
  by (simp add: user_cmp_def name_cmp_def name_at_def)

lemma user_cmp_nodes: "auth_inv self t \<Longrightarrow> p \<in> set (nodes t) \<Longrightarrow> user_cmp name self p = Some (name_cmp (name_at self p) name)"
  using user_cmp_name by (fastforce simp: auth_inv_def)

lemma auth_invD:
  assumes "auth_inv self t"
  shows "represents (au_tree self) t" and "rb t" and "names.keys_sorted (name_at self) (nodes t)" and "distinct (nodes t)"
  using assms by (auto simp: auth_inv_def represents_def at_def)

lemma users_of_Some:
  assumes "auth_inv self t"
  shows "users_of self t name = Some p \<longleftrightarrow> p \<in> set (nodes t) \<and> name_at self p = name"
proof -
  have "inj_on (name_at self) (set (nodes t))"
    using names.keys_distinct[OF auth_invD(3)[OF assms]] by (auto simp: inj_on_def)
  then have "distinct (map fst (map (\<lambda>p. (name_at self p, p)) (nodes t)))"
    using auth_invD(4)[OF assms] by (simp add: distinct_map comp_def)
  then show ?thesis by (auto simp: users_of_def)
qed

lemma users_of_None: "users_of self t name = None \<longleftrightarrow> (\<forall>p\<in>set (nodes t). name_at self p \<noteq> name)"
  by (auto simp: users_of_def map_of_eq_None_iff image_image)

lemma find_user:
  assumes "auth_inv self t"
  shows "(case users_of self t name of
      Some p \<Rightarrow> p \<noteq> 0 \<and> (\<exists>parent link. descend (user_cmp name self) 0 RootLink (rt_root (au_tree self)) (au_tree self) = Some (p, parent, link))
    | None \<Rightarrow> (\<exists>gs. descend (user_cmp name self) 0 RootLink (rt_root (au_tree self)) (au_tree self) = Some (0, up gs, link_of gs) \<and>
        t = plug Lf gs \<and> names.gap_for (name_at self) name gs))"
proof (cases "users_of self t name")
  case None
  have "\<exists>gs. descend (user_cmp name self) 0 RootLink (rt_root (au_tree self)) (au_tree self) = Some (0, up gs, link_of gs) \<and>
        t = plug Lf gs \<and> names.gap_for (name_at self) name gs"
    by (rule names.search_missing[OF auth_invD(1,3)[OF assms]])
      (use None user_cmp_nodes[OF assms] in \<open>auto simp: users_of_None\<close>)
  with None show ?thesis by simp
next
  case (Some p)
  then have p: "p \<in> set (nodes t)" "name_at self p = name" using users_of_Some[OF assms] by auto
  have "\<exists>parent link. descend (user_cmp name self) 0 RootLink (rt_root (au_tree self)) (au_tree self) = Some (p, parent, link) \<and> p \<noteq> 0"
    by (rule names.search_found[OF auth_invD(1,3)[OF assms] _ user_cmp_nodes[OF assms] p]) simp_all
  with Some show ?thesis by auto
qed

lemma get_users_of:
  assumes "auth_inv self t"
  shows "hev_socks5_authenticator_get name self = Some (case users_of self t name of None \<Rightarrow> 0 | Some p \<Rightarrow> p)"
  using find_user[OF assms, of name] by (auto simp: hev_socks5_authenticator_get_def split: option.splits)

lemma add_user:
  assumes "auth_inv self t" and "au_users self p = Some u" and "0 < us_ref u" and "ptr_ok p" and "p \<notin> set (nodes t)"
    and "rt_mem (au_tree self) p = Some x"
  shows "\<exists>self' t'. auth_inv self' t' \<and>
     (if users_of self t (us_name u) = None
      then hev_socks5_authenticator_add p self = Some (0, self') \<and> users_of self' t' = (users_of self t)(us_name u \<mapsto> p)
      else hev_socks5_authenticator_add p self = Some (-1, self') \<and> self' = self \<and> t' = t)"
proof (cases "users_of self t (us_name u)")
  case (Some q)
  then show ?thesis using find_user[OF assms(1), of "us_name u"] assms(1,2)
    by (auto simp: hev_socks5_authenticator_add_def)
next
  case None
  then obtain gs where gs: "descend (user_cmp (us_name u) self) 0 RootLink (rt_root (au_tree self)) (au_tree self) = Some (0, up gs, link_of gs)"
    "t = plug Lf gs" "names.gap_for (name_at self) (us_name u) gs" using find_user[OF assms(1), of "us_name u"] by auto
  obtain m1 m2 t' where m: "hev_rbtree_node_link p (up gs) (link_of gs) (au_tree self) = Some m1"
    "hev_rbtree_insert_color p m1 = Some m2" "represents m2 t'" "rb t'" and n: "nodes t' = nodes_before gs @ [p] @ nodes_after gs"
    using insert_at[of "au_tree self" gs p x] auth_invD(1,2)[OF assms(1)] gs(2) assms(4-6) by auto
  let ?s = "self\<lparr>au_tree := m2\<rparr>"
  have na: "name_at ?s = name_at self" by (simp add: name_at_def fun_eq_iff)
  have set': "set (nodes t') = insert p (set (nodes t))" using n gs(2) by (auto simp: nodes_plug)
  have "names.keys_sorted (name_at ?s) (nodes t')" unfolding n na
    by (rule names.keys_sorted_insert[where key = "name_at self" and k = "us_name u"])
      (use auth_invD(3)[OF assms(1)] gs assms(2) in \<open>auto simp: name_at_def\<close>)
  then have inv: "auth_inv ?s t'" using m(3,4) assms(1,2,3) set' by (auto simp: auth_inv_def)
  moreover have "users_of ?s t' = (users_of self t)(us_name u \<mapsto> p)"
  proof
    fix name
    have np: "name_at self p = us_name u" using assms(2) by (simp add: name_at_def)
    show "users_of ?s t' name = ((users_of self t)(us_name u \<mapsto> p)) name"
    proof (cases "name = us_name u")
      case True
      then show ?thesis using users_of_Some[OF inv, of name p] set' np na by simp
    next
      case False
      have "users_of ?s t' name = Some q \<longleftrightarrow> users_of self t name = Some q" for q
        using users_of_Some[OF inv, of name q] users_of_Some[OF assms(1), of name q] set' np na False by auto
      then show ?thesis using False by (cases "users_of self t name"; cases "users_of ?s t' name") auto
    qed
  qed
  moreover have "hev_socks5_authenticator_add p self = Some (0, ?s)"
    using assms(2) gs(1) m by (simp add: hev_socks5_authenticator_add_def)
  ultimately show ?thesis using None by auto
qed

text \<open>Giving up one reference.\<close>

definition dropped :: "HevSocks5User option \<Rightarrow> HevSocks5User option" where
  "dropped x = (case x of None \<Rightarrow> None
     | Some u \<Rightarrow> if us_ref u > 1 then Some (u\<lparr>us_ref := us_ref u - 1\<rparr>) else None)"

lemma remove_user:
  assumes "auth_inv self t" and "p \<in> set (nodes t)"
  shows "\<exists>self' t'. Option.bind (hev_rbtree_erase p (au_tree self)) (\<lambda>tree. user_unref p (self\<lparr>au_tree := tree\<rparr>)) = Some self' \<and>
     auth_inv self' t' \<and> nodes t' = remove1 p (nodes t) \<and>
     users_of self' t' = (users_of self t)(name_at self p := None) \<and>
     au_users self' = (au_users self)(p := dropped (au_users self p)) \<and> au_ref self' = au_ref self"
proof -
  obtain m t' where m: "hev_rbtree_erase p (au_tree self) = Some m" "represents m t'" "rb t'"
    and n: "nodes t' = remove1 p (nodes t)"
    using rbtree_erased[OF auth_invD(1,2)[OF assms(1)] assms(2)] by blast
  obtain u where u: "au_users self p = Some u" "0 < us_ref u" using assms by (auto simp: auth_inv_def)
  have set': "set (nodes t') = set (nodes t) - {p}" using n auth_invD(4)[OF assms(1)] by simp
  define s' where "s' = (if us_ref u > 1 then self\<lparr>au_tree := m, au_users := (au_users self)(p \<mapsto> u\<lparr>us_ref := us_ref u - 1\<rparr>)\<rparr>
     else hev_socks5_user_destruct p (self\<lparr>au_tree := m\<rparr>))"
  have e: "Option.bind (hev_rbtree_erase p (au_tree self)) (\<lambda>tree. user_unref p (self\<lparr>au_tree := tree\<rparr>)) = Some s'"
    using m(1) u by (simp add: user_unref_def s'_def)
  have us: "au_users s' = (au_users self)(p := dropped (au_users self p))" "au_ref s' = au_ref self"
    using u by (auto simp: hev_socks5_user_destruct_def dropped_def s'_def)
  have rep: "represents (au_tree s') t'"
    using m(2) set' represents_upd[of m t' p None] by (auto simp: hev_socks5_user_destruct_def s'_def)
  have na: "name_at s' q = name_at self q" if "q \<in> set (nodes t')" for q
    using us that set' by (simp add: name_at_def)
  have "names.keys_sorted (name_at s') (nodes t')"
    using names.keys_sorted_remove1[OF auth_invD(3)[OF assms(1)], of p] na n
      names.keys_sorted_cong[of "nodes t'" "name_at s'" "name_at self"] by simp
  then have inv: "auth_inv s' t'" using rep m(3) assms(1) set' us by (auto simp: auth_inv_def)
  have "users_of s' t' = (users_of self t)(name_at self p := None)"
  proof
    fix name
    show "users_of s' t' name = ((users_of self t)(name_at self p := None)) name"
    proof (cases "name = name_at self p")
      case True
      have "q = p" if "q \<in> set (nodes t)" "name_at self q = name_at self p" for q
        by (rule names.keys_distinct[OF auth_invD(3)[OF assms(1)] that(1) assms(2) that(2)])
      then show ?thesis using True na set' by (auto simp: users_of_None)
    next
      case False
      have "users_of s' t' name = Some q \<longleftrightarrow> users_of self t name = Some q" for q
      proof (cases "q = p")
        case True
        then show ?thesis using False by (simp only: users_of_Some[OF inv] users_of_Some[OF assms(1)] set') auto
      next
        case q: False
        then have "q \<in> set (nodes t') \<longleftrightarrow> q \<in> set (nodes t)" by (simp add: set')
        with na[of q] show ?thesis by (simp only: users_of_Some[OF inv] users_of_Some[OF assms(1)]) metis
      qed
      then show ?thesis using False by (simp add: option_eqI)
    qed
  qed
  with e inv n us show ?thesis by blast
qed

lemma clear_users:
  assumes "auth_inv self t"
  shows "\<exists>self'. hev_socks5_authenticator_clear self = Some self' \<and> auth_inv self' Lf \<and>
     au_users self' = (\<lambda>p. if p \<in> set (nodes t) then dropped (au_users self p) else au_users self p)"
  using assms
proof (induction "length (nodes t)" arbitrary: self t)
  case 0
  then have "t = Lf" by (cases t) auto
  moreover have "hev_socks5_authenticator_clear self = Some self"
    using ends_at(1)[OF auth_invD(1)[OF 0(2)]] \<open>t = Lf\<close> by (subst hev_socks5_authenticator_clear.simps) simp
  ultimately show ?case using 0(2) by (auto simp: fun_eq_iff)
next
  case (Suc k)
  then obtain p ps where t: "nodes t = p # ps" by (cases "nodes t") auto
  have p: "p \<in> set (nodes t)" "p \<noteq> 0" "hev_rbtree_first (au_tree self) = Some p"
    using ends_at(1)[OF auth_invD(1)[OF Suc(3)]] auth_invD(1)[OF Suc(3)] tree_at_nodes[of _ 0 t p] t
    by (auto simp: represents_def at_def)
  from remove_user[OF Suc(3) p(1)] obtain s1 t1 where
    r: "Option.bind (hev_rbtree_erase p (au_tree self)) (\<lambda>tree. user_unref p (self\<lparr>au_tree := tree\<rparr>)) = Some s1"
    and i1: "auth_inv s1 t1" and n1: "nodes t1 = ps" and u1: "au_users s1 = (au_users self)(p := dropped (au_users self p))"
    by (auto simp: t)
  have "k = length (nodes t1)" using Suc(2) n1 t by simp
  from Suc(1)[OF this i1] obtain s2 where s2: "hev_socks5_authenticator_clear s1 = Some s2" "auth_inv s2 Lf"
    "au_users s2 = (\<lambda>q. if q \<in> set ps then dropped (au_users s1 q) else au_users s1 q)" by (auto simp: n1)
  have "p \<notin> set ps" using auth_invD(4)[OF Suc(3)] t by simp
  then have "au_users s2 = (\<lambda>q. if q \<in> set (nodes t) then dropped (au_users self q) else au_users self q)"
    by (auto simp: s2(3) u1 t)
  moreover have "hev_socks5_authenticator_clear self = Some s2"
    using r s2(1) p by (subst hev_socks5_authenticator_clear.simps) (auto simp: bind_eq_Some_conv)
  ultimately show ?case using s2(2) by blast
qed

lemma checker_iff: "hev_socks5_user_checker u pass = 0 \<longleftrightarrow> us_pass u = pass" "hev_socks5_user_checker u pass < 0 \<longleftrightarrow> us_pass u \<noteq> pass"
  using memcmp_eq[of "us_pass u" pass] by (auto simp: hev_socks5_user_checker_def)

section \<open>Properties\<close>

text \<open>
  C27: The authenticator is a finite map from names to users.  On a state whose tree is a red-black tree
  sorted by name with live users: \<open>get\<close> is lookup; \<open>add\<close> of a new user extends the map, and returns -1
  and changes nothing when the name is taken; \<open>del\<close> removes exactly one name and gives up one reference
  to its user, and returns -1 for a name that is not there; \<open>clear\<close> ends, empties the map and gives up
  one reference to every user.  All operations keep the state well formed.
\<close>

theorem authenticator_is_map:
  assumes "auth_inv self t"
  shows "hev_socks5_authenticator_get name self = Some (case users_of self t name of None \<Rightarrow> 0 | Some q \<Rightarrow> q) \<and>
    (\<forall>u x. au_users self p = Some u \<and> 0 < us_ref u \<and> ptr_ok p \<and> p \<notin> set (nodes t) \<and> rt_mem (au_tree self) p = Some x \<longrightarrow>
      (\<exists>self' t'. auth_inv self' t' \<and>
        (if users_of self t (us_name u) = None
         then hev_socks5_authenticator_add p self = Some (0, self') \<and> users_of self' t' = (users_of self t)(us_name u \<mapsto> p)
         else hev_socks5_authenticator_add p self = Some (-1, self') \<and> self' = self \<and> t' = t))) \<and>
    (\<exists>self' t'. auth_inv self' t' \<and>
       (case users_of self t name of
          None \<Rightarrow> hev_socks5_authenticator_del name self = Some (-1, self') \<and> self' = self \<and> t' = t
        | Some q \<Rightarrow> hev_socks5_authenticator_del name self = Some (0, self') \<and>
            users_of self' t' = (users_of self t)(name := None) \<and>
            au_users self' = (au_users self)(q := dropped (au_users self q)))) \<and>
    (\<exists>self'. hev_socks5_authenticator_clear self = Some self' \<and> auth_inv self' Lf \<and>
       au_users self' = (\<lambda>q. if q \<in> set (nodes t) then dropped (au_users self q) else au_users self q))"
proof (intro conjI)
  show "hev_socks5_authenticator_get name self = Some (case users_of self t name of None \<Rightarrow> 0 | Some q \<Rightarrow> q)"
    by (rule get_users_of[OF assms])
  show "\<exists>self'. hev_socks5_authenticator_clear self = Some self' \<and> auth_inv self' Lf \<and>
       au_users self' = (\<lambda>q. if q \<in> set (nodes t) then dropped (au_users self q) else au_users self q)"
    by (rule clear_users[OF assms])
  show "\<exists>self' t'. auth_inv self' t' \<and>
       (case users_of self t name of
          None \<Rightarrow> hev_socks5_authenticator_del name self = Some (-1, self') \<and> self' = self \<and> t' = t
        | Some q \<Rightarrow> hev_socks5_authenticator_del name self = Some (0, self') \<and>
            users_of self' t' = (users_of self t)(name := None) \<and>
            au_users self' = (au_users self)(q := dropped (au_users self q)))"
  proof (cases "users_of self t name")
    case None
    then show ?thesis using find_user[OF assms, of name] assms by (auto simp: hev_socks5_authenticator_del_def)
  next
    case (Some q)
    then have q: "q \<in> set (nodes t)" "name_at self q = name" using users_of_Some[OF assms] by auto
    obtain parent link where "q \<noteq> 0" "descend (user_cmp name self) 0 RootLink (rt_root (au_tree self)) (au_tree self) = Some (q, parent, link)"
      using find_user[OF assms, of name] Some by auto
    with remove_user[OF assms q(1)] q(2) Some show ?thesis
      by (auto simp: hev_socks5_authenticator_del_def bind_eq_Some_conv)
  qed
qed (intro allI impI, elim conjE, rule add_user[OF assms])

text \<open>An authenticator with one user, and a second user that is not linked yet.\<close>

definition sample_auth :: HevSocks5Authenticator where
  "sample_auth = \<lparr>au_tree = \<lparr>rt_root = 8, rt_mem = [8 \<mapsto> \<lparr>rn_pc = 1, rn_right = 0, rn_left = 0\<rparr>,
       16 \<mapsto> \<lparr>rn_pc = 0, rn_right = 0, rn_left = 0\<rparr>]\<rparr>,
     au_users = [8 \<mapsto> \<lparr>us_name = [97], us_pass = [49], us_ref = 1\<rparr>, 16 \<mapsto> \<lparr>us_name = [98], us_pass = [50], us_ref = 1\<rparr>],
     au_ref = 1\<rparr>"

lemma sample_auth_inv: "auth_inv sample_auth (Nd Black Lf 8 Lf)"
proof -
  have "mk SLeft (col Black) 0 0 = \<lparr>rn_pc = 1, rn_right = 0, rn_left = 0\<rparr>"
    unfolding mk_def col.simps HEV_RBTREE_BLACK_def by simp
  then show ?thesis
    using sample_ptrs by (simp add: auth_inv_def represents_def at_def rb_def sample_auth_def)
qed

theorem authenticator_is_map_witness:
  "hev_socks5_authenticator_get [97] sample_auth = Some 8 \<and>
   (\<exists>self'. hev_socks5_authenticator_add 16 sample_auth = Some (0, self')) \<and>
   (\<exists>self'. hev_socks5_authenticator_del [97] sample_auth = Some (0, self') \<and> au_users self' 8 = None) \<and>
   (\<exists>self'. hev_socks5_authenticator_clear sample_auth = Some self' \<and> au_users self' 8 = None)"
proof -
  have u: "users_of sample_auth (Nd Black Lf 8 Lf) = [[97] \<mapsto> 8]"
    by (simp add: users_of_def name_at_def sample_auth_def)
  have d: "dropped (au_users sample_auth 8) = None" by (simp add: dropped_def sample_auth_def)
  have f: "au_users sample_auth 16 = Some \<lparr>us_name = [98], us_pass = [50], us_ref = 1\<rparr>"
    "rt_mem (au_tree sample_auth) 16 = Some \<lparr>rn_pc = 0, rn_right = 0, rn_left = 0\<rparr>"
    by (simp_all add: sample_auth_def)
  note a = authenticator_is_map[OF sample_auth_inv, of "[97]" 16, unfolded u]
  note add = a[THEN conjunct2, THEN conjunct1, rule_format, OF conjI, OF f(1)] and del = a[THEN conjunct2, THEN conjunct2, THEN conjunct1]
    and clear = a[THEN conjunct2, THEN conjunct2, THEN conjunct2]
  have "\<exists>self'. hev_socks5_authenticator_add 16 sample_auth = Some (0, self')"
    using add f(2) sample_ptrs by auto
  moreover have "hev_socks5_authenticator_get [97] sample_auth = Some 8" using a[THEN conjunct1] by simp
  moreover have "\<exists>self'. hev_socks5_authenticator_del [97] sample_auth = Some (0, self') \<and> au_users self' 8 = None"
    using del d by auto
  moreover have "\<exists>self'. hev_socks5_authenticator_clear sample_auth = Some self' \<and> au_users self' 8 = None"
    using clear d by auto
  ultimately show ?thesis by blast
qed

end
