(* ===== verification/Socks5_Server.thy ===== *)
theory Socks5_Server
  imports Socks5_Handshake Splice Authenticator
begin

text \<open>
  The SOCKS5 server (\<open>core/src/hev-socks5-server.c\<close>) and the TCP relay of \<open>core/src/hev-socks5-tcp.c\<close>:
  choice of the authentication method, check of the credentials against the authenticator, reading of
  the request, connecting or binding, the response, and the service that follows.
\<close>

section \<open>State\<close>

text \<open>
  The union \<open>obj\<close>/\<open>auth\<close>/\<open>user\<close> of the source: nothing, an authenticator, or a user of an authenticator.
  \<open>sv_heap\<close> holds the authenticator objects with their users by address; one whose reference count is
  0 has been freed.  The last two fields are environment: the results of \<open>getsockname\<close> and the socket
  connected to the destination.
\<close>

datatype server_obj = NoObj | AuthObj u64 | UserObj u64 u64

record HevSocks5Server = HevSocks5 +
  sv_fds0 :: int
  sv_fds1 :: int
  sv_timeout :: int
  sv_obj :: server_obj
  sv_heap :: "u64 \<Rightarrow> HevSocks5Authenticator option"
  sv_names :: "(int \<times> sockaddr_in6) list"
  sv_remote :: net

record 'o ServerClass =
  sc_base_binder :: "int \<Rightarrow> sockaddr_in6 \<Rightarrow> 'o \<Rightarrow> (int \<times> 'o) option"
  sc_binder :: "int \<Rightarrow> sockaddr_in6 \<Rightarrow> 'o \<Rightarrow> (int \<times> 'o) option"
  sc_tcp_splicer :: "int \<Rightarrow> 'o \<Rightarrow> (int \<times> 'o) option"
  sc_udp_splicer :: "int \<Rightarrow> 'o \<Rightarrow> (int \<times> 'o) option"

definition sys_getsockname ::
  "'a HevSocks5Server_scheme \<Rightarrow> (int \<times> sockaddr_in6 \<times> 'a HevSocks5Server_scheme) option" where
  "sys_getsockname self =
     (case sv_names self of [] \<Rightarrow> None | (r, a) # xs \<Rightarrow> Some (r, a, self\<lparr>sv_names := xs\<rparr>))"

text \<open>Access to an authenticator: using one that has been freed is an error.\<close>

definition auth_live :: "u64 \<Rightarrow> 'a HevSocks5Server_scheme \<Rightarrow> HevSocks5Authenticator option" where
  "auth_live p self = do {
     A \<leftarrow> sv_heap self p;
     if 0 < au_ref A then Some A else None }"

definition auth_put ::
  "u64 \<Rightarrow> HevSocks5Authenticator \<Rightarrow> 'a HevSocks5Server_scheme \<Rightarrow> 'a HevSocks5Server_scheme" where
  "auth_put p A self = self\<lparr>sv_heap := (sv_heap self)(p \<mapsto> A)\<rparr>"

text \<open>\<open>hev_object_unref\<close> on the object of the union.\<close>

definition obj_unref :: "'a HevSocks5Server_scheme \<Rightarrow> 'a HevSocks5Server_scheme option" where
  "obj_unref self =
     (case sv_obj self of
        NoObj \<Rightarrow> None
      | AuthObj p \<Rightarrow> do {
          A \<leftarrow> auth_live p self;
          A \<leftarrow> authenticator_unref A;
          Some (auth_put p A self) }
      | UserObj p u \<Rightarrow> do {
          A \<leftarrow> sv_heap self p;
          A \<leftarrow> user_unref u A;
          Some (auth_put p A self) })"

section \<open>hev-socks5-server.c\<close>

definition hev_socks5_server_set_auth ::
  "u64 \<Rightarrow> 'a HevSocks5Server_scheme \<Rightarrow> 'a HevSocks5Server_scheme option" where
  "hev_socks5_server_set_auth auth self = do {
     self \<leftarrow> (if sv_obj self \<noteq> NoObj then obj_unref self else Some self);
     A \<leftarrow> auth_live auth self;
     Some ((auth_put auth (A\<lparr>au_ref := au_ref A + 1\<rparr>) self)\<lparr>sv_obj := AuthObj auth\<rparr>) }"

definition hev_socks5_server_set_connect_timeout ::
  "int \<Rightarrow> 'a HevSocks5Server_scheme \<Rightarrow> 'a HevSocks5Server_scheme" where
  "hev_socks5_server_set_connect_timeout timeout self = self\<lparr>sv_timeout := timeout\<rparr>"

definition hev_socks5_server_read_auth_method ::
  "'a HevSocks5Server_scheme \<Rightarrow> (int \<times> 'a HevSocks5Server_scheme) option" where
  "hev_socks5_server_read_auth_method self = do {
     (res, auth, self) \<leftarrow> recv_stack 2 self;
     if res \<le> 0 then Some (-1, self)
     else if auth ! 0 \<noteq> HEV_SOCKS5_VERSION_5 then Some (-1, self)
     else do {
       (res, methods, self) \<leftarrow> recv_stack (unat (auth ! 1)) self;
       if res \<le> 0 then Some (-1, self)
       else
         let method = (if sv_obj self \<noteq> NoObj then HEV_SOCKS5_AUTH_METHOD_USER else HEV_SOCKS5_AUTH_METHOD_NONE)
         in Some (if method \<in> set methods then uint method else -1, self) } }"

definition hev_socks5_server_write_auth_method ::
  "int \<Rightarrow> 'a HevSocks5Server_scheme \<Rightarrow> (int \<times> 'a HevSocks5Server_scheme) option" where
  "hev_socks5_server_write_auth_method auth_method self = do {
     (res, self) \<leftarrow> hev_task_io_socket_send hev_socks5_task_io_yielder True
       [HEV_SOCKS5_VERSION_5, of_int auth_method] 0 self;
     Some (if res \<le> 0 then -1 else 0, self) }"

text \<open>The decision on a name and a password, once they are read.\<close>

definition check_user ::
  "byte list \<Rightarrow> byte list \<Rightarrow> 'a HevSocks5Server_scheme \<Rightarrow> (int \<times> 'a HevSocks5Server_scheme) option" where
  "check_user name pass self =
     (case sv_obj self of
        AuthObj p \<Rightarrow> do {
          A \<leftarrow> auth_live p self;
          user \<leftarrow> hev_socks5_authenticator_get name A;
          if user = 0 then Some (-1, self)
          else do {
            u \<leftarrow> au_users A user;
            if hev_socks5_user_checker u pass < 0 then Some (-1, self)
            else do {
              A \<leftarrow> user_ref user A;
              A \<leftarrow> authenticator_unref A;
              Some (0, (auth_put p A self)\<lparr>sv_obj := UserObj p user\<rparr>) } } }
      | _ \<Rightarrow> None)"

definition hev_socks5_server_read_auth_user ::
  "'a HevSocks5Server_scheme \<Rightarrow> (int \<times> 'a HevSocks5Server_scheme) option" where
  "hev_socks5_server_read_auth_user self = do {
     (res, head, self) \<leftarrow> recv_stack 2 self;
     if res \<le> 0 then Some (-1, self)
     else if head ! 0 \<noteq> 1 then Some (-1, self)
     else do {
       let nlen = head ! 1;
       if nlen = 0 then Some (-1, self)
       else do {
         (res, name, self) \<leftarrow> recv_stack (unat nlen + 1) self;
         if res \<le> 0 then Some (-1, self)
         else do {
           let plen = name ! unat nlen;
           if plen = 0 then Some (-1, self)
           else do {
             (res, pass, self) \<leftarrow> recv_stack (unat plen) self;
             if res \<le> 0 then Some (-1, self)
             else check_user (take (unat nlen) name) pass self } } } } }"

definition hev_socks5_server_write_auth_user ::
  "int \<Rightarrow> 'a HevSocks5Server_scheme \<Rightarrow> (int \<times> 'a HevSocks5Server_scheme) option" where
  "hev_socks5_server_write_auth_user auth_res self = do {
     (res, self) \<leftarrow> hev_task_io_socket_send hev_socks5_task_io_yielder True [1, of_int auth_res] 0 self;
     Some (if res \<le> 0 then -1 else 0, self) }"

definition hev_socks5_server_auth ::
  "'a HevSocks5Server_scheme \<Rightarrow> (int \<times> 'a HevSocks5Server_scheme) option" where
  "hev_socks5_server_auth self = do {
     (method, self) \<leftarrow> hev_socks5_server_read_auth_method self;
     (res, self) \<leftarrow> hev_socks5_server_write_auth_method method self;
     if res < 0 then Some (-1, self)
     else if method = uint HEV_SOCKS5_AUTH_METHOD_NONE then Some (0, self)
     else if method = uint HEV_SOCKS5_AUTH_METHOD_USER then do {
       (res, self) \<leftarrow> hev_socks5_server_read_auth_user self;
       (res', self) \<leftarrow> hev_socks5_server_write_auth_user res self;
       if res OR res' < 0 then Some (-1, self) else Some (0, self) }
     else Some (-1, self) }"

text \<open>
  The out parameters \<open>cmd\<close>, \<open>rep\<close> and \<open>addr\<close> are passed in with what they hold before the call.  The
  memory of the address in the request is its first two bytes, which come with the fixed part, and
  the bytes read after them.
\<close>

definition hev_socks5_server_read_request ::
  "resolver \<Rightarrow> byte \<Rightarrow> byte \<Rightarrow> sockaddr_in6 \<Rightarrow> 'a HevSocks5Server_scheme \<Rightarrow>
   (int \<times> byte \<times> byte \<times> sockaddr_in6 \<times> 'a HevSocks5Server_scheme) option" where
  "hev_socks5_server_read_request R cmd rep addr self = do {
     (res, req, self) \<leftarrow> recv_stack 5 self;
     if res \<le> 0 then Some (-1, cmd, rep, addr, self)
     else if req ! 0 \<noteq> HEV_SOCKS5_VERSION_5 then Some (0, cmd, HEV_SOCKS5_RES_REP_FAIL, addr, self)
     else if req ! 3 \<noteq> HEV_SOCKS5_ADDR_TYPE_IPV4 \<and> req ! 3 \<noteq> HEV_SOCKS5_ADDR_TYPE_IPV6 \<and>
       req ! 3 \<noteq> HEV_SOCKS5_ADDR_TYPE_NAME then Some (0, cmd, HEV_SOCKS5_RES_REP_ADDR, addr, self)
     else do {
       let addrlen = (if req ! 3 = HEV_SOCKS5_ADDR_TYPE_IPV4 then 5
                      else if req ! 3 = HEV_SOCKS5_ADDR_TYPE_IPV6 then 17
                      else 2 + unat (req ! 4));
       (res, rest, self) \<leftarrow> recv_stack addrlen self;
       if res \<le> 0 then Some (0, cmd, HEV_SOCKS5_RES_REP_ADDR, addr, self)
       else (case hev_socks5_addr_into_sockaddr6 R (req ! 3 # req ! 4 # rest) addr (hev_socks5_get_addr_family self) of
         (res, addr, addr_family) \<Rightarrow>
           if res < 0 then Some (0, cmd, HEV_SOCKS5_RES_REP_ADDR, addr, self)
           else Some (0, req ! 1, rep, addr, hev_socks5_set_addr_family addr_family self)) } }"

definition hev_socks5_server_write_response ::
  "byte \<Rightarrow> sockaddr_in6 \<Rightarrow> 'a HevSocks5Server_scheme \<Rightarrow> (int \<times> 'a HevSocks5Server_scheme) option" where
  "hev_socks5_server_write_response rep addr self =
     (case hev_socks5_addr_from_sockaddr6 (stack_mem 260 self) addr of (ret, res_addr) \<Rightarrow> do {
        (ret, self) \<leftarrow> hev_task_io_socket_send hev_socks5_task_io_yielder True
          ([HEV_SOCKS5_VERSION_5, rep, 0] @ take (nat ret) res_addr) 0 self;
        Some (if ret \<le> 0 then -1 else 0, self) })"

definition hev_socks5_server_connect ::
  "'a HevSocks5Server_scheme ServerClass \<Rightarrow> sockaddr_in6 \<Rightarrow> 'a HevSocks5Server_scheme \<Rightarrow>
   (int \<times> 'a HevSocks5Server_scheme) option" where
  "hev_socks5_server_connect klass addr self = do {
     (fd, self) \<leftarrow> hev_socks5_socket self;
     if fd < 0 then Some (-1, self)
     else do {
       (res, self) \<leftarrow> sc_base_binder klass fd addr self;
       if res < 0 then Some (-1, sys_close fd self)
       else do {
         let timeout = hev_socks5_get_timeout self;
         let self = hev_socks5_set_timeout (sv_timeout self) self;
         (res, self) \<leftarrow> hev_task_io_socket_connect hev_socks5_task_io_yielder self;
         let self = hev_socks5_set_timeout timeout self;
         if res < 0 then Some (-1, sys_close fd self)
         else Some (0, self\<lparr>sv_fds0 := fd\<rparr>) } } }"

text \<open>The address is optional as in the source, where the null pointer asks for one socket only.\<close>

definition hev_socks5_server_bind ::
  "'a HevSocks5Server_scheme ServerClass \<Rightarrow> sockaddr_in6 option \<Rightarrow> 'a HevSocks5Server_scheme \<Rightarrow>
   (int \<times> sockaddr_in6 option \<times> 'a HevSocks5Server_scheme) option" where
  "hev_socks5_server_bind klass addr self = do {
     (fd, self) \<leftarrow> hev_socks5_socket self;
     if fd < 0 then Some (-1, addr, self)
     else do {
       let self = self\<lparr>sv_fds0 := fd\<rparr>;
       (case addr of
          None \<Rightarrow> Some (0, addr, self)
        | Some a \<Rightarrow> do {
            (fd, self) \<leftarrow> hev_socks5_socket self;
            if fd < 0 then Some (-1, addr, self)
            else do {
              (res, self) \<leftarrow> sys_result self;
              if res < 0 then Some (-1, addr, sys_close fd self)
              else do {
                (res, self) \<leftarrow> sc_binder klass fd a self;
                if res < 0 then Some (-1, addr, sys_close fd self)
                else do {
                  (res, name, self) \<leftarrow> sys_getsockname self;
                  if res < 0 then Some (-1, addr, sys_close fd self)
                  else Some (0, Some name, self\<lparr>sv_fds1 := fd\<rparr>) } } } }) } }"

definition hev_socks5_server_udp_bind ::
  "int \<Rightarrow> sockaddr_in6 \<Rightarrow> 'a HevSocks5Server_scheme \<Rightarrow> (int \<times> 'a HevSocks5Server_scheme) option" where
  "hev_socks5_server_udp_bind sock src self = do {
     (res, addr, self) \<leftarrow> sys_getsockname self;
     if res < 0 then Some (-1, self)
     else do {
       (res, self) \<leftarrow> sys_result self;
       Some (if res < 0 then -1 else 0, self) } }"

text \<open>The branches on the command: the reply code, the address to report and the type of the session.\<close>

definition server_command ::
  "'a HevSocks5Server_scheme ServerClass \<Rightarrow> byte \<Rightarrow> sockaddr_in6 \<Rightarrow> 'a HevSocks5Server_scheme \<Rightarrow>
   (byte \<times> sockaddr_in6 \<times> 'a HevSocks5Server_scheme) option" where
  "server_command klass cmd addr self =
     (if cmd = HEV_SOCKS5_REQ_CMD_CONNECT then do {
        (res, self) \<leftarrow> hev_socks5_server_connect klass addr self;
        Some (if res < 0 then HEV_SOCKS5_RES_REP_HOST else HEV_SOCKS5_RES_REP_SUCC, addr,
              self\<lparr>s5_type := HEV_SOCKS5_TYPE_TCP\<rparr>) }
      else if cmd = HEV_SOCKS5_REQ_CMD_UDP_ASC then do {
        (res, name, self) \<leftarrow> hev_socks5_server_bind klass (Some addr) self;
        Some (if res < 0 then HEV_SOCKS5_RES_REP_FAIL else HEV_SOCKS5_RES_REP_SUCC,
              case name of None \<Rightarrow> addr | Some a \<Rightarrow> a,
              self\<lparr>s5_type := HEV_SOCKS5_TYPE_UDP_IN_UDP\<rparr>) }
      else if cmd = HEV_SOCKS5_REQ_CMD_FWD_UDP then do {
        (res, _, self) \<leftarrow> hev_socks5_server_bind klass None self;
        Some (if res < 0 then HEV_SOCKS5_RES_REP_FAIL else HEV_SOCKS5_RES_REP_SUCC, addr,
              self\<lparr>s5_type := HEV_SOCKS5_TYPE_UDP_IN_TCP\<rparr>) }
      else Some (HEV_SOCKS5_RES_REP_IMPL, addr, self))"

definition hev_socks5_server_handshake ::
  "resolver \<Rightarrow> 'a HevSocks5Server_scheme ServerClass \<Rightarrow> 'a HevSocks5Server_scheme \<Rightarrow>
   (int \<times> 'a HevSocks5Server_scheme) option" where
  "hev_socks5_server_handshake R klass self = do {
     (res, self) \<leftarrow> hev_socks5_server_auth self;
     if res < 0 then Some (-1, self)
     else do {
       (res, cmd, rep, addr, self) \<leftarrow> hev_socks5_server_read_request R (net_junk self 0) HEV_SOCKS5_RES_REP_SUCC
         (stack_sockaddr self) self;
       if res < 0 then Some (-1, self)
       else do {
         (rep, addr, self) \<leftarrow> (if rep = HEV_SOCKS5_RES_REP_SUCC then server_command klass cmd addr self
                                else Some (rep, addr, self));
         (res, self) \<leftarrow> hev_socks5_server_write_response rep addr self;
         if res < 0 \<or> rep \<noteq> HEV_SOCKS5_RES_REP_SUCC then Some (-1, self) else Some (0, self) } } }"

definition hev_socks5_server_service ::
  "'a HevSocks5Server_scheme ServerClass \<Rightarrow> 'a HevSocks5Server_scheme \<Rightarrow>
   (int \<times> 'a HevSocks5Server_scheme) option" where
  "hev_socks5_server_service klass self =
     (case s5_type self of
        HEV_SOCKS5_TYPE_TCP \<Rightarrow> do { (_, self) \<leftarrow> sc_tcp_splicer klass (sv_fds0 self) self; Some (0, self) }
      | HEV_SOCKS5_TYPE_UDP_IN_UDP \<Rightarrow> do { (_, self) \<leftarrow> sc_udp_splicer klass (sv_fds0 self) self; Some (0, self) }
      | HEV_SOCKS5_TYPE_UDP_IN_TCP \<Rightarrow> do { (_, self) \<leftarrow> sc_udp_splicer klass (sv_fds0 self) self; Some (0, self) }
      | HEV_SOCKS5_TYPE_NONE \<Rightarrow> Some (-1, self))"

definition hev_socks5_server_run ::
  "resolver \<Rightarrow> 'a HevSocks5Server_scheme ServerClass \<Rightarrow> 'a HevSocks5Server_scheme \<Rightarrow>
   (int \<times> 'a HevSocks5Server_scheme) option" where
  "hev_socks5_server_run R klass self = do {
     (res, self) \<leftarrow> hev_socks5_server_handshake R klass self;
     if res < 0 then Some (-1, self)
     else do {
       (res, self) \<leftarrow> hev_socks5_server_service klass self;
       Some (if res < 0 then -1 else 0, self) } }"

definition hev_socks5_server_get_fd :: "'a HevSocks5Server_scheme \<Rightarrow> int" where
  "hev_socks5_server_get_fd self =
     (case s5_type self of
        HEV_SOCKS5_TYPE_UDP_IN_TCP \<Rightarrow> s5_fd self
      | HEV_SOCKS5_TYPE_UDP_IN_UDP \<Rightarrow> sv_fds1 self
      | _ \<Rightarrow> -1)"

definition hev_socks5_server_construct ::
  "int \<Rightarrow> 'a HevSocks5Server_scheme \<Rightarrow> int \<times> 'a HevSocks5Server_scheme" where
  "hev_socks5_server_construct fd self =
     (case hev_socks5_construct HEV_SOCKS5_TYPE_NONE self of (res, self) \<Rightarrow>
        if res < 0 then (res, self)
        else (0, self\<lparr>s5_fd := fd, sv_fds0 := -1, sv_fds1 := -1, sv_timeout := -1\<rparr>))"

text \<open>Memory from \<open>hev_malloc0\<close> is zero: the union holds no object and no association is pending.\<close>

definition hev_socks5_server_new ::
  "bool \<Rightarrow> int \<Rightarrow> 'a HevSocks5Server_scheme \<Rightarrow> 'a HevSocks5Server_scheme option" where
  "hev_socks5_server_new alloc fd self =
     (if \<not> alloc then None
      else case hev_socks5_server_construct fd (self\<lparr>sv_obj := NoObj, s5_udp_associated := 0\<rparr>) of (res, self) \<Rightarrow>
        if res < 0 then None else Some self)"

definition hev_socks5_server_destruct :: "'a HevSocks5Server_scheme \<Rightarrow> 'a HevSocks5Server_scheme option" where
  "hev_socks5_server_destruct self = do {
     let self = (if 0 \<le> sv_fds0 self then sys_close (sv_fds0 self) self else self);
     let self = (if 0 \<le> sv_fds1 self then sys_close (sv_fds1 self) self else self);
     self \<leftarrow> (if sv_obj self \<noteq> NoObj then obj_unref self else Some self);
     Some (hev_socks5_destruct self) }"

section \<open>hev-socks5-tcp.c\<close>

text \<open>\<open>alloc_f\<close> and \<open>alloc_b\<close> are the memory the allocator returns for the two buffers.\<close>

definition hev_socks5_tcp_splicer ::
  "byte list option \<Rightarrow> byte list option \<Rightarrow> int \<Rightarrow> 'a HevSocks5Server_scheme \<Rightarrow>
   (int \<times> 'a HevSocks5Server_scheme) option" where
  "hev_socks5_tcp_splicer alloc_f alloc_b fd self =
     (if s5_fd self < 0 then Some (-1, self)
      else do {
        (_, self, remote) \<leftarrow> hev_task_io_splice hev_socks5_task_io_yielder alloc_f alloc_b 8192 self (sv_remote self);
        Some (0, self\<lparr>sv_remote := remote\<rparr>) })"

definition hev_socks5_server_class ::
  "byte list option \<Rightarrow> byte list option \<Rightarrow> (int \<Rightarrow> 'a HevSocks5Server_scheme \<Rightarrow> (int \<times> 'a HevSocks5Server_scheme) option) \<Rightarrow>
   'a HevSocks5Server_scheme ServerClass" where
  "hev_socks5_server_class alloc_f alloc_b udp_splicer =
     \<lparr>sc_base_binder = hev_socks5_bind, sc_binder = hev_socks5_server_udp_bind,
      sc_tcp_splicer = hev_socks5_tcp_splicer alloc_f alloc_b, sc_udp_splicer = udp_splicer\<rparr>"


section \<open>Reading from a client that may close\<close>

text \<open>The client has closed its side: every further \<open>recv\<close> returns 0.\<close>

definition at_end :: "'a net_scheme \<Rightarrow> bool" where
  "at_end w \<longleftrightarrow> (\<exists>es. net_rx w = RxEof # es)"

lemma recv_at_end: "at_end w \<Longrightarrow> hev_task_io_socket_recv yl True len [] w = Some (0, [], w)"
  by (subst hev_task_io_socket_recv.simps) (auto simp: at_end_def sys_recv_def)

lemma recv_nothing:
  assumes "hev_task_io_socket_recv yl wa len got w = Some (res, buf, w')" and "len = 0" and "got = []" and "wa"
  shows "res \<le> 0"
  using assms
proof (induction "(res, buf, w')" rule: recv_induct)
  case (step f yl wa len got w)
  then obtain r1 bs w1 where "sys_recv 0 w = Some (r1, bs, w1)" by (auto split: bind_splits)
  moreover from this have "r1 = Eagain \<or> r1 = Ret 0 \<or> r1 = Ret (-1)"
    by (auto simp: sys_recv_def Let_def split: list.splits rx_ev.splits)
  ultimately show ?case using step by (auto split: bind_splits if_splits)
qed

lemma recv_orderly_from:
  assumes "hev_task_io_socket_recv yl wa len got w = Some (res, buf, w')"
    and "yl = hev_socks5_task_io_yielder" and "wa" and "length got < len" and "rx_orderly (net_rx w)"
  shows "rx_orderly (net_rx w') \<and> (0 < res \<longrightarrow> length buf = len \<or> at_end w')"
  using assms
proof (induction "(res, buf, w')" rule: recv_induct)
  case (step f yl wa len got w)
  then obtain r1 bs w1 where sys: "sys_recv (len - length got) w = Some (r1, bs, w1)"
    by (auto split: bind_splits)
  have ord: "rx_orderly (net_rx w1)" using sys_recv_orderly(1)[OF sys step.prems(4)] step.prems(3) by simp
  note IH = step(1)[of hev_socks5_task_io_yielder True len, OF _ refl TrueI]
  have len: "length bs \<le> len - length got" using sys_recv_Some(7)[OF sys] .
  from sys show ?case
  proof (cases rule: sys_recv_cases)
    case again
    with step(2-) sys obtain y w2 where y: "hev_socks5_task_io_yielder HEV_TASK_WAITIO w1 = Some (y, w2)"
      by (auto split: bind_splits)
    then have "rx_orderly (net_rx w2)" using ord s5y.yielder_keeps by (force simp: same_net_def)
    with IH[of got w2] step(2-) again sys y show ?thesis by (cases "y = 0") auto
  next
    case (stop s)
    then have "at_end w1" using sys step.prems(3,4)
      by (auto simp: sys_recv_def at_end_def Let_def min_def split: list.splits rx_ev.splits if_splits)
    with stop step(2-) sys ord show ?thesis by (auto split: if_splits)
  next
    case data
    with IH[of "got @ bs" w1] step(2-) sys ord len show ?thesis
      by (cases "length (got @ bs) < len") auto
  qed
qed

text \<open>
  A read that reports success has not started at the end of the stream; it has delivered what was
  asked for, unless the client closed on the way.
\<close>

lemma recv_stack_orderly:
  assumes "recv_stack len w = Some (res, buf, w')" and "0 < res" and "rx_orderly (net_rx w)"
  shows "s5_frame w' = s5_frame w" and "\<not> at_end w" and "rx_orderly (net_rx w')" and "length buf = len"
    and "at_end w' \<or> rx_bytes (net_rx w) = buf @ rx_bytes (net_rx w')"
proof -
  obtain b where r: "hev_task_io_socket_recv hev_socks5_task_io_yielder True len [] w = Some (res, b, w')"
    and buf: "buf = fill (net_junk w') len b"
    using assms(1) by (auto simp: recv_stack_def split: bind_splits)
  show "s5_frame w' = s5_frame w" using s5f.recv_view[OF r refl] .
  show "\<not> at_end w" using recv_at_end r assms(2) by fastforce
  have len: "0 < len"
    using recv_nothing[OF r] assms(2) by (cases len) auto
  note o = recv_orderly_from[OF r refl TrueI] and p = s5y.recv_prefix[OF r len]
  show "rx_orderly (net_rx w')" using o len assms(3) by simp
  show "length buf = len" using p(2) buf by (simp add: fill_def)
  show "at_end w' \<or> rx_bytes (net_rx w) = buf @ rx_bytes (net_rx w')"
    using o len assms(2,3) p(1) buf by (auto simp: rx_step_def)
qed


section \<open>Authentication\<close>

lemma server_frame:
  assumes "s5_frame w' = s5_frame w"
  shows "sv_obj w' = sv_obj w" "sv_heap w' = sv_heap w" "sv_fds0 w' = sv_fds0 w" "sv_fds1 w' = sv_fds1 w"
    "sv_timeout w' = sv_timeout w" "sv_names w' = sv_names w" "sv_remote w' = sv_remote w"
proof -
  have "HevSocks5.more w' = HevSocks5.more w" using assms by (simp add: s5_frame_def)
  then show "sv_obj w' = sv_obj w" "sv_heap w' = sv_heap w" "sv_fds0 w' = sv_fds0 w" "sv_fds1 w' = sv_fds1 w"
    "sv_timeout w' = sv_timeout w" "sv_names w' = sv_names w" "sv_remote w' = sv_remote w"
    by (cases w; cases w'; simp)+
qed

lemma send_keeps:
  assumes "hev_task_io_socket_send hev_socks5_task_io_yielder True buf 0 w = Some (res, w')" and "buf \<noteq> []"
  shows "s5_frame w' = s5_frame w" and "net_rx w' = net_rx w"
  using s5f.send_view[OF assms(1) refl] s5y.send_prefix[OF assms] by (auto simp: tx_step_def)

lemma writes_keep:
  shows "hev_socks5_server_write_auth_method m w = Some (res, w') \<Longrightarrow> s5_frame w' = s5_frame w \<and> net_rx w' = net_rx w"
    and "hev_socks5_server_write_auth_user r w = Some (res, w') \<Longrightarrow> s5_frame w' = s5_frame w \<and> net_rx w' = net_rx w"
    and "hev_socks5_server_write_response rep addr w = Some (res, w') \<Longrightarrow> s5_frame w' = s5_frame w \<and> net_rx w' = net_rx w"
  by (auto simp: hev_socks5_server_write_auth_method_def hev_socks5_server_write_auth_user_def
      hev_socks5_server_write_response_def dest: send_keeps split: bind_splits prod.splits)

definition server_method :: "'a HevSocks5Server_scheme \<Rightarrow> byte" where
  "server_method w = (if sv_obj w \<noteq> NoObj then HEV_SOCKS5_AUTH_METHOD_USER else HEV_SOCKS5_AUTH_METHOD_NONE)"

definition greeting :: "byte list \<Rightarrow> byte list" where
  "greeting methods = [HEV_SOCKS5_VERSION_5, of_nat (length methods)] @ methods"

definition credentials :: "byte list \<Rightarrow> byte list \<Rightarrow> byte list" where
  "credentials name pass = [1, of_nat (length name)] @ name @ [of_nat (length pass)] @ pass"

lemma read_auth_method_sound:
  assumes "hev_socks5_server_read_auth_method w = Some (m, w')" and "0 \<le> m" and "rx_orderly (net_rx w)"
  shows "s5_frame w' = s5_frame w \<and> rx_orderly (net_rx w') \<and> m = uint (server_method w) \<and>
    (at_end w' \<or> (\<exists>methods. length methods < 256 \<and> server_method w \<in> set methods \<and>
        rx_bytes (net_rx w) = greeting methods @ rx_bytes (net_rx w')))"
proof -
  obtain n1 h w1 where r1: "recv_stack 2 w = Some (n1, h, w1)" "0 < n1" "h ! 0 = HEV_SOCKS5_VERSION_5"
    using assms(1,2) by (auto simp: hev_socks5_server_read_auth_method_def split: bind_splits if_splits)
  note o1 = recv_stack_orderly[OF r1(1,2) assms(3)]
  obtain n2 ms where r2: "recv_stack (unat (h ! 1)) w1 = Some (n2, ms, w')" "0 < n2"
    and m: "server_method w' \<in> set ms" "m = uint (server_method w')"
    using assms(1,2) r1 by (auto simp: hev_socks5_server_read_auth_method_def server_method_def Let_def split: bind_splits if_splits)
  note o2 = recv_stack_orderly[OF r2 o1(3)]
  have f: "s5_frame w' = s5_frame w" using o1(1) o2(1) by simp
  have sm: "server_method w' = server_method w" using server_frame(1)[OF f] by (simp add: server_method_def)
  have h: "h = [HEV_SOCKS5_VERSION_5, of_nat (length ms)]" using length2[OF o1(4)] r1(3) o2(4) by simp
  have "length ms < 256" using o2(4) unsigned_less[of "h ! 1"] by simp
  with f o2(2,3,5) o1(5) h m sm show ?thesis by (auto simp: greeting_def)
qed

lemma user_ref_inv:
  assumes "auth_inv A t" and "user_ref p A = Some A'"
  shows "auth_inv A' t" and "users_of A' t = users_of A t" and "au_ref A' = au_ref A"
    and "\<exists>u. au_users A p = Some u \<and> au_users A' p = Some (u\<lparr>us_ref := us_ref u + 1\<rparr>)"
proof -
  obtain u where u: "au_users A p = Some u" and A': "A' = A\<lparr>au_users := (au_users A)(p \<mapsto> u\<lparr>us_ref := us_ref u + 1\<rparr>)\<rparr>"
    using assms(2) by (auto simp: user_ref_def split: bind_splits)
  have na: "name_at A' = name_at A" using u by (auto simp: A' name_at_def fun_eq_iff)
  show "auth_inv A' t" using assms(1) na u by (auto simp: auth_inv_def A')
  show "users_of A' t = users_of A t" by (simp add: users_of_def na)
  show "au_ref A' = au_ref A" by (simp add: A')
  show "\<exists>u. au_users A p = Some u \<and> au_users A' p = Some (u\<lparr>us_ref := us_ref u + 1\<rparr>)" using u by (simp add: A')
qed

text \<open>A user that is referenced twice survives the authenticator.\<close>

lemma unref_keeps_user:
  assumes "auth_inv A t" and "au_users A p = Some u" and "1 < us_ref u"
  shows "\<exists>A' u'. authenticator_unref A = Some A' \<and> au_users A' p = Some u' \<and> 0 < us_ref u' \<and>
    us_name u' = us_name u \<and> us_pass u' = us_pass u"
proof (cases "1 < au_ref A")
  case True
  with assms show ?thesis by (auto simp: authenticator_unref_def Let_def)
next
  case False
  have inv: "auth_inv (A\<lparr>au_ref := au_ref A - 1\<rparr>) t"
    using assms(1) by (auto simp: auth_inv_def name_at_def[abs_def])
  show ?thesis
    using False clear_users[OF inv] assms(2,3)
    by (auto simp: authenticator_unref_def hev_socks5_authenticator_destruct_def Let_def dropped_def)
qed


text \<open>The server holds the user: the object is live and is the one registered under the name.\<close>

definition holds_user :: "u64 \<Rightarrow> HevSocks5Authenticator \<Rightarrow> rbt \<Rightarrow> byte list \<Rightarrow> byte list \<Rightarrow> 'a HevSocks5Server_scheme \<Rightarrow> bool" where
  "holds_user p A t name pass w \<longleftrightarrow> (\<exists>user u A' u'. users_of A t name = Some user \<and> au_users A user = Some u \<and>
     us_pass u = pass \<and> sv_obj w = UserObj p user \<and> sv_heap w p = Some A' \<and> au_users A' user = Some u' \<and>
     0 < us_ref u' \<and> us_name u' = us_name u)"

lemma holds_user_frame:
  "sv_obj w' = sv_obj w \<Longrightarrow> sv_heap w' = sv_heap w \<Longrightarrow> holds_user p A t name pass w' = holds_user p A t name pass w"
  by (simp add: holds_user_def)

lemma check_user_cases:
  assumes "sv_obj w = AuthObj p" and "sv_heap w p = Some A" and "auth_inv A t" and "0 < au_ref A"
  shows "if (\<exists>user u. users_of A t name = Some user \<and> au_users A user = Some u \<and> us_pass u = pass)
    then \<exists>w'. check_user name pass w = Some (0, w') \<and> holds_user p A t name pass w' \<and>
       w' = w\<lparr>sv_obj := sv_obj w', sv_heap := sv_heap w'\<rparr>
    else check_user name pass w = Some (-1, w)"
proof (cases "users_of A t name")
  case None
  with assms show ?thesis by (simp add: check_user_def auth_live_def get_users_of[OF assms(3)])
next
  case (Some user)
  then have n: "user \<in> set (nodes t)" "name_at A user = name" using users_of_Some[OF assms(3)] by auto
  have u0: "user \<noteq> 0" using find_user[OF assms(3), of name] Some by simp
  obtain u where u: "au_users A user = Some u" "0 < us_ref u" using assms(3) n(1) by (auto simp: auth_inv_def)
  show ?thesis
  proof (cases "us_pass u = pass")
    case False
    then have "check_user name pass w = Some (-1, w)"
      using assms Some u u0 by (simp add: check_user_def auth_live_def get_users_of[OF assms(3)] checker_iff)
    with False Some u show ?thesis by simp
  next
    case True
    define A1 where "A1 = A\<lparr>au_users := (au_users A)(user \<mapsto> u\<lparr>us_ref := us_ref u + 1\<rparr>)\<rparr>"
    have A1: "user_ref user A = Some A1" using u by (simp add: user_ref_def A1_def)
    have "au_users A1 user = Some (u\<lparr>us_ref := us_ref u + 1\<rparr>)" by (simp add: A1_def)
    from unref_keeps_user[OF user_ref_inv(1)[OF assms(3) A1] this] u(2) obtain A' u' where
      A': "authenticator_unref A1 = Some A'" "au_users A' user = Some u'" "0 < us_ref u'" "us_name u' = us_name u" by auto
    let ?w = "(auth_put p A' w)\<lparr>sv_obj := UserObj p user\<rparr>"
    have "check_user name pass w = Some (0, ?w)"
      using assms Some u u0 True A1 A' by (simp add: check_user_def auth_live_def get_users_of[OF assms(3)] checker_iff)
    moreover have "holds_user p A t name pass ?w"
      using Some u True A' by (simp add: holds_user_def auth_put_def)
    ultimately show ?thesis using Some u True by (auto simp: auth_put_def)
  qed
qed

lemma read_auth_user_sound:
  assumes "hev_socks5_server_read_auth_user w = Some (res, w')" and "0 \<le> res" and "rx_orderly (net_rx w)"
    and "sv_obj w = AuthObj p" and "sv_heap w p = Some A" and "auth_inv A t" and "0 < au_ref A"
  shows "\<not> at_end w \<and> rx_orderly (net_rx w') \<and> (\<exists>name pass. holds_user p A t name pass w' \<and>
    (at_end w' \<or> length name < 256 \<and> length pass < 256 \<and>
      rx_bytes (net_rx w) = credentials name pass @ rx_bytes (net_rx w')))"
proof -
  obtain n1 h w1 where r1: "recv_stack 2 w = Some (n1, h, w1)" "0 < n1" and h0: "h ! 0 = 1" "h ! 1 \<noteq> 0"
    using assms(1,2) by (auto simp: hev_socks5_server_read_auth_user_def Let_def split: bind_splits if_splits)
  note o1 = recv_stack_orderly[OF r1 assms(3)]
  obtain n2 nm w2 where r2: "recv_stack (unat (h ! 1) + 1) w1 = Some (n2, nm, w2)" "0 < n2" and pl: "nm ! unat (h ! 1) \<noteq> 0"
    using assms(1,2) r1 h0 by (auto simp: hev_socks5_server_read_auth_user_def Let_def split: bind_splits if_splits)
  note o2 = recv_stack_orderly[OF r2 o1(3)]
  define name where "name = take (unat (h ! 1)) nm"
  obtain n3 pass w3 where r3: "recv_stack (unat (nm ! unat (h ! 1))) w2 = Some (n3, pass, w3)" "0 < n3"
    and c: "check_user name pass w3 = Some (res, w')"
    using assms(1,2) r1 h0 r2 pl unfolding name_def
    by (auto simp: hev_socks5_server_read_auth_user_def Let_def split: bind_splits if_splits)
  note o3 = recv_stack_orderly[OF r3 o2(3)]
  have f: "s5_frame w3 = s5_frame w" using o1(1) o2(1) o3(1) by simp
  have w3: "sv_obj w3 = AuthObj p" "sv_heap w3 p = Some A" using server_frame(1,2)[OF f] assms(4,5) by auto
  have w': "holds_user p A t name pass w'" "w' = w3\<lparr>sv_obj := sv_obj w', sv_heap := sv_heap w'\<rparr>"
    using check_user_cases[OF w3 assms(6,7), of name pass] c assms(2) by (auto split: if_splits)
  have rx: "net_rx w' = net_rx w3" by (subst w'(2)) simp
  have nm: "nm = name @ [of_nat (length pass)]"
    using o2(4) o3(4) take_Suc_conv_app_nth[of "unat (h ! 1)" nm] by (simp add: name_def)
  have h: "h = [1, of_nat (length name)]" using length2[OF o1(4)] h0(1) o2(4) by (simp add: name_def)
  have len: "length name < 256" "length pass < 256"
    using unsigned_less[of "h ! 1"] unsigned_less[of "nm ! unat (h ! 1)"] o2(4) o3(4) by (auto simp: name_def)
  have "at_end w' \<or> rx_bytes (net_rx w) = credentials name pass @ rx_bytes (net_rx w')"
    using o1(5) o2(2,5) o3(2,5) nm h rx by (auto simp: at_end_def credentials_def)
  with o1(2) o3(3) rx w'(1) len show ?thesis by auto
qed


lemma auth_sound:
  assumes "hev_socks5_server_auth w = Some (res, w')" and "0 \<le> res" and "rx_orderly (net_rx w)"
    and "sv_obj w = AuthObj p" and "sv_heap w p = Some A" and "auth_inv A t" and "0 < au_ref A"
  shows "\<exists>methods name pass. holds_user p A t name pass w' \<and> (at_end w' \<or> length methods < 256 \<and>
    length name < 256 \<and> length pass < 256 \<and> HEV_SOCKS5_AUTH_METHOD_USER \<in> set methods \<and>
    rx_bytes (net_rx w) = greeting methods @ credentials name pass @ rx_bytes (net_rx w'))"
proof -
  have sm: "server_method w = HEV_SOCKS5_AUTH_METHOD_USER" using assms(4) by (simp add: server_method_def)
  obtain m w1 r2 w2 where 1: "hev_socks5_server_read_auth_method w = Some (m, w1)"
    and 2: "hev_socks5_server_write_auth_method m w1 = Some (r2, w2)" and nn: "0 \<le> m"
    using assms(1,2) by (auto simp: hev_socks5_server_auth_def split: bind_splits if_splits)
  note o1 = read_auth_method_sound[OF 1 nn assms(3)]
  then have m: "m = uint HEV_SOCKS5_AUTH_METHOD_USER" by (simp add: sm)
  then obtain r3 w3 r4 where 3: "hev_socks5_server_read_auth_user w2 = Some (r3, w3)"
    and 4: "hev_socks5_server_write_auth_user r3 w3 = Some (r4, w')" and "0 \<le> r3 OR r4"
    using assms(1,2) 1 2 by (auto simp: hev_socks5_server_auth_def proto_defs split: bind_splits if_splits)
  then have nn3: "0 \<le> r3" by simp
  have f: "s5_frame w2 = s5_frame w" "net_rx w2 = net_rx w1" using writes_keep(1)[OF 2] o1 by auto
  have w2: "rx_orderly (net_rx w2)" "sv_obj w2 = AuthObj p" "sv_heap w2 p = Some A"
    using f o1 server_frame(1,2)[OF f(1)] assms(4,5) by auto
  from read_auth_user_sound[OF 3 nn3 w2 assms(6,7)] obtain name pass where
    u: "\<not> at_end w2" "holds_user p A t name pass w3"
    "at_end w3 \<or> length name < 256 \<and> length pass < 256 \<and> rx_bytes (net_rx w2) = credentials name pass @ rx_bytes (net_rx w3)"
    by blast
  note k4 = writes_keep(2)[OF 4]
  have "holds_user p A t name pass w'"
    using u(2) holds_user_frame[OF server_frame(1,2)[OF conjunct1[OF k4]]] by blast
  moreover have e: "\<not> at_end w1" "at_end w' = at_end w3" using u(1) f(2) k4 by (auto simp: at_end_def)
  moreover obtain methods where "length methods < 256" "HEV_SOCKS5_AUTH_METHOD_USER \<in> set methods"
    "rx_bytes (net_rx w) = greeting methods @ rx_bytes (net_rx w1)" using o1 e(1) sm by auto
  ultimately show ?thesis using u(3) f(2) k4
    by (intro exI[of _ methods] exI[of _ name] exI[of _ pass]) auto
qed

lemma read_request_keeps:
  assumes "hev_socks5_server_read_request R cmd rep addr w = Some (res, cmd', rep', addr', w')"
  shows "sv_obj w' = sv_obj w" and "sv_heap w' = sv_heap w" and "0 \<le> res \<Longrightarrow> \<not> at_end w"
proof -
  obtain n req w1 where r: "recv_stack 5 w = Some (n, req, w1)"
    using assms by (auto simp: hev_socks5_server_read_request_def split: bind_splits)
  have f: "recv_stack k v = Some (x, y, v') \<Longrightarrow> sv_obj v' = sv_obj v \<and> sv_heap v' = sv_heap v" for k v x y v'
    using server_frame(1,2) by (auto simp: recv_stack_def dest!: s5f.recv_view[OF _ refl] split: bind_splits)
  show "sv_obj w' = sv_obj w" "sv_heap w' = sv_heap w"
    using assms f[OF r] r by (auto simp: hev_socks5_server_read_request_def hev_socks5_set_addr_family_def Let_def dest: f
        split: bind_splits if_splits prod.splits)
  assume "0 \<le> res"
  then have "0 < n" using assms r by (auto simp: hev_socks5_server_read_request_def split: if_splits)
  then show "\<not> at_end w" using r recv_at_end by (fastforce simp: recv_stack_def split: bind_splits)
qed


text \<open>System calls and the connection to the destination leave the objects alone.\<close>

definition sv_objs :: "'a HevSocks5Server_scheme \<Rightarrow> server_obj \<times> (u64 \<Rightarrow> HevSocks5Authenticator option)" where
  "sv_objs w = (sv_obj w, sv_heap w)"

lemma calls_keep_objs:
  shows "sys_result w = Some (r, w') \<Longrightarrow> sv_objs w' = sv_objs w"
    and "sys_getsockname w = Some (r, a, w') \<Longrightarrow> sv_objs w' = sv_objs w"
    and "sv_objs (sys_close fd w) = sv_objs w" and "sv_objs (hev_socks5_set_timeout n w) = sv_objs w"
    and "hev_socks5_socket w = Some (r, w') \<Longrightarrow> sv_objs w' = sv_objs w"
    and "hev_task_io_socket_connect hev_socks5_task_io_yielder w = Some (r, w') \<Longrightarrow> sv_objs w' = sv_objs w"
  subgoal by (auto simp: sv_objs_def sys_result_def split: list.splits)
  subgoal by (auto simp: sv_objs_def sys_getsockname_def split: list.splits)
  subgoal by (simp add: sv_objs_def sys_close_def)
  subgoal by (simp add: sv_objs_def hev_socks5_set_timeout_def)
  subgoal by (auto simp: sv_objs_def hev_socks5_socket_def sys_result_def sys_opened_def sys_close_def
      split: list.splits bind_splits if_splits)
  subgoal using s5f.connect_view[OF _ refl, of w r w'] server_frame(1,2)[of w' w] by (simp add: sv_objs_def)
  done

lemma connect_keeps:
  assumes "hev_socks5_server_connect (hev_socks5_server_class a b u) addr w = Some (res, w')"
  shows "sv_objs w' = sv_objs w"
proof -
  have upd: "sv_objs (v\<lparr>sv_fds0 := fd\<rparr>) = sv_objs v" for v :: "'a HevSocks5Server_scheme" and fd by (simp add: sv_objs_def)
  show ?thesis
    using assms by (auto simp: hev_socks5_server_connect_def hev_socks5_server_class_def hev_socks5_bind_def Let_def
        upd calls_keep_objs(3,4) dest!: calls_keep_objs(5,6) split: bind_splits if_splits)
qed

lemma bind_keeps:
  assumes "hev_socks5_server_bind (hev_socks5_server_class a b u) addr w = Some (res, addr', w')"
  shows "sv_objs w' = sv_objs w"
proof -
  have upd: "sv_objs (v\<lparr>sv_fds0 := fd\<rparr>) = sv_objs v" "sv_objs (v\<lparr>sv_fds1 := fd\<rparr>) = sv_objs v"
    for v :: "'a HevSocks5Server_scheme" and fd by (simp_all add: sv_objs_def)
  show ?thesis
    using assms by (auto simp: hev_socks5_server_bind_def hev_socks5_server_class_def hev_socks5_server_udp_bind_def Let_def
        upd calls_keep_objs(3,4) dest!: calls_keep_objs(1,2,5) split: bind_splits if_splits option.splits)
qed

lemma command_keeps:
  assumes "server_command (hev_socks5_server_class a b u) cmd addr w = Some (rep, addr', w')"
  shows "sv_objs w' = sv_objs w"
proof -
  have upd: "sv_objs (v\<lparr>s5_type := ty\<rparr>) = sv_objs v" for v :: "'a HevSocks5Server_scheme" and ty by (simp add: sv_objs_def)
  show ?thesis
    using assms by (auto simp: server_command_def upd dest!: connect_keeps bind_keeps split: bind_splits if_splits)
qed


end
