(* ===== verification/Server_Session.thy ===== *)
theory Server_Session
  imports Socks5_Server
begin

text \<open>
  Sessions of the SOCKS5 server: a client that follows the protocol is served, together with the client of
  this library; nobody is served without credentials that the authenticator knows; descriptors and
  references are given back.  (That the copy loop which follows relays the two streams is the subject of
  \<open>Splice\<close>.)
\<close>

section \<open>A client that follows the protocol is served\<close>

lemma goes_refl: "clean w \<Longrightarrow> s5_calm w \<Longrightarrow> goes w [] [] w"
  by (simp add: goes_def moved_refl)

text \<open>What matters to \<open>goes\<close> is the connection and the patience of the peer.\<close>

lemma goes_cong:
  assumes "goes w i out w1" and "net_rx w' = net_rx w1" and "net_tx w' = net_tx w1" and "net_out w' = net_out w1"
    and "s5_calm w'"
  shows "goes w i out w'"
  using assms by (simp add: goes_def moved_def clean_def)

lemma read_auth_method_goes':
  assumes "clean w" and "s5_calm w" and "rx_bytes (net_rx w) = greeting methods @ rest"
    and "length methods < 256" and "server_method w \<in> set methods"
  obtains w' where "hev_socks5_server_read_auth_method w = Some (uint (server_method w), w')"
    and "goes w (greeting methods) [] w'" and "s5_frame w' = s5_frame w"
proof -
  let ?h = "[HEV_SOCKS5_VERSION_5, of_nat (length methods)]"
  have rx: "rx_bytes (net_rx w) = ?h @ methods @ rest" using assms(3) by (simp add: greeting_def)
  obtain w1 where 1: "recv_stack 2 w = Some (2, ?h, w1)" and g1: "goes w ?h [] w1" and f1: "s5_frame w1 = s5_frame w"
    by (rule recv_goes[OF assms(1,2) rx]) (auto simp: eval_nat_numeral)
  have rx1: "rx_bytes (net_rx w1) = methods @ rest" using goesD(4)[OF g1] rx by simp
  have ne: "methods \<noteq> []" using assms(5) by auto
  obtain w2 where 2: "recv_stack (length methods) w1 = Some (int (length methods), methods, w2)"
    and g2: "goes w1 methods [] w2" and f2: "s5_frame w2 = s5_frame w1"
    by (rule recv_goes[OF goesD(1,2)[OF g1] rx1 ne])
  have n: "unat (of_nat (length methods) :: byte) = length methods" using assms(4) by (simp add: unat_nat)
  have f: "s5_frame w2 = s5_frame w" using f1 f2 by simp
  have "hev_socks5_server_read_auth_method w = Some (uint (server_method w), w2)"
    using 1 2 n ne assms(5) server_frame(1)[OF f]
    by (simp add: hev_socks5_server_read_auth_method_def server_method_def)
  with that[of w2] goes_trans[OF g1 g2] f show thesis by (simp add: greeting_def)
qed

lemma write_auth_method_goes:
  assumes "clean w" and "s5_calm w" and "2 \<le> tx_room (net_tx w)"
  obtains w' where "hev_socks5_server_write_auth_method (uint m) w = Some (0, w')"
      and "goes w [] [HEV_SOCKS5_VERSION_5, m] w'" and "s5_frame w' = s5_frame w"
  by (rule send_goes[OF assms(1,2), of "[HEV_SOCKS5_VERSION_5, m]"])
    (use assms(3) that in \<open>simp_all add: hev_socks5_server_write_auth_method_def\<close>)

lemma write_auth_user_goes:
  assumes "clean w" and "s5_calm w" and "2 \<le> tx_room (net_tx w)"
  obtains w' where "hev_socks5_server_write_auth_user 0 w = Some (0, w')" and "goes w [] [1, 0] w'"
    and "s5_frame w' = s5_frame w"
  by (rule send_goes[OF assms(1,2), of "[1, 0]"])
    (use assms(3) that in \<open>simp_all add: hev_socks5_server_write_auth_user_def\<close>)

lemma read_auth_user_goes:
  assumes "clean w" and "s5_calm w" and "rx_bytes (net_rx w) = credentials name pass @ rest"
    and "0 < length name" and "length name < 256" and "0 < length pass" and "length pass < 256"
    and "sv_obj w = AuthObj p" and "sv_heap w p = Some A" and "auth_inv A t" and "0 < au_ref A"
    and "users_of A t name = Some user" and "au_users A user = Some u" and "us_pass u = pass"
  obtains w' v where "hev_socks5_server_read_auth_user w = Some (0, w')" and "goes w (credentials name pass) [] w'"
    and "holds_user p A t name pass w'" and "s5_frame v = s5_frame w" and "w' = v\<lparr>sv_obj := sv_obj w', sv_heap := sv_heap w'\<rparr>"
proof -
  let ?h = "[1, of_nat (length name) :: byte]" and ?n = "name @ [of_nat (length pass)]"
  have rx: "rx_bytes (net_rx w) = ?h @ ?n @ pass @ rest" using assms(3) by (simp add: credentials_def)
  obtain w1 where 1: "recv_stack 2 w = Some (2, ?h, w1)" and g1: "goes w ?h [] w1" and f1: "s5_frame w1 = s5_frame w"
    by (rule recv_goes[OF assms(1,2) rx]) (auto simp: eval_nat_numeral)
  have rx1: "rx_bytes (net_rx w1) = ?n @ pass @ rest" using goesD(4)[OF g1] rx by simp
  obtain w2 where 2: "recv_stack (length ?n) w1 = Some (int (length ?n), ?n, w2)" and g2: "goes w1 ?n [] w2"
    and f2: "s5_frame w2 = s5_frame w1" by (rule recv_goes[OF goesD(1,2)[OF g1] rx1]) simp_all
  have rx2: "rx_bytes (net_rx w2) = pass @ rest" using goesD(4)[OF g2] rx1 by simp
  have ne: "pass \<noteq> []" using assms(6) by simp
  obtain w3 where 3: "recv_stack (length pass) w2 = Some (int (length pass), pass, w3)" and g3: "goes w2 pass [] w3"
    and f3: "s5_frame w3 = s5_frame w2" by (rule recv_goes[OF goesD(1,2)[OF g2] rx2 ne])
  have f: "s5_frame w3 = s5_frame w" using f1 f2 f3 by simp
  have w3: "sv_obj w3 = AuthObj p" "sv_heap w3 p = Some A" using server_frame(1,2)[OF f] assms(8,9) by auto
  obtain w' where c: "check_user name pass w3 = Some (0, w')" and h: "holds_user p A t name pass w'"
    and w': "w' = w3\<lparr>sv_obj := sv_obj w', sv_heap := sv_heap w'\<rparr>"
    using check_user_cases[OF w3 assms(10,11), of name pass] assms(12-14) by (auto split: if_splits)
  have n: "unat (of_nat (length name) :: byte) = length name" "unat (of_nat (length pass) :: byte) = length pass"
    using assms(5,7) by (simp_all add: unat_nat)
  then have nz: "of_nat (length name) \<noteq> (0 :: byte)" "of_nat (length pass) \<noteq> (0 :: byte)" using assms(4,6) by auto
  have "hev_socks5_server_read_auth_user w = Some (0, w')"
    using 1 2 3 c n nz assms(6) by (simp add: hev_socks5_server_read_auth_user_def nth_append)
  moreover have "goes w (credentials name pass) [] w'"
  proof (rule goes_cong)
    show "goes w (credentials name pass) [] w3"
      using goes_trans[OF goes_trans[OF g1 g2] g3] by (simp add: credentials_def)
    show "net_rx w' = net_rx w3" "net_tx w' = net_tx w3" "net_out w' = net_out w3" by (subst w', simp)+
    show "s5_calm w'" using goesD(2)[OF g3] by (subst w') (simp add: s5_calm_def)
  qed
  ultimately show thesis using that[OF _ _ h f w'] by simp
qed


text \<open>
  \<open>admits w name pass\<close>: the server serves a client with these credentials, because it asks for none, or
  because its authenticator knows them.
\<close>

definition admits :: "'a HevSocks5Server_scheme \<Rightarrow> byte list \<Rightarrow> byte list \<Rightarrow> bool" where
  "admits w name pass \<longleftrightarrow> sv_obj w = NoObj \<or>
     0 < length name \<and> length name < 256 \<and> 0 < length pass \<and> length pass < 256 \<and>
     (\<exists>p A t user u. sv_obj w = AuthObj p \<and> sv_heap w p = Some A \<and> auth_inv A t \<and> 0 < au_ref A \<and>
        users_of A t name = Some user \<and> au_users A user = Some u \<and> us_pass u = pass)"

text \<open>What the steps after authentication need of the state.\<close>

definition env_of :: "'a HevSocks5Server_scheme \<Rightarrow> int list \<times> int \<times> (nat \<Rightarrow> nat \<times> bool)" where
  "env_of w = (s5_sys w, sv_timeout w, s5_wake w)"

lemma env_of_frame: "s5_frame w' = s5_frame w \<Longrightarrow> env_of w' = env_of w"
  using server_frame(5)[of w' w] s5_frameD(5,6)[of w' w] by (simp add: env_of_def)

lemma auth_goes:
  assumes "clean w" and "s5_calm w" and "admits w name pass"
    and "rx_bytes (net_rx w) = greeting methods @
      (if server_method w = HEV_SOCKS5_AUTH_METHOD_USER then credentials name pass else []) @ rest"
    and "length methods < 256" and "server_method w \<in> set methods" and "4 \<le> tx_room (net_tx w)"
  obtains w' where "hev_socks5_server_auth w = Some (0, w')" and "env_of w' = env_of w"
    and "goes w (greeting methods @ (if server_method w = HEV_SOCKS5_AUTH_METHOD_USER then credentials name pass else []))
       (auth_replies (server_method w)) w'"
proof -
  from read_auth_method_goes'[OF assms(1,2,4,5,6)] obtain w1 where
    1: "hev_socks5_server_read_auth_method w = Some (uint (server_method w), w1)"
    and g1: "goes w (greeting methods) [] w1" and f1: "s5_frame w1 = s5_frame w" .
  have "2 \<le> tx_room (net_tx w1)" using goesD(3)[OF g1] assms(7) by simp
  from write_auth_method_goes[OF goesD(1,2)[OF g1] this, where m = "server_method w"] obtain w2 where
    2: "hev_socks5_server_write_auth_method (uint (server_method w)) w1 = Some (0, w2)"
    and g2: "goes w1 [] [HEV_SOCKS5_VERSION_5, server_method w] w2" and f2: "s5_frame w2 = s5_frame w1" .
  note g12 = goes_trans[OF g1 g2]
  have f: "s5_frame w2 = s5_frame w" using f1 f2 by simp
  show thesis
  proof (cases "sv_obj w = NoObj")
    case True
    then have m: "server_method w = HEV_SOCKS5_AUTH_METHOD_NONE" by (simp add: server_method_def)
    have "hev_socks5_server_auth w = Some (0, w2)" using 1 2 m by (simp add: hev_socks5_server_auth_def)
    with that[of w2] g12 m env_of_frame[OF f] show thesis by (simp add: auth_replies_def)
  next
    case False
    then have m: "server_method w = HEV_SOCKS5_AUTH_METHOD_USER" by (simp add: server_method_def)
    obtain p A t user u where a: "sv_obj w = AuthObj p" "sv_heap w p = Some A" "auth_inv A t" "0 < au_ref A"
      "users_of A t name = Some user" "au_users A user = Some u" "us_pass u = pass"
      and l: "0 < length name" "length name < 256" "0 < length pass" "length pass < 256"
      using assms(3) False unfolding admits_def by blast
    have w2: "sv_obj w2 = AuthObj p" "sv_heap w2 p = Some A" using server_frame(1,2)[OF f] a by auto
    have rx2: "rx_bytes (net_rx w2) = credentials name pass @ rest" using goesD(4)[OF g12] assms(4) m by simp
    from read_auth_user_goes[OF goesD(1,2)[OF g12] rx2 l w2 a(3-7)] obtain w3 v where
      3: "hev_socks5_server_read_auth_user w2 = Some (0, w3)" and g3: "goes w2 (credentials name pass) [] w3"
      and v: "s5_frame v = s5_frame w2" "w3 = v\<lparr>sv_obj := sv_obj w3, sv_heap := sv_heap w3\<rparr>" .
    have e3: "env_of w3 = env_of v" by (subst v(2)) (simp add: env_of_def)
    have "2 \<le> tx_room (net_tx w3)" using goesD(3)[OF goes_trans[OF g12 g3]] assms(7) by simp
    from write_auth_user_goes[OF goesD(1,2)[OF g3] this] obtain w4 where
      4: "hev_socks5_server_write_auth_user 0 w3 = Some (0, w4)" and g4: "goes w3 [] [1, 0] w4"
      and f4: "s5_frame w4 = s5_frame w3" .
    have "hev_socks5_server_auth w = Some (0, w4)"
      using 1 2 3 4 m by (simp add: hev_socks5_server_auth_def proto_defs)
    moreover have "env_of w4 = env_of w" using env_of_frame[OF f4] e3 env_of_frame[OF v(1)] env_of_frame[OF f] by simp
    ultimately show thesis
      using that[of w4] goes_trans[OF goes_trans[OF g12 g3] g4] m
      by (simp add: auth_replies_def HEV_SOCKS5_AUTH_VERSION_1_def HEV_SOCKS5_RES_REP_SUCC_def)
  qed
qed

text \<open>The connection to the destination is established in the end.\<close>

fun conn_ready :: "conn_ev list \<Rightarrow> bool" where
  "conn_ready [] = False"
| "conn_ready (ConnOk # es) = True"
| "conn_ready (ConnIsConn # es) = True"
| "conn_ready (ConnInProgress # es) = conn_ready es"
| "conn_ready (ConnErr # es) = False"

lemma connect_goes:
  assumes "conn_ready (net_conn w)" and "s5_calm w"
  shows "\<exists>w'. hev_task_io_socket_connect hev_socks5_task_io_yielder w = Some (0, w') \<and> s5_calm w'"
  using assms
proof (induction "net_conn w" arbitrary: w rule: conn_ready.induct)
  case (4 es)
  have e: "net_conn w = ConnInProgress # es" using 4(2) by simp
  let ?v = "hev_task_yield (w\<lparr>net_conn := es\<rparr>)"
  have c: "s5_calm (w\<lparr>net_conn := es\<rparr>)" using 4(4) by (simp add: s5_calm_def)
  have "es = net_conn ?v" by (simp add: hev_task_yield_def)
  moreover have "conn_ready (net_conn ?v)" using 4(3) e by (simp add: hev_task_yield_def)
  ultimately obtain w' where "hev_task_io_socket_connect hev_socks5_task_io_yielder ?v = Some (0, w')" "s5_calm w'"
    using 4(1)[of ?v] s5_calm_yield(2)[OF c] by auto
  then show ?case using s5_calm_yield(1)[OF c]
    by (subst hev_task_io_socket_connect.simps) (simp add: sys_connect_def e)
next
  case (2 es)
  then show ?case by (subst hev_task_io_socket_connect.simps) (simp add: sys_connect_def flip: 2(1), simp add: s5_calm_def)
next
  case (3 es)
  then show ?case by (subst hev_task_io_socket_connect.simps) (simp add: sys_connect_def flip: 3(1), simp add: s5_calm_def)
next
  case 1
  then show ?case by (metis conn_ready.simps(1))
next
  case (5 es)
  then show ?case by (metis conn_ready.simps(5))
qed


text \<open>Transfers on the connection to the client leave the connection attempt and the half-close alone.\<close>

definition still :: "'a net_scheme \<Rightarrow> 'a net_scheme \<Rightarrow> bool" where
  "still w w' \<longleftrightarrow> net_conn w' = net_conn w \<and> net_shut w' = net_shut w \<and> net_junk w' = net_junk w"

lemma recv_still:
  assumes "hev_task_io_socket_recv yl wa len got w = Some (res, buf, w')" and "yl = hev_socks5_task_io_yielder"
  shows "still w w'"
  using assms
proof (induction "(res, buf, w')" rule: recv_induct)
  case (step f yl wa len got w)
  then obtain r1 bs w1 where sys: "sys_recv (len - length got) w = Some (r1, bs, w1)" by (auto split: bind_splits)
  then have w1: "still w w1" using sys_recv_Some[OF sys] by (simp add: still_def)
  show ?case
  proof (cases r1)
    case (Ret s)
    with step(1)[of yl wa len "got @ bs" w1] step(2-) sys w1 show ?thesis by (auto simp: still_def split: if_splits)
  next
    case Eagain
    with step(2-) sys obtain y w2 where y: "hev_socks5_task_io_yielder HEV_TASK_WAITIO w1 = Some (y, w2)"
      by (auto split: bind_splits)
    then have "still w w2" using w1 same_netD[OF s5y.yielder_keeps[OF y]] by (simp add: still_def)
    with step(1)[of yl wa len got w2] step(2-) Eagain sys y show ?thesis by (auto simp: still_def split: if_splits)
  qed
qed

lemma recv_stack_still: "recv_stack len w = Some (res, buf, w') \<Longrightarrow> still w w'"
  by (auto simp: recv_stack_def dest: recv_still[OF _ refl] split: bind_splits)

lemma send_still:
  "hev_task_io_socket_send hev_socks5_task_io_yielder True buf 0 w = Some (res, w') \<Longrightarrow> buf \<noteq> [] \<Longrightarrow> still w w'"
  using s5y.send_prefix[of buf w res w'] by (auto simp: tx_step_def still_def)

lemma still_trans: "still w w' \<Longrightarrow> still w' w'' \<Longrightarrow> still w w''"
  by (simp add: still_def)

lemma still_refl [simp]: "still w w"
  by (simp add: still_def)

lemma check_user_still: "check_user name pass w = Some (r, w') \<Longrightarrow> still w w'"
  by (auto simp: check_user_def auth_put_def still_def split: server_obj.splits bind_splits if_splits)

lemma auth_still:
  assumes "hev_socks5_server_auth w = Some (res, w')"
  shows "still w w'"
proof -
  have 1: "hev_socks5_server_read_auth_method v = Some (r, v') \<Longrightarrow> still v v'" for v v' :: "'a HevSocks5Server_scheme" and r
    by (auto simp: hev_socks5_server_read_auth_method_def Let_def still_def dest!: recv_stack_still split: bind_splits if_splits)
  have 2: "hev_socks5_server_write_auth_method m v = Some (r, v') \<Longrightarrow> still v v'" for v v' :: "'a HevSocks5Server_scheme" and r m
    by (auto simp: hev_socks5_server_write_auth_method_def dest!: send_still split: bind_splits)
  have 3: "hev_socks5_server_write_auth_user m v = Some (r, v') \<Longrightarrow> still v v'" for v v' :: "'a HevSocks5Server_scheme" and r m
    by (auto simp: hev_socks5_server_write_auth_user_def dest!: send_still split: bind_splits)
  have 4: "hev_socks5_server_read_auth_user v = Some (r, v') \<Longrightarrow> still v v'" for v v' :: "'a HevSocks5Server_scheme" and r
    by (auto simp: hev_socks5_server_read_auth_user_def Let_def still_def
        dest!: recv_stack_still check_user_still split: bind_splits if_splits)
  show ?thesis
    using assms by (auto simp: hev_socks5_server_auth_def still_def dest!: 1 2 3 4 split: bind_splits if_splits)
qed


text \<open>
  The name resolves to the destination, whatever the memory held before; flow information and scope
  are the ones found there.
\<close>

definition stale_in :: "sockaddr_in6 \<Rightarrow> sockaddr_in6 \<Rightarrow> sockaddr_in6" where
  "stale_in sa dest = dest\<lparr>sin6_flowinfo := sin6_flowinfo sa, sin6_scope_id := sin6_scope_id sa\<rparr>"

definition resolves :: "resolver \<Rightarrow> endpoint \<Rightarrow> sockaddr_in6 \<Rightarrow> bool" where
  "resolves R e dest \<longleftrightarrow> endpoint_ok e \<and> length (sin6_addr dest) = 16 \<and>
     (\<forall>sa fam. \<exists>fam'. hev_socks5_addr_into_sockaddr6 R (addr_encode e) sa fam = (0, stale_in sa dest, fam'))"

lemma addr_encode_split:
  assumes "endpoint_ok e"
  obtains t a rest where "addr_encode e = t # a # rest" and "t = HEV_SOCKS5_ADDR_TYPE_IPV4 \<and> length rest = 5 \<or>
    t = HEV_SOCKS5_ADDR_TYPE_IPV6 \<and> length rest = 17 \<or> t = HEV_SOCKS5_ADDR_TYPE_NAME \<and> length rest = 2 + unat a"
proof (cases e)
  case (IPv4 ip p)
  then obtain x xs where "ip = x # xs" "length xs = 3" using assms by (cases ip) auto
  with IPv4 that show thesis by simp
next
  case (IPv6 ip p)
  then obtain x xs where "ip = x # xs" "length xs = 15" using assms by (cases ip) auto
  with IPv6 that show thesis by simp
next
  case (Name n p)
  with assms that show thesis by (simp add: unat_nat)
qed

lemma read_request_goes:
  assumes "clean w" and "s5_calm w" and "resolves R e dest"
    and "rx_bytes (net_rx w) = [HEV_SOCKS5_VERSION_5, cmd, 0] @ addr_encode e @ rest"
  obtains w' where "hev_socks5_server_read_request R c rep sa w = Some (0, cmd, rep, stale_in sa dest, w')"
    and "goes w ([HEV_SOCKS5_VERSION_5, cmd, 0] @ addr_encode e) [] w'" and "env_of w' = env_of w" and "still w w'"
proof -
  obtain t a more where te: "addr_encode e = t # a # more" and t: "t = HEV_SOCKS5_ADDR_TYPE_IPV4 \<and> length more = 5 \<or>
    t = HEV_SOCKS5_ADDR_TYPE_IPV6 \<and> length more = 17 \<or> t = HEV_SOCKS5_ADDR_TYPE_NAME \<and> length more = 2 + unat a"
    by (rule addr_encode_split) (use assms(3) in \<open>auto simp: resolves_def\<close>)
  let ?h = "[HEV_SOCKS5_VERSION_5, cmd, 0, t, a]"
  have rx: "rx_bytes (net_rx w) = ?h @ more @ rest" using assms(4) te by simp
  obtain w1 where 1: "recv_stack 5 w = Some (5, ?h, w1)" and g1: "goes w ?h [] w1" and f1: "s5_frame w1 = s5_frame w"
    by (rule recv_goes[OF assms(1,2) rx]) (auto simp: eval_nat_numeral)
  have rx1: "rx_bytes (net_rx w1) = more @ rest" using goesD(4)[OF g1] rx by simp
  have ne: "more \<noteq> []" using t by auto
  obtain w2 where 2: "recv_stack (length more) w1 = Some (int (length more), more, w2)" and g2: "goes w1 more [] w2"
    and f2: "s5_frame w2 = s5_frame w1" by (rule recv_goes[OF goesD(1,2)[OF g1] rx1 ne])
  obtain fam where fam: "hev_socks5_addr_into_sockaddr6 R (t # a # more) sa (hev_socks5_get_addr_family w2) =
      (0, stale_in sa dest, fam)"
    using assms(3) te unfolding resolves_def by metis
  let ?w = "hev_socks5_set_addr_family fam w2"
  have pos: "\<not> 2 + uint a \<le> 0" using uint_ge_0[of a] by linarith
  have "hev_socks5_server_read_request R c rep sa w = Some (0, cmd, rep, stale_in sa dest, ?w)"
    using 1 2 ne fam t by (auto simp: hev_socks5_server_read_request_def proto_defs pos)
  moreover have g12: "goes w ([HEV_SOCKS5_VERSION_5, cmd, 0] @ addr_encode e) [] w2"
    using goes_trans[OF g1 g2] te by simp
  have "goes w ([HEV_SOCKS5_VERSION_5, cmd, 0] @ addr_encode e) [] ?w"
    by (rule goes_cong[OF g12]) (use goesD(2)[OF g2] in \<open>simp_all add: hev_socks5_set_addr_family_def s5_calm_def\<close>)
  moreover have "env_of ?w = env_of w"
    using env_of_frame[OF f1] env_of_frame[OF f2] by (simp add: env_of_def hev_socks5_set_addr_family_def)
  moreover have "still w ?w"
    using recv_stack_still[OF 1] recv_stack_still[OF 2] by (simp add: still_def hev_socks5_set_addr_family_def)
  ultimately show thesis using that by blast
qed

text \<open>The address of a socket, as it is reported to the client.\<close>

definition sock_endpoint :: "sockaddr_in6 \<Rightarrow> endpoint" where
  "sock_endpoint sa = (if IN6_IS_ADDR_V4MAPPED (sin6_addr sa) then IPv4 (drop 12 (sin6_addr sa)) (sin6_port sa)
     else IPv6 (sin6_addr sa) (sin6_port sa))"

lemma sock_endpoint_bound: "length (sin6_addr sa) = 16 \<Longrightarrow> bound_endpoint (sock_endpoint sa)"
  by (simp add: sock_endpoint_def bound_endpoint_def)

lemma response_wire:
  assumes "length (sin6_addr sa) = 16"
  shows "hev_socks5_server_write_response rep sa w = do {
    (ret, w) \<leftarrow> hev_task_io_socket_send hev_socks5_task_io_yielder True
      ([HEV_SOCKS5_VERSION_5, rep, 0] @ addr_encode (sock_endpoint sa)) 0 w;
    Some (if ret \<le> 0 then -1 else 0, w) }"
proof -
  have "19 \<le> length (stack_mem 260 w)" by (simp add: stack_mem_def)
  from addr_from_sockaddr6_encode[OF assms this] assms
  show ?thesis by (auto simp: hev_socks5_server_write_response_def sock_endpoint_def)
qed

lemma write_response_goes:
  assumes "clean w" and "s5_calm w" and "length (sin6_addr sa) = 16" and "22 \<le> tx_room (net_tx w)"
  obtains w' where "hev_socks5_server_write_response HEV_SOCKS5_RES_REP_SUCC sa w = Some (0, w')"
    and "goes w [] (response_bytes 0 (sock_endpoint sa)) w'" and "s5_frame w' = s5_frame w" and "still w w'"
proof -
  have len: "length (response_bytes 0 (sock_endpoint sa)) \<le> tx_room (net_tx w)"
    using assms(3,4) by (simp add: response_bytes_def sock_endpoint_def)
  have ne: "response_bytes 0 (sock_endpoint sa) \<noteq> []" by (simp add: response_bytes_def)
  obtain w' where w': "hev_task_io_socket_send hev_socks5_task_io_yielder True (response_bytes 0 (sock_endpoint sa)) 0 w =
      Some (int (length (response_bytes 0 (sock_endpoint sa))), w')"
    "goes w [] (response_bytes 0 (sock_endpoint sa)) w'" "s5_frame w' = s5_frame w"
    by (rule send_goes[OF assms(1,2) len ne])
  show thesis
    using that[OF _ w'(2,3) send_still[OF w'(1) ne]] w'(1) response_wire[OF assms(3), of HEV_SOCKS5_RES_REP_SUCC w]
    by (simp add: response_bytes_def)
qed


lemma connect_shut_from:
  assumes "hev_task_io_socket_connect yl w = Some (res, w')" and "yl = hev_socks5_task_io_yielder"
  shows "net_shut w' = net_shut w"
  using assms
proof (induction "(res, w')" rule: connect_induct)
  case (step f yl w)
  then obtain e w1 where sys: "sys_connect w = Some (e, w1)" by (auto split: bind_splits)
  then have w1: "net_shut w1 = net_shut w" by (auto simp: sys_connect_def split: list.splits)
  show ?case
  proof (cases "e = ConnInProgress")
    case True
    with step(2-) sys obtain y w2 where y: "hev_socks5_task_io_yielder HEV_TASK_WAITIO w1 = Some (y, w2)"
      by (auto split: bind_splits)
    with step(1)[of yl w2] step(2-) True sys w1 same_netD(5)[OF s5y.yielder_keeps[OF y]] show ?thesis
      by (auto split: if_splits)
  next
    case False
    with step(2) sys w1 show ?thesis by (cases e) auto
  qed
qed

lemmas connect_shut = connect_shut_from[OF _ refl]

lemma server_connect_goes:
  assumes "clean w" and "s5_calm w" and "s5_sys w = fd # r # sys" and "0 \<le> fd" and "0 \<le> r"
    and "conn_ready (net_conn w)" and "sv_timeout w \<noteq> 0"
  obtains w' where "hev_socks5_server_connect (hev_socks5_server_class a b u) dest w = Some (0, w')"
    and "goes w [] [] w'" and "sv_fds0 w' = fd" and "s5_fd w' = s5_fd w" and "net_shut w' = net_shut w"
    and "sv_remote w' = sv_remote w"
proof -
  let ?v = "w\<lparr>s5_sys := sys, s5_open := insert fd (s5_open w)\<rparr>"
  let ?c = "hev_socks5_set_timeout (sv_timeout w) ?v"
  have sock: "hev_socks5_socket w = Some (fd, ?v)"
    using assms(3-5) by (simp add: hev_socks5_socket_def sys_result_def sys_opened_def)
  have "s5_calm ?c" "conn_ready (net_conn ?c)"
    using assms(2,6,7) by (simp_all add: s5_calm_def hev_socks5_set_timeout_def)
  then obtain c where c: "hev_task_io_socket_connect hev_socks5_task_io_yielder ?c = Some (0, c)" "s5_calm c"
    using connect_goes by blast
  have view: "s5_frame c = s5_frame ?c" "net_rx c = net_rx w" "net_tx c = net_tx w" "net_out c = net_out w"
    using s5f.connect_view[OF c(1) refl] by (simp_all add: hev_socks5_set_timeout_def)
  let ?w = "(hev_socks5_set_timeout (s5_timeout w) c)\<lparr>sv_fds0 := fd\<rparr>"
  have "hev_socks5_server_connect (hev_socks5_server_class a b u) dest w = Some (0, ?w)"
    using sock assms(4) c(1)
    by (simp add: hev_socks5_server_connect_def hev_socks5_server_class_def hev_socks5_bind_def
        hev_socks5_get_timeout_def)
  moreover have "goes w [] [] ?w"
    by (rule goes_cong[OF goes_refl[OF assms(1,2)]])
      (use view(2-4) assms(2) c(2) in \<open>simp_all add: hev_socks5_set_timeout_def s5_calm_def\<close>)
  moreover have "s5_fd ?w = s5_fd w" "sv_remote ?w = sv_remote w"
    using s5_frameD(1)[OF view(1)] server_frame(7)[OF view(1)] by (simp_all add: hev_socks5_set_timeout_def)
  moreover have "net_shut ?w = net_shut w"
    using connect_shut[OF c(1)] by (simp add: hev_socks5_set_timeout_def)
  ultimately show thesis using that by simp
qed

text \<open>The dialogue of a client that asks for a connection.\<close>

definition client_says :: "byte list \<Rightarrow> byte \<Rightarrow> byte list \<Rightarrow> byte list \<Rightarrow> endpoint \<Rightarrow> byte list" where
  "client_says methods m name pass e =
     greeting methods @ (if m = HEV_SOCKS5_AUTH_METHOD_USER then credentials name pass else []) @
     [HEV_SOCKS5_VERSION_5, HEV_SOCKS5_REQ_CMD_CONNECT, 0] @ addr_encode e"

lemma handshake_goes:
  assumes "clean w" and "s5_calm w" and "admits w name pass" and "length methods < 256" and "server_method w \<in> set methods"
    and "rx_bytes (net_rx w) = client_says methods (server_method w) name pass e @ rest"
    and "26 \<le> tx_room (net_tx w)" and "resolves R e dest"
    and "s5_sys w = fd # r # sys" and "0 \<le> fd" and "0 \<le> r" and "conn_ready (net_conn w)" and "sv_timeout w \<noteq> 0"
  obtains w' where "hev_socks5_server_handshake R (hev_socks5_server_class a b u) w = Some (0, w')"
    and "goes w (client_says methods (server_method w) name pass e)
      (auth_replies (server_method w) @ response_bytes 0 (sock_endpoint dest)) w'"
    and "s5_type w' = HEV_SOCKS5_TYPE_TCP" and "net_shut w' = net_shut w"
proof -
  have room: "4 \<le> tx_room (net_tx w)" using assms(7) by simp
  from auth_goes[OF assms(1-3) assms(6)[unfolded client_says_def append.assoc] assms(4,5) room] obtain w1 where
    1: "hev_socks5_server_auth w = Some (0, w1)" and e1: "env_of w1 = env_of w"
    and g1: "goes w (greeting methods @ (if server_method w = HEV_SOCKS5_AUTH_METHOD_USER then credentials name pass else []))
       (auth_replies (server_method w)) w1" .
  have rx1: "rx_bytes (net_rx w1) = [HEV_SOCKS5_VERSION_5, HEV_SOCKS5_REQ_CMD_CONNECT, 0] @ addr_encode e @ rest"
    using goesD(4)[OF g1] assms(6) by (simp add: client_says_def)
  let ?d = "stale_in (stack_sockaddr w1) dest"
  from read_request_goes[OF goesD(1,2)[OF g1] assms(8) rx1] obtain w2 where
    2: "hev_socks5_server_read_request R (net_junk w1 0) HEV_SOCKS5_RES_REP_SUCC
         (stack_sockaddr w1) w1 =
         Some (0, HEV_SOCKS5_REQ_CMD_CONNECT, HEV_SOCKS5_RES_REP_SUCC, ?d, w2)"
    and g2: "goes w1 ([HEV_SOCKS5_VERSION_5, HEV_SOCKS5_REQ_CMD_CONNECT, 0] @ addr_encode e) [] w2"
    and e2: "env_of w2 = env_of w1" and s2: "still w1 w2" .
  have s: "still w w2" using still_trans[OF auth_still[OF 1] s2] .
  have w2: "s5_sys w2 = fd # r # sys" "sv_timeout w2 \<noteq> 0" "conn_ready (net_conn w2)"
    using e1 e2 s assms(9,12,13) by (auto simp: env_of_def still_def)
  from server_connect_goes[OF goesD(1,2)[OF g2] w2(1) assms(10,11) w2(3,2)] obtain w3 where
    3: "hev_socks5_server_connect (hev_socks5_server_class a b u) ?d w2 = Some (0, w3)"
    and g3: "goes w2 [] [] w3" and sh3: "net_shut w3 = net_shut w2" .
  let ?w3 = "w3\<lparr>s5_type := HEV_SOCKS5_TYPE_TCP\<rparr>"
  have g3': "goes w2 [] [] ?w3"
    by (rule goes_cong[OF g3]) (use goesD(2)[OF g3] in \<open>simp_all add: s5_calm_def\<close>)
  note g123 = goes_trans[OF goes_trans[OF g1 g2] g3']
  have "length (auth_replies (server_method w)) \<le> 4" by (simp add: auth_replies_def)
  then have "22 \<le> tx_room (net_tx ?w3)" using goesD(3)[OF g123] assms(7) by simp
  moreover have dest: "length (sin6_addr ?d) = 16" "sock_endpoint ?d = sock_endpoint dest"
    using assms(8) by (simp_all add: resolves_def stale_in_def sock_endpoint_def)
  ultimately obtain w4 where 4: "hev_socks5_server_write_response HEV_SOCKS5_RES_REP_SUCC ?d ?w3 = Some (0, w4)"
    and g4: "goes ?w3 [] (response_bytes 0 (sock_endpoint dest)) w4" and f4: "s5_frame w4 = s5_frame ?w3" and s4: "still ?w3 w4"
    using write_response_goes[OF goesD(1,2)[OF g3']] by metis
  have "server_command (hev_socks5_server_class a b u) HEV_SOCKS5_REQ_CMD_CONNECT ?d w2 =
      Some (HEV_SOCKS5_RES_REP_SUCC, ?d, ?w3)"
    using 3 by (simp add: server_command_def)
  then have "hev_socks5_server_handshake R (hev_socks5_server_class a b u) w = Some (0, w4)"
    using 1 2 4 by (simp add: hev_socks5_server_handshake_def)
  moreover have "goes w (client_says methods (server_method w) name pass e)
      (auth_replies (server_method w) @ response_bytes 0 (sock_endpoint dest)) w4"
    using goes_trans[OF g123 g4] by (simp add: client_says_def)
  moreover have "s5_type w4 = HEV_SOCKS5_TYPE_TCP" "net_shut w4 = net_shut w"
    using s5_frameD(3)[OF f4] s4 sh3 s by (simp_all add: still_def)
  ultimately show thesis using that by blast
qed


section \<open>Properties\<close>

lemma handshake_steps:
  assumes "hev_socks5_server_handshake R klass w = Some (0, w')"
  obtains r1 w1 r2 cmd rep dest w2 rep' dest' w3 r4 where "hev_socks5_server_auth w = Some (r1, w1)" and "0 \<le> r1"
    and "hev_socks5_server_read_request R (net_junk w1 0) HEV_SOCKS5_RES_REP_SUCC
         (stack_sockaddr w1) w1 = Some (r2, cmd, rep, dest, w2)" and "0 \<le> r2"
    and "server_command klass cmd dest w2 = Some (rep', dest', w3)"
    and "hev_socks5_server_write_response rep' dest' w3 = Some (r4, w')"
  using assms by (auto simp: hev_socks5_server_handshake_def split: bind_splits if_splits)

text \<open>
  C28: Nobody is served without credentials.  If the handshake of a server with an authenticator succeeds,
  then the client has offered the method "user name and password" and has sent, completely, a name and
  the password the authenticator holds for it, whatever the client did otherwise, closing the connection
  in the middle of a message included, provided that a connection which has ended or failed yields no
  further data (\<open>rx_orderly\<close>); and the server now holds a live reference to exactly that
  user, even when the authenticator itself was released.
\<close>

theorem server_serves_known_users:
  assumes "hev_socks5_server_handshake R (hev_socks5_server_class a b u) w = Some (0, w')"
    and "rx_orderly (net_rx w)" and "sv_obj w = AuthObj p" and "sv_heap w p = Some A" and "auth_inv A t" and "0 < au_ref A"
  shows "\<exists>methods name pass rest. HEV_SOCKS5_AUTH_METHOD_USER \<in> set methods \<and> length methods < 256 \<and>
     length name < 256 \<and> length pass < 256 \<and>
     rx_bytes (net_rx w) = greeting methods @ credentials name pass @ rest \<and> holds_user p A t name pass w'"
proof -
  from assms(1) obtain r1 w1 r2 cmd rep dest w2 rep' dest' w3 r4 where 1: "hev_socks5_server_auth w = Some (r1, w1)" "0 \<le> r1"
    and 2: "hev_socks5_server_read_request R (net_junk w1 0) HEV_SOCKS5_RES_REP_SUCC
         (stack_sockaddr w1) w1 = Some (r2, cmd, rep, dest, w2)" "0 \<le> r2"
    and 3: "server_command (hev_socks5_server_class a b u) cmd dest w2 = Some (rep', dest', w3)"
    and 4: "hev_socks5_server_write_response rep' dest' w3 = Some (r4, w')"
    by (rule handshake_steps)
  have "sv_obj w' = sv_obj w1" "sv_heap w' = sv_heap w1"
    using read_request_keeps(1,2)[OF 2(1)] command_keeps[OF 3] server_frame(1,2)[OF conjunct1[OF writes_keep(3)[OF 4]]]
    by (simp_all add: sv_objs_def)
  then have h: "holds_user p A t name pass w' = holds_user p A t name pass w1" for name pass by (rule holds_user_frame)
  from auth_sound[OF 1 assms(2-6)] read_request_keeps(3)[OF 2] obtain methods name pass where
    "holds_user p A t name pass w1" "length methods < 256" "length name < 256" "length pass < 256"
    "HEV_SOCKS5_AUTH_METHOD_USER \<in> set methods"
    "rx_bytes (net_rx w) = greeting methods @ credentials name pass @ rx_bytes (net_rx w1)" by blast
  with h show ?thesis by blast
qed

text \<open>A server with one registered user, and a client stream in arbitrary segments.\<close>

definition sample_server :: "server_obj \<Rightarrow> rx_ev list \<Rightarrow> tx_ev list \<Rightarrow> HevSocks5Server" where
  "sample_server obj rx tx =
     \<lparr>net_rx = rx, net_tx = tx, net_conn = [ConnInProgress, ConnOk], net_out = [], net_shut = False, net_junk = (\<lambda>i. of_nat i),
      s5_fd = 5, s5_timeout = -1, s5_udp_associated = 0, s5_type = HEV_SOCKS5_TYPE_NONE,
      s5_addr_family = HEV_SOCKS5_ADDR_FAMILY_UNSPEC, s5_wake = (\<lambda>_. (1, False)), s5_clock = 0,
      s5_sys = [7, 0], s5_open = {5}, sv_fds0 = -1, sv_fds1 = -1, sv_timeout = -1, sv_obj = obj,
      sv_heap = [64 \<mapsto> sample_auth], sv_names = [],
      sv_remote = \<lparr>net_rx = [], net_tx = [], net_conn = [], net_out = [], net_shut = False, net_junk = (\<lambda>_. 0)\<rparr>\<rparr>"

definition sample_resolver :: resolver where
  "sample_resolver = \<lparr>inet_pton4 = Map.empty, inet_pton6 = Map.empty, getaddrinfo = (\<lambda>_. Map.empty)\<rparr>"

abbreviation "sample_dest \<equiv> \<lparr>sin6_family = AF_INET6, sin6_port = 0x5000, sin6_flowinfo = 0,
    sin6_addr = replicate 10 0 @ [0xff, 0xff] @ [192, 0, 2, 1], sin6_scope_id = 0\<rparr>"

definition sample_login :: "rx_ev list" where
  "sample_login = [RxData [5], RxAgain, RxData [1, 2, 1, 1, 97], RxData [1, 49, 5, 1, 0, 1, 192], RxData [0, 2, 1, 0, 80, 42]]"

lemma sample_server_facts:
  shows "clean (sample_server (AuthObj 64) sample_login (replicate 26 (TxOk 4)))"
    and "s5_calm (sample_server obj rx tx)" and "admits (sample_server (AuthObj 64) rx tx) [97] [49]"
    and "server_method (sample_server (AuthObj 64) rx tx) = 2"
    and "rx_bytes sample_login = client_says [2] 2 [97] [49] (IPv4 [192, 0, 2, 1] 0x5000) @ [42]"
    and "tx_room (replicate 26 (TxOk 4)) = 26"
    and "resolves sample_resolver (IPv4 [192, 0, 2, 1] 0x5000) sample_dest"
proof -
  have "rx_ready sample_login" "tx_ready (replicate 26 (TxOk 4))" by code_simp+
  then show "clean (sample_server (AuthObj 64) sample_login (replicate 26 (TxOk 4)))" by (simp add: clean_def sample_server_def)
  show "s5_calm (sample_server obj rx tx)" by (simp add: s5_calm_def sample_server_def)
  have "users_of sample_auth (Nd Black Lf 8 Lf) [97] = Some 8" "au_users sample_auth 8 = Some \<lparr>us_name = [97], us_pass = [49], us_ref = 1\<rparr>"
    "0 < au_ref sample_auth" by (simp_all add: users_of_def name_at_def sample_auth_def)
  with sample_auth_inv show "admits (sample_server (AuthObj 64) rx tx) [97] [49]"
    unfolding admits_def by (force simp: sample_server_def)
  show "server_method (sample_server (AuthObj 64) rx tx) = 2" by (simp add: server_method_def sample_server_def HEV_SOCKS5_AUTH_METHOD_USER_def)
  show "rx_bytes sample_login = client_says [2] 2 [97] [49] (IPv4 [192, 0, 2, 1] 0x5000) @ [42]" by code_simp
  show "tx_room (replicate 26 (TxOk 4)) = 26" by code_simp
  have "hev_socks5_addr_into_sockaddr6 sample_resolver (addr_encode (IPv4 [192, 0, 2, 1] 0x5000)) sa fam =
      (0, stale_in sa sample_dest, HEV_SOCKS5_ADDR_FAMILY_IPV4)" for sa fam
    using into_sockaddr6_encode(1)[of "[192, 0, 2, 1]" sample_resolver "0x5000" "[]" sa fam] by (cases sa) (simp add: stale_in_def)
  then show "resolves sample_resolver (IPv4 [192, 0, 2, 1] 0x5000) sample_dest"
    by (simp add: resolves_def del: addr_encode.simps)
qed

lemma sample_served:
  "\<exists>w'. hev_socks5_server_handshake sample_resolver (hev_socks5_server_class a b u)
     (sample_server (AuthObj 64) sample_login (replicate 26 (TxOk 4))) = Some (0, w')"
proof -
  let ?w = "sample_server (AuthObj 64) sample_login (replicate 26 (TxOk 4))"
  have f: "net_rx ?w = sample_login" "net_tx ?w = replicate 26 (TxOk 4)" "s5_sys ?w = [7, 0]" "sv_timeout ?w = -1"
    "conn_ready (net_conn ?w)" by (simp_all add: sample_server_def)
  show ?thesis
    by (rule handshake_goes[OF sample_server_facts(1-3), where methods = "[2]" and rest = "[42]" and fd = 7 and r = 0
          and sys = "[]" and a = a and b = b and u = u, OF _ _ _ _ sample_server_facts(7)])
      (use f sample_server_facts(4-6) in auto)
qed

theorem server_serves_known_users_witness:
  "\<exists>w' methods name pass. hev_socks5_server_handshake sample_resolver (hev_socks5_server_class None None (\<lambda>_ w. Some (0, w)))
     (sample_server (AuthObj 64) sample_login (replicate 26 (TxOk 4))) = Some (0, w') \<and>
     (\<exists>rest. [5, 1, 2, 1, 1, 97, 1, 49, 5, 1, 0, 1, 192, 0, 2, 1, 0, 80, 42] = greeting methods @ credentials name pass @ rest) \<and>
     holds_user 64 sample_auth (Nd Black Lf 8 Lf) name pass w'"
proof -
  let ?w = "sample_server (AuthObj 64) sample_login (replicate 26 (TxOk 4))"
  obtain w' where w': "hev_socks5_server_handshake sample_resolver (hev_socks5_server_class None None (\<lambda>_ w. Some (0, w))) ?w = Some (0, w')"
    using sample_served by blast
  have f: "rx_orderly (net_rx ?w)" "sv_obj ?w = AuthObj 64" "sv_heap ?w 64 = Some sample_auth" "0 < au_ref sample_auth"
    "rx_bytes (net_rx ?w) = [5, 1, 2, 1, 1, 97, 1, 49, 5, 1, 0, 1, 192, 0, 2, 1, 0, 80, 42]"
    by (simp_all add: sample_server_def sample_login_def sample_auth_def)
  from server_serves_known_users[OF w' f(1-3) sample_auth_inv f(4)] w' show ?thesis unfolding f(5) by blast
qed


lemma client_auth_bytes:
  assumes "cl_user c = Some name" and "cl_pass c = Some pass" and "length name < 256" and "length pass < 256"
  shows "auth_methods_bytes c = greeting [HEV_SOCKS5_AUTH_METHOD_USER]" and "auth_creds_bytes c = credentials name pass"
  using assms by (simp_all add: auth_methods_bytes_def has_creds_def greeting_def auth_creds_bytes_def auth_creds_iov_def
      credentials_def HEV_SOCKS5_AUTH_VERSION_1_def unat_nat)

text \<open>
  C29: Client and server of this code understand each other.  Take a TCP client with a name and a password, and
  a server whose authenticator knows them, with a destination that resolves and can be reached.  Let each
  side receive, in any segments and with any delays, what the other side is to send in the dialogue,
  followed by the data of the tunnelled connection.  Then both handshakes return success, each side has
  sent exactly what the other was assumed to receive, and each side finds exactly the tunnelled data next.
\<close>

theorem client_server_handshake:
  assumes "clean c" and "s5_calm c" and "s5_type c = HEV_SOCKS5_TYPE_TCP"
    and "ct_addr c = Some addr" and "addr_decode addr = Some e" and "cl_user c = Some name" and "cl_pass c = Some pass"
    and "clean s" and "s5_calm s" and "sv_obj s \<noteq> NoObj" and "admits s name pass" and "resolves R e dest"
    and "s5_sys s = fd # r # sys" and "0 \<le> fd" and "0 \<le> r" and "conn_ready (net_conn s)" and "sv_timeout s \<noteq> 0"
    and "rx_bytes (net_rx s) =
      client_says [HEV_SOCKS5_AUTH_METHOD_USER] HEV_SOCKS5_AUTH_METHOD_USER name pass e @ upload"
    and "rx_bytes (net_rx c) =
      auth_replies HEV_SOCKS5_AUTH_METHOD_USER @ response_bytes 0 (sock_endpoint dest) @ download"
    and "length (client_says [HEV_SOCKS5_AUTH_METHOD_USER] HEV_SOCKS5_AUTH_METHOD_USER name pass e) \<le> tx_room (net_tx c)"
    and "26 \<le> tx_room (net_tx s)"
  shows "\<exists>c' s'. hev_socks5_client_handshake False (hev_socks5_client_tcp_class bnd) c = Some (0, c') \<and>
     hev_socks5_server_handshake R (hev_socks5_server_class a b u) s = Some (0, s') \<and>
     net_out c' = net_out c @ client_says [HEV_SOCKS5_AUTH_METHOD_USER] HEV_SOCKS5_AUTH_METHOD_USER name pass e \<and>
     net_out s' = net_out s @ auth_replies HEV_SOCKS5_AUTH_METHOD_USER @ response_bytes 0 (sock_endpoint dest) \<and>
     rx_bytes (net_rx c') = download \<and> rx_bytes (net_rx s') = upload"
proof -
  have m: "server_method s = HEV_SOCKS5_AUTH_METHOD_USER" using assms(10) by (simp add: server_method_def)
  have len: "length name < 256" "length pass < 256" using assms(10,11) by (auto simp: admits_def)
  note ab = client_auth_bytes[OF assms(6,7) len]
  note rb = request_bytes_tcp[OF assms(3-5), of bnd]
  have says: "auth_methods_bytes c @ auth_creds_bytes c @ tcpc.request_bytes bnd c =
      client_says [HEV_SOCKS5_AUTH_METHOD_USER] HEV_SOCKS5_AUTH_METHOD_USER name pass e"
    using ab rb by (simp add: client_says_def)
  have room: "3 + length (auth_creds_bytes c) + length (tcpc.request_bytes bnd c) \<le> tx_room (net_tx c)"
    using assms(20) unfolding says[symmetric] by (simp add: auth_methods_bytes_def)
  have "0 \<le> hev_socks5_addr_len addr"
    using assms(5) by (cases rule: addr_decode_cases) (simp_all add: hev_socks5_addr_len_def proto_defs)
  then have "\<exists>c'. hev_socks5_client_handshake_standard (hev_socks5_client_tcp_class bnd) c = Some (0, c') \<and>
     rx_bytes (net_rx c') = download \<and> net_out c' = net_out c @ auth_methods_bytes c @
       (if HEV_SOCKS5_AUTH_METHOD_USER = HEV_SOCKS5_AUTH_METHOD_USER then auth_creds_bytes c else []) @ tcpc.request_bytes bnd c"
    using assms(3,4) room
    by (intro tcpc.standard_complete[OF assms(1,2) _ _ assms(19), where cmd = HEV_SOCKS5_REQ_CMD_CONNECT and addr = addr])
      (use assms(12) in \<open>simp_all add: known_method_def sock_endpoint_bound resolves_def\<close>)
  then obtain c' where c': "hev_socks5_client_handshake False (hev_socks5_client_tcp_class bnd) c = Some (0, c')"
    "rx_bytes (net_rx c') = download"
    "net_out c' = net_out c @ client_says [HEV_SOCKS5_AUTH_METHOD_USER] HEV_SOCKS5_AUTH_METHOD_USER name pass e"
    using says by (auto simp: hev_socks5_client_handshake_def)
  have rx: "rx_bytes (net_rx s) = client_says [server_method s] (server_method s) name pass e @ upload" using assms(18) m by simp
  obtain s' where s': "hev_socks5_server_handshake R (hev_socks5_server_class a b u) s = Some (0, s')"
    and g: "goes s (client_says [server_method s] (server_method s) name pass e)
      (auth_replies (server_method s) @ response_bytes 0 (sock_endpoint dest)) s'"
    by (rule handshake_goes[OF assms(8,9,11) _ _ rx assms(21,12-17), where a = a and b = b and u = u]) simp_all
  have "rx_bytes (net_rx s') = upload" using goesD(4)[OF g] assms(18) m by simp
  moreover have "net_out s' = net_out s @ auth_replies HEV_SOCKS5_AUTH_METHOD_USER @ response_bytes 0 (sock_endpoint dest)"
    using goes_moved[OF g] m by (simp add: moved_def)
  ultimately show ?thesis using c' s' by blast
qed

definition sample_member :: "rx_ev list \<Rightarrow> tx_ev list \<Rightarrow> HevSocks5ClientTCP" where
  "sample_member rx tx = hev_socks5_client_set_auth (Some [97]) (Some [49]) (sample_client rx tx)"

definition sample_grant :: "rx_ev list" where
  "sample_grant = [RxData [5, 2, 1], RxAgain, RxData [0, 5, 0, 0, 1, 192, 0], RxData [2, 1, 0, 80, 43]]"

theorem client_server_handshake_witness:
  "\<exists>c' s'. hev_socks5_client_handshake False (hev_socks5_client_tcp_class hev_socks5_bind)
       (sample_member sample_grant (replicate 26 (TxOk 4))) = Some (0, c') \<and>
     hev_socks5_server_handshake sample_resolver (hev_socks5_server_class None None (\<lambda>_ w. Some (0, w)))
       (sample_server (AuthObj 64) sample_login (replicate 26 (TxOk 4))) = Some (0, s') \<and>
     rx_bytes (net_rx c') = [43] \<and> rx_bytes (net_rx s') = [42]"
proof -
  let ?c = "sample_member sample_grant (replicate 26 (TxOk 4))"
  let ?s = "sample_server (AuthObj 64) sample_login (replicate 26 (TxOk 4))"
  let ?e = "IPv4 [192, 0, 2, 1] 0x5000"
  have c: "net_rx ?c = sample_grant" "net_tx ?c = replicate 26 (TxOk 4)" "s5_calm ?c" "s5_type ?c = HEV_SOCKS5_TYPE_TCP"
    "ct_addr ?c = Some (addr_encode ?e)" "cl_user ?c = Some [97]" "cl_pass ?c = Some [49]"
    using sample_client_simps unfolding sample_member_def hev_socks5_client_set_auth_def s5_calm_def by simp_all
  have r: "rx_ready sample_grant" "tx_ready (replicate 26 (TxOk 4))" by code_simp+
  then have cl: "clean ?c" by (simp add: clean_def c)
  have dec: "addr_decode (addr_encode ?e) = Some ?e" using addr_decode_encode[of ?e "[]"] by simp
  have s: "net_rx ?s = sample_login" "net_tx ?s = replicate 26 (TxOk 4)" "s5_sys ?s = [7, 0]" "sv_timeout ?s \<noteq> 0"
    "conn_ready (net_conn ?s)" "sv_obj ?s \<noteq> NoObj" by (simp_all add: sample_server_def)
  have "rx_bytes sample_grant = auth_replies HEV_SOCKS5_AUTH_METHOD_USER @ response_bytes 0 (sock_endpoint sample_dest) @ [43]"
    by code_simp
  moreover have "length (client_says [HEV_SOCKS5_AUTH_METHOD_USER] HEV_SOCKS5_AUTH_METHOD_USER [97] [49] ?e) \<le> 26" by code_simp
  moreover have "rx_bytes sample_login = client_says [HEV_SOCKS5_AUTH_METHOD_USER] HEV_SOCKS5_AUTH_METHOD_USER [97] [49] ?e @ [42]"
    using sample_server_facts(5) by (simp add: HEV_SOCKS5_AUTH_METHOD_USER_def)
  ultimately have "\<exists>c' s'. hev_socks5_client_handshake False (hev_socks5_client_tcp_class hev_socks5_bind) ?c = Some (0, c') \<and>
     hev_socks5_server_handshake sample_resolver (hev_socks5_server_class None None (\<lambda>_ w. Some (0, w))) ?s = Some (0, s') \<and>
     net_out c' = net_out ?c @ client_says [HEV_SOCKS5_AUTH_METHOD_USER] HEV_SOCKS5_AUTH_METHOD_USER [97] [49] ?e \<and>
     net_out s' = net_out ?s @ auth_replies HEV_SOCKS5_AUTH_METHOD_USER @ response_bytes 0 (sock_endpoint sample_dest) \<and>
     rx_bytes (net_rx c') = [43] \<and> rx_bytes (net_rx s') = [42]"
    using c s sample_server_facts(6)
    by (intro client_server_handshake[OF cl c(3-5) dec c(6,7) sample_server_facts(1,2) s(6) sample_server_facts(3,7) s(3)
          _ _ s(5,4)]) simp_all
  then show ?thesis by blast
qed


section \<open>Descriptors and references\<close>

definition fds_view :: "'a HevSocks5Server_scheme \<Rightarrow> int set \<times> int \<times> int \<times> int" where
  "fds_view w = (s5_open w, sv_fds0 w, sv_fds1 w, s5_fd w)"

text \<open>The object the server points to is alive.\<close>

definition objs_ok :: "'a HevSocks5Server_scheme \<Rightarrow> bool" where
  "objs_ok w \<longleftrightarrow> (case sv_obj w of NoObj \<Rightarrow> True
     | AuthObj p \<Rightarrow> \<exists>A t. sv_heap w p = Some A \<and> auth_inv A t \<and> 0 < au_ref A
     | UserObj p user \<Rightarrow> \<exists>A u. sv_heap w p = Some A \<and> au_users A user = Some u)"

lemma objs_ok_cong: "sv_obj w' = sv_obj w \<Longrightarrow> sv_heap w' = sv_heap w \<Longrightarrow> objs_ok w' = objs_ok w"
  by (simp add: objs_ok_def split: server_obj.splits)

definition kept :: "'a HevSocks5Server_scheme \<Rightarrow> 'a HevSocks5Server_scheme \<Rightarrow> bool" where
  "kept w w' \<longleftrightarrow> fds_view w' = fds_view w \<and> (objs_ok w \<longrightarrow> objs_ok w')"

lemma kept_trans: "kept w w' \<Longrightarrow> kept w' w'' \<Longrightarrow> kept w w''"
  by (simp add: kept_def)

lemma kept_refl [simp]: "kept w w"
  by (simp add: kept_def)

lemma kept_frame: "s5_frame w' = s5_frame w \<Longrightarrow> kept w w'"
  using server_frame[of w' w] s5_frameD[of w' w] objs_ok_cong[of w' w] by (simp add: kept_def fds_view_def)

lemma recv_stack_kept: "recv_stack k w = Some (x, y, w') \<Longrightarrow> kept w w'"
  by (auto simp: recv_stack_def intro!: kept_frame dest!: s5f.recv_view[OF _ refl] split: bind_splits)

lemma check_user_kept:
  assumes "check_user name pass w = Some (r, w')"
  shows "kept w w'"
proof (cases "objs_ok w")
  case False
  with assms show ?thesis
    by (auto simp: check_user_def kept_def fds_view_def auth_put_def split: server_obj.splits bind_splits if_splits)
next
  case True
  from assms obtain p where p: "sv_obj w = AuthObj p" by (auto simp: check_user_def split: server_obj.splits)
  with True obtain A t where A: "sv_heap w p = Some A" "auth_inv A t" "0 < au_ref A" by (auto simp: objs_ok_def)
  show ?thesis
  proof (cases "r = 0")
    case True
    with check_user_cases[OF p A, of name pass] assms have h: "holds_user p A t name pass w'"
      and w': "w' = w\<lparr>sv_obj := sv_obj w', sv_heap := sv_heap w'\<rparr>" by (auto split: if_splits)
    have "fds_view w' = fds_view w" by (subst w') (simp add: fds_view_def)
    with h show ?thesis by (auto simp: kept_def objs_ok_def holds_user_def)
  next
    case False
    with check_user_cases[OF p A, of name pass] assms show ?thesis by (auto split: if_splits)
  qed
qed

lemma auth_kept:
  assumes "hev_socks5_server_auth w = Some (res, w')"
  shows "kept w w'"
proof -
  have 1: "hev_socks5_server_read_auth_method v = Some (r, v') \<Longrightarrow> kept v v'" for v v' :: "'a HevSocks5Server_scheme" and r
    by (auto simp: hev_socks5_server_read_auth_method_def Let_def kept_def dest!: recv_stack_kept split: bind_splits if_splits)
  have 4: "hev_socks5_server_read_auth_user v = Some (r, v') \<Longrightarrow> kept v v'" for v v' :: "'a HevSocks5Server_scheme" and r
    by (auto simp: hev_socks5_server_read_auth_user_def Let_def kept_def
        dest!: recv_stack_kept check_user_kept split: bind_splits if_splits)
  have 2: "hev_socks5_server_write_auth_method m v = Some (r, v') \<Longrightarrow> kept v v'"
    "hev_socks5_server_write_auth_user m v = Some (r, v') \<Longrightarrow> kept v v'" for v v' :: "'a HevSocks5Server_scheme" and r m
    using writes_keep(1,2)[of m v r v'] kept_frame by auto
  show ?thesis
    using assms by (auto simp: hev_socks5_server_auth_def kept_def dest!: 1 2 4 split: bind_splits if_splits)
qed

lemma read_request_kept:
  assumes "hev_socks5_server_read_request R cmd rep addr w = Some (res, cmd', rep', addr', w')"
  shows "kept w w'"
proof -
  have fam: "kept v v' \<Longrightarrow> kept v (hev_socks5_set_addr_family f v')" for v v' :: "'a HevSocks5Server_scheme" and f
    using objs_ok_cong[of "hev_socks5_set_addr_family f v'" v']
    by (simp add: kept_def fds_view_def hev_socks5_set_addr_family_def)
  show ?thesis
    using assms by (auto simp: hev_socks5_server_read_request_def Let_def dest!: recv_stack_kept
        intro: kept_trans fam split: bind_splits if_splits prod.splits)
qed

text \<open>Every open descriptor is an old one or one that the destructor will close.\<close>

definition owns :: "int set \<Rightarrow> 'a HevSocks5Server_scheme \<Rightarrow> bool" where
  "owns S w \<longleftrightarrow> (\<forall>f\<in>s5_open w. f \<in> S \<or> 0 \<le> f \<and> (f = sv_fds0 w \<or> f = sv_fds1 w))"

lemma destruct_closes:
  assumes "objs_ok w" and "owns S w" and "0 \<le> s5_fd w"
  shows "\<exists>w'. hev_socks5_server_destruct w = Some w' \<and> s5_open w' \<subseteq> S - {s5_fd w}"
proof -
  define v where "v = (let v = (if 0 \<le> sv_fds0 w then sys_close (sv_fds0 w) w else w)
     in if 0 \<le> sv_fds1 v then sys_close (sv_fds1 v) v else v)"
  have v: "sv_obj v = sv_obj w" "sv_heap v = sv_heap w" "s5_fd v = s5_fd w" "s5_open v \<subseteq> S"
    using assms(2) by (auto simp: v_def owns_def sys_close_def Let_def)
  have "\<exists>v'. obj_unref v = Some v' \<and> s5_fd v' = s5_fd v \<and> s5_open v' = s5_open v" if "sv_obj v \<noteq> NoObj"
  proof (cases "sv_obj v")
    case (AuthObj p)
    with assms(1) v obtain A t where A: "sv_heap v p = Some A" "auth_inv A t" "0 < au_ref A"
      by (auto simp: objs_ok_def split: server_obj.splits)
    have "auth_inv (A\<lparr>au_ref := au_ref A - 1\<rparr>) t" using A(2) by (auto simp: auth_inv_def name_at_def[abs_def])
    from clear_users[OF this] have "\<exists>A'. authenticator_unref A = Some A'"
      by (auto simp: authenticator_unref_def hev_socks5_authenticator_destruct_def Let_def)
    with A AuthObj show ?thesis by (auto simp: obj_unref_def auth_live_def auth_put_def)
  next
    case (UserObj p user)
    with assms(1) v obtain A u where "sv_heap v p = Some A" "au_users A user = Some u"
      by (auto simp: objs_ok_def split: server_obj.splits)
    then show ?thesis using UserObj by (auto simp: obj_unref_def user_unref_def auth_put_def)
  qed (use that in simp)
  then obtain v' where v': "(if sv_obj v \<noteq> NoObj then obj_unref v else Some v) = Some v'"
    "s5_fd v' = s5_fd v" "s5_open v' = s5_open v" by (cases "sv_obj v = NoObj") auto
  then have "hev_socks5_server_destruct w = Some (hev_socks5_destruct v')"
    unfolding hev_socks5_server_destruct_def v_def Let_def by simp
  moreover have "s5_open (hev_socks5_destruct v') \<subseteq> S - {s5_fd w}"
    using v v' assms(3) by (auto simp: hev_socks5_destruct_def sys_close_def)
  ultimately show ?thesis by blast
qed


lemma socket_opens:
  assumes "hev_socks5_socket w = Some (fd, w')"
  shows "sv_fds0 w' = sv_fds0 w \<and> sv_fds1 w' = sv_fds1 w \<and> s5_fd w' = s5_fd w \<and>
    s5_open w' \<subseteq> (if fd < 0 then s5_open w else insert fd (s5_open w))"
  using assms by (auto simp: hev_socks5_socket_def sys_result_def sys_opened_def sys_close_def
      split: list.splits bind_splits if_splits)

lemma calls_open:
  shows "sys_result w = Some (r, w') \<Longrightarrow> fds_view w' = fds_view w"
    and "sys_getsockname w = Some (r, a, w') \<Longrightarrow> fds_view w' = fds_view w"
    and "hev_task_io_socket_connect hev_socks5_task_io_yielder w = Some (r, w') \<Longrightarrow> fds_view w' = fds_view w"
    and "hev_socks5_server_udp_bind fd sa w = Some (r, w') \<Longrightarrow> fds_view w' = fds_view w"
  subgoal by (auto simp: fds_view_def sys_result_def split: list.splits)
  subgoal by (auto simp: fds_view_def sys_getsockname_def split: list.splits)
  subgoal using kept_frame[of w' w] s5f.connect_view[OF _ refl, of w r w'] by (auto simp: kept_def)
  subgoal by (auto simp: hev_socks5_server_udp_bind_def fds_view_def sys_getsockname_def sys_result_def
      split: list.splits bind_splits if_splits)
  done

lemma connect_owns:
  assumes "hev_socks5_server_connect (hev_socks5_server_class a b u) addr w = Some (res, w')"
    and "sv_fds0 w = -1" and "sv_fds1 w = -1" and "s5_open w \<subseteq> S"
  shows "owns S w' \<and> s5_fd w' = s5_fd w"
proof -
  obtain fd w1 where 1: "hev_socks5_socket w = Some (fd, w1)"
    using assms(1) by (auto simp: hev_socks5_server_connect_def split: bind_splits)
  note o = socket_opens[OF 1]
  show ?thesis
  proof (cases "fd < 0")
    case True
    with assms 1 o show ?thesis by (auto simp: hev_socks5_server_connect_def owns_def)
  next
    case False
    with assms(1) 1 obtain r w2 where 2: "hev_task_io_socket_connect hev_socks5_task_io_yielder
        (hev_socks5_set_timeout (sv_timeout w1) w1) = Some (r, w2)"
      and w': "w' = (if r < 0 then sys_close fd (hev_socks5_set_timeout (s5_timeout w1) w2)
        else (hev_socks5_set_timeout (s5_timeout w1) w2)\<lparr>sv_fds0 := fd\<rparr>)"
      by (auto simp: hev_socks5_server_connect_def hev_socks5_server_class_def hev_socks5_bind_def
          hev_socks5_get_timeout_def Let_def split: bind_splits if_splits)
    have "s5_open w2 \<subseteq> insert fd S" "s5_fd w2 = s5_fd w" "0 \<le> fd"
      using calls_open(3)[OF 2] o False assms(4) by (auto simp: fds_view_def hev_socks5_set_timeout_def)
    then show ?thesis by (auto simp: w' owns_def sys_close_def hev_socks5_set_timeout_def)
  qed
qed

lemma bind_owns:
  assumes "hev_socks5_server_bind (hev_socks5_server_class a b u) addr w = Some (res, addr', w')"
    and "sv_fds0 w = -1" and "sv_fds1 w = -1" and "s5_open w \<subseteq> S"
  shows "owns S w' \<and> s5_fd w' = s5_fd w"
proof -
  obtain fd w1 where 1: "hev_socks5_socket w = Some (fd, w1)"
    using assms(1) by (auto simp: hev_socks5_server_bind_def split: bind_splits)
  note o = socket_opens[OF 1]
  have own1: "owns S (w1\<lparr>sv_fds0 := fd\<rparr>) \<and> s5_fd w1 = s5_fd w" if "0 \<le> fd"
    using o that assms(4) by (auto simp: owns_def)
  show ?thesis
  proof (cases "fd < 0 \<or> addr = None")
    case True
    with assms 1 o own1 show ?thesis by (auto simp: hev_socks5_server_bind_def owns_def split: if_splits)
  next
    case False
    then obtain sa where fd: "0 \<le> fd" "addr = Some sa" by auto
    with assms(1) 1 obtain fd2 w2 where 2: "hev_socks5_socket (w1\<lparr>sv_fds0 := fd\<rparr>) = Some (fd2, w2)"
      by (auto simp: hev_socks5_server_bind_def split: bind_splits)
    note o2 = socket_opens[OF 2]
    have w2: "s5_open w2 \<subseteq> (if fd2 < 0 then insert fd S else insert fd (insert fd2 S))" "sv_fds0 w2 = fd" "s5_fd w2 = s5_fd w"
      using o o2 fd assms(4) by (auto split: if_splits)
    have failed: "owns S (sys_close fd2 v) \<and> s5_fd (sys_close fd2 v) = s5_fd w" if "fds_view v = fds_view w2" for v
      using that w2 fd by (auto simp: owns_def fds_view_def sys_close_def split: if_splits)
    have finished: "owns S (v\<lparr>sv_fds1 := fd2\<rparr>) \<and> s5_fd v = s5_fd w" if "fds_view v = fds_view w2" "\<not> fd2 < 0" for v
      using that w2 fd by (auto simp: owns_def fds_view_def)
    have "owns S w2" if "fd2 < 0" using that w2 fd by (auto simp: owns_def)
    then show ?thesis
      using assms(1) 1 2 fd w2(3)
      by (auto simp: hev_socks5_server_bind_def hev_socks5_server_class_def failed finished
          dest!: calls_open(1,2,4) split: bind_splits if_splits)
  qed
qed

lemma command_owns:
  assumes "server_command (hev_socks5_server_class a b u) cmd addr w = Some (rep, addr', w')"
    and "sv_fds0 w = -1" and "sv_fds1 w = -1" and "s5_open w \<subseteq> S"
  shows "owns S w' \<and> s5_fd w' = s5_fd w"
proof -
  have ty: "owns S (v\<lparr>s5_type := ty\<rparr>) = owns S v" for v :: "'a HevSocks5Server_scheme" and ty by (simp add: owns_def)
  have "owns S w" using assms(4) by (auto simp: owns_def)
  with assms show ?thesis
    by (auto simp: server_command_def ty dest!: connect_owns[OF _ assms(2-4)] bind_owns[OF _ assms(2-4)] split: bind_splits if_splits)
qed

text \<open>
  C30: A session gives back what it took.  Whatever the outcome of the handshake (refused, failed at any step,
  or granted), destroying the server object afterwards never touches a freed object, and of the descriptors
  open then only those remain that were open before the handshake, without the connection to the client.
\<close>

theorem server_gives_back:
  assumes "hev_socks5_server_handshake R (hev_socks5_server_class a b u) w = Some (res, w')"
    and "objs_ok w" and "sv_fds0 w = -1" and "sv_fds1 w = -1" and "0 \<le> s5_fd w"
  shows "\<exists>w''. hev_socks5_server_destruct w' = Some w'' \<and> s5_open w'' \<subseteq> s5_open w - {s5_fd w}"
proof -
  have start: "owns (s5_open w) v" if "fds_view v = fds_view w" for v :: "'a HevSocks5Server_scheme"
    using that by (auto simp: owns_def fds_view_def)
  have keep: "owns S v' = owns S v" if "fds_view v' = fds_view v" for S and v v' :: "'a HevSocks5Server_scheme"
    using that by (simp add: owns_def fds_view_def)
  have "owns (s5_open w) w' \<and> s5_fd w' = s5_fd w \<and> objs_ok w'"
  proof -
    obtain r1 w1 where 1: "hev_socks5_server_auth w = Some (r1, w1)"
      using assms(1) by (auto simp: hev_socks5_server_handshake_def split: bind_splits)
    note k1 = auth_kept[OF 1]
    show ?thesis
    proof (cases "r1 < 0")
      case True
      with assms(1) 1 have "w' = w1" by (simp add: hev_socks5_server_handshake_def)
      with k1 start[of w1] assms(2) show ?thesis by (auto simp: kept_def fds_view_def)
    next
      case False
      with assms(1) 1 obtain r2 cmd rep dest w2 where
        2: "hev_socks5_server_read_request R (net_junk w1 0) HEV_SOCKS5_RES_REP_SUCC
         (stack_sockaddr w1) w1 = Some (r2, cmd, rep, dest, w2)"
        by (auto simp: hev_socks5_server_handshake_def split: bind_splits)
      note k2 = kept_trans[OF k1 read_request_kept[OF 2]]
      then have w2: "fds_view w2 = fds_view w" "objs_ok w2" using assms(2) by (auto simp: kept_def)
      have c: "owns (s5_open w) v \<and> s5_fd v = s5_fd w \<and> objs_ok v"
        if "(if rep = HEV_SOCKS5_RES_REP_SUCC then server_command (hev_socks5_server_class a b u) cmd dest w2
             else Some (rep, dest, w2)) = Some (rep', dest', v)" for rep' dest' v
        using that w2 start[OF w2(1)] command_owns[of a b u cmd dest w2 rep' dest' v "s5_open w"] assms(3,4)
          command_keeps[of a b u cmd dest w2 rep' dest' v] objs_ok_cong[of v w2]
        by (auto simp: fds_view_def sv_objs_def split: if_splits)
      show ?thesis
      proof (cases "r2 < 0")
        case True
        with assms(1) 1 2 False have "w' = w2" by (simp add: hev_socks5_server_handshake_def)
        with w2 start[OF w2(1)] show ?thesis by (auto simp: fds_view_def)
      next
        case r2: False
        with assms(1) 1 2 False obtain rep' dest' w3 r4 where
          3: "(if rep = HEV_SOCKS5_RES_REP_SUCC then server_command (hev_socks5_server_class a b u) cmd dest w2
             else Some (rep, dest, w2)) = Some (rep', dest', w3)"
          and 4: "hev_socks5_server_write_response rep' dest' w3 = Some (r4, w')"
          by (auto simp: hev_socks5_server_handshake_def split: bind_splits if_splits)
        have "kept w3 w'" using writes_keep(3)[OF 4] kept_frame by auto
        with c[OF 3] keep[of w' w3 "s5_open w"] show ?thesis by (auto simp: kept_def fds_view_def)
      qed
    qed
  qed
  then show ?thesis using destruct_closes[of w' "s5_open w"] assms(5) by auto
qed


theorem server_gives_back_witness:
  "\<exists>w' w''. hev_socks5_server_handshake sample_resolver (hev_socks5_server_class None None (\<lambda>_ w. Some (0, w)))
     (sample_server (AuthObj 64) sample_login (replicate 26 (TxOk 4))) = Some (0, w') \<and>
   hev_socks5_server_destruct w' = Some w'' \<and> s5_open w'' = {}"
proof -
  let ?w = "sample_server (AuthObj 64) sample_login (replicate 26 (TxOk 4))"
  obtain w' where w': "hev_socks5_server_handshake sample_resolver (hev_socks5_server_class None None (\<lambda>_ w. Some (0, w))) ?w = Some (0, w')"
    using sample_served by blast
  have "0 < au_ref sample_auth" by (simp add: sample_auth_def)
  then have "objs_ok ?w" using sample_auth_inv by (auto simp: objs_ok_def sample_server_def)
  from server_gives_back[OF w' this] w' show ?thesis by (simp add: sample_server_def)
qed

text \<open>
  C31: A refused request is answered with memory that was never written.  The handshake sends the address
  variable of its own frame in the response; when the request is rejected before an address is read
  (here: a wrong version number), nothing has been stored in that variable, so 18 bytes of the
  stack (or 6, if they happen to look like a mapped IPv4 address) go to the client.
\<close>

theorem rejected_request_sends_stack:
  assumes "clean w" and "s5_calm w" and "sv_obj w = NoObj" and "length methods < 256"
    and "HEV_SOCKS5_AUTH_METHOD_NONE \<in> set methods" and "v \<noteq> HEV_SOCKS5_VERSION_5"
    and "rx_bytes (net_rx w) = greeting methods @ [v, x1, x2, x3, x4] @ rest" and "24 \<le> tx_room (net_tx w)"
  shows "\<exists>w'. hev_socks5_server_handshake R klass w = Some (-1, w') \<and>
     net_out w' = net_out w @ [HEV_SOCKS5_VERSION_5, HEV_SOCKS5_AUTH_METHOD_NONE] @
       [HEV_SOCKS5_VERSION_5, HEV_SOCKS5_RES_REP_FAIL, 0] @
       addr_encode (sock_endpoint (stack_sockaddr w))"
proof -
  have m: "server_method w = HEV_SOCKS5_AUTH_METHOD_NONE" using assms(3) by (simp add: server_method_def)
  have adm: "admits w [] []" using assms(3) by (simp add: admits_def)
  have rx: "rx_bytes (net_rx w) = greeting methods @
      (if server_method w = HEV_SOCKS5_AUTH_METHOD_USER then credentials [] [] else []) @ [v, x1, x2, x3, x4] @ rest"
    using assms(7) m by simp
  obtain w1 where 1: "hev_socks5_server_auth w = Some (0, w1)" and g1: "goes w (greeting methods) [HEV_SOCKS5_VERSION_5, HEV_SOCKS5_AUTH_METHOD_NONE] w1"
    by (rule auth_goes[OF assms(1,2) adm rx assms(4)]) (use assms(5,8) m in \<open>simp_all add: auth_replies_def\<close>)
  have rx1: "rx_bytes (net_rx w1) = [v, x1, x2, x3, x4] @ rest" using goesD(4)[OF g1] assms(7) by simp
  obtain w2 where 2: "recv_stack 5 w1 = Some (5, [v, x1, x2, x3, x4], w2)" and g2: "goes w1 [v, x1, x2, x3, x4] [] w2"
    by (rule recv_goes[OF goesD(1,2)[OF g1] rx1]) (auto simp: eval_nat_numeral)
  let ?sa = "stack_sockaddr w"
  let ?bs = "[HEV_SOCKS5_VERSION_5, HEV_SOCKS5_RES_REP_FAIL, 0] @ addr_encode (sock_endpoint ?sa)"
  have sa: "length (sin6_addr ?sa) = 16" by simp
  have "net_junk w1 = net_junk w" using auth_still[OF 1] by (simp add: still_def)
  then have st: "stack_sockaddr w1 = stack_sockaddr w" by (simp add: stack_sockaddr_def stack_mem_def)
  have "length ?bs \<le> 22" using sa by (simp add: sock_endpoint_def)
  then have room: "length ?bs \<le> tx_room (net_tx w2)" using goesD(3)[OF goes_trans[OF g1 g2]] assms(8) by simp
  obtain w3 where 3: "hev_task_io_socket_send hev_socks5_task_io_yielder True ?bs 0 w2 = Some (int (length ?bs), w3)"
    and g3: "goes w2 [] ?bs w3" by (rule send_goes[OF goesD(1,2)[OF g2] room]) simp_all
  have "hev_socks5_server_read_request R c rep ?sa w1 = Some (0, c, HEV_SOCKS5_RES_REP_FAIL, ?sa, w2)" for c rep
    using 2 assms(6) by (simp add: hev_socks5_server_read_request_def)
  moreover have "hev_socks5_server_write_response HEV_SOCKS5_RES_REP_FAIL ?sa w2 = Some (0, w3)"
    using 3 response_wire[OF sa, of HEV_SOCKS5_RES_REP_FAIL w2] by simp
  ultimately have "hev_socks5_server_handshake R klass w = Some (-1, w3)"
    using 1 st by (simp add: hev_socks5_server_handshake_def HEV_SOCKS5_RES_REP_FAIL_def HEV_SOCKS5_RES_REP_SUCC_def)
  with goes_moved[OF goes_trans[OF goes_trans[OF g1 g2] g3]] show ?thesis by (simp add: moved_def)
qed

theorem rejected_request_sends_stack_witness:
  "\<exists>w'. hev_socks5_server_handshake sample_resolver (hev_socks5_server_class None None (\<lambda>_ w. Some (0, w)))
     (sample_server NoObj [RxData [5, 1, 0, 4, 1, 0], RxData [1, 0]] (replicate 24 (TxOk 4))) = Some (-1, w') \<and>
   net_out w' = [5, 0, 5, 1, 0, 4, 8, 9, 10, 11, 12, 13, 14, 15, 16, 17, 18, 19, 20, 21, 22, 23, 2, 3]"
proof -
  let ?w = "sample_server NoObj [RxData [5, 1, 0, 4, 1, 0], RxData [1, 0]] (replicate 24 (TxOk 4))"
  have "rx_ready [RxData [5, 1, 0, 4, 1, 0], RxData [1, 0]]" "tx_ready (replicate 24 (TxOk 4))" by code_simp+
  then have cl: "clean ?w" by (simp add: clean_def sample_server_def)
  have f: "sv_obj ?w = NoObj" "4 \<noteq> HEV_SOCKS5_VERSION_5" "HEV_SOCKS5_AUTH_METHOD_NONE \<in> set [0]"
    "rx_bytes (net_rx ?w) = greeting [0] @ [4, 1, 0, 1, 0] @ []" "24 \<le> tx_room (net_tx ?w)"
    by (simp_all add: sample_server_def greeting_def proto_defs numeral_eq_Suc)
  have out: "net_out ?w @ [HEV_SOCKS5_VERSION_5, HEV_SOCKS5_AUTH_METHOD_NONE] @ [HEV_SOCKS5_VERSION_5, HEV_SOCKS5_RES_REP_FAIL, 0] @
      addr_encode (sock_endpoint (stack_sockaddr ?w)) =
      [5, 0, 5, 1, 0, 4, 8, 9, 10, 11, 12, 13, 14, 15, 16, 17, 18, 19, 20, 21, 22, 23, 2, 3]" by code_simp
  have "length [0 :: byte] < 256" by simp
  from rejected_request_sends_stack[OF cl sample_server_facts(2) f(1) this f(3,2,4,5)] show ?thesis unfolding out .
qed

end
