(* ===== verification/Node_List.thy ===== *)
theory Node_List
  imports Prelude
begin

text \<open>
  The intrusive doubly linked list of \<open>misc/hev-list.c\<close>: nodes in memory by address, and the sequence of
  addresses that a list in memory represents.
\<close>

section \<open>hev-list.c\<close>

record HevListNode =
  ln_next :: u64
  ln_prev :: u64

text \<open>The memory of the nodes comes with the list; an address without a node is not allocated.\<close>

record HevList =
  ls_head :: u64
  ls_tail :: u64
  ls_mem :: "u64 \<Rightarrow> HevListNode option"

definition list_wr :: "(HevListNode \<Rightarrow> HevListNode) \<Rightarrow> u64 \<Rightarrow> HevList \<Rightarrow> HevList option" where
  "list_wr f p self = do {
     n \<leftarrow> ls_mem self p;
     Some (self\<lparr>ls_mem := (ls_mem self)(p \<mapsto> f n)\<rparr>) }"

definition hev_list_node_prev :: "u64 \<Rightarrow> HevList \<Rightarrow> u64 option" where
  "hev_list_node_prev node self = map_option ln_prev (ls_mem self node)"

definition hev_list_node_next :: "u64 \<Rightarrow> HevList \<Rightarrow> u64 option" where
  "hev_list_node_next node self = map_option ln_next (ls_mem self node)"

definition hev_list_first :: "HevList \<Rightarrow> u64" where
  "hev_list_first self = ls_head self"

definition hev_list_last :: "HevList \<Rightarrow> u64" where
  "hev_list_last self = ls_tail self"

definition hev_list_add_tail :: "u64 \<Rightarrow> HevList \<Rightarrow> HevList option" where
  "hev_list_add_tail new self = do {
     self \<leftarrow> list_wr (ln_prev_update (\<lambda>_. ls_tail self)) new self;
     self \<leftarrow> list_wr (ln_next_update (\<lambda>_. 0)) new self;
     self \<leftarrow> (if ls_tail self \<noteq> 0 then list_wr (ln_next_update (\<lambda>_. new)) (ls_tail self) self
              else Some (self\<lparr>ls_head := new\<rparr>));
     Some (self\<lparr>ls_tail := new\<rparr>) }"

definition hev_list_del :: "u64 \<Rightarrow> HevList \<Rightarrow> HevList option" where
  "hev_list_del node self = do {
     prev \<leftarrow> hev_list_node_prev node self;
     next \<leftarrow> hev_list_node_next node self;
     self \<leftarrow> (if prev \<noteq> 0 then list_wr (ln_next_update (\<lambda>_. next)) prev self
              else Some (self\<lparr>ls_head := next\<rparr>));
     next \<leftarrow> hev_list_node_next node self;
     prev \<leftarrow> hev_list_node_prev node self;
     (if next \<noteq> 0 then list_wr (ln_prev_update (\<lambda>_. prev)) next self
      else Some (self\<lparr>ls_tail := prev\<rparr>)) }"

section \<open>The sequence a list represents\<close>

definition hd0 :: "u64 list \<Rightarrow> u64 \<Rightarrow> u64" where
  "hd0 xs n = (case xs of [] \<Rightarrow> n | x # _ \<Rightarrow> x)"

definition last0 :: "u64 \<Rightarrow> u64 list \<Rightarrow> u64" where
  "last0 p xs = (if xs = [] then p else last xs)"

text \<open>The nodes \<open>xs\<close>, linked to each other, after \<open>p\<close> and before \<open>n\<close>.\<close>

fun seg :: "(u64 \<Rightarrow> HevListNode option) \<Rightarrow> u64 \<Rightarrow> u64 list \<Rightarrow> u64 \<Rightarrow> bool" where
  "seg m p [] n = True"
| "seg m p (x # xs) n = (x \<noteq> 0 \<and> m x = Some \<lparr>ln_next = hd0 xs n, ln_prev = p\<rparr> \<and> seg m x xs n)"

definition list_rep :: "HevList \<Rightarrow> u64 list \<Rightarrow> bool" where
  "list_rep self xs \<longleftrightarrow> seg (ls_mem self) 0 xs 0 \<and> distinct xs \<and> ls_head self = hd0 xs 0 \<and> ls_tail self = last0 0 xs"

lemma hd0_simps [simp]: "hd0 [] n = n" "hd0 (x # xs) n = x" "hd0 (xs @ ys) n = hd0 xs (hd0 ys n)"
  by (auto simp: hd0_def split: list.splits)

lemma last0_simps [simp]: "last0 p [] = p" "last0 p (x # xs) = last0 x xs" "last0 p (xs @ ys) = last0 (last0 p xs) ys"
  by (auto simp: last0_def)

lemma seg_append [simp]: "seg m p (xs @ ys) n \<longleftrightarrow> seg m p xs (hd0 ys n) \<and> seg m (last0 p xs) ys n"
  by (induction xs arbitrary: p) auto

lemma seg_upd [simp]: "x \<notin> set xs \<Longrightarrow> seg (m(x := v)) p xs n = seg m p xs n"
  by (induction xs arbitrary: p) auto

lemma seg_node: "seg m p xs n \<Longrightarrow> x \<in> set xs \<Longrightarrow> x \<noteq> 0 \<and> m x \<noteq> None"
  by (induction xs arbitrary: p) auto

lemma list_rep_node: "list_rep self xs \<Longrightarrow> x \<in> set xs \<Longrightarrow> x \<noteq> 0 \<and> ls_mem self x \<noteq> None"
  using seg_node[of "ls_mem self" 0 xs 0 x] by (auto simp: list_rep_def)

lemma snoc_cases: "xs = [] \<or> (\<exists>ys y. xs = ys @ [y])"
  by (metis rev_exhaust)

lemma list_add_tail_rep:
  assumes "list_rep self xs" and "x \<noteq> 0" and "x \<notin> set xs" and "ls_mem self x \<noteq> None"
  shows "\<exists>self'. hev_list_add_tail x self = Some self' \<and> list_rep self' (xs @ [x]) \<and> dom (ls_mem self') = dom (ls_mem self)"
proof -
  obtain n where n: "ls_mem self x = Some n" using assms(4) by auto
  consider "xs = []" | ys y where "xs = ys @ [y]" using snoc_cases by blast
  then show ?thesis
  proof cases
    case 1
    then show ?thesis using assms n by (auto simp: hev_list_add_tail_def list_wr_def list_rep_def)
  next
    case 2
    have y: "y \<noteq> 0" "y \<noteq> x" "y \<notin> set ys" "ls_tail self = y" and
      my: "ls_mem self y = Some \<lparr>ln_next = 0, ln_prev = last0 0 ys\<rparr>" using assms(1,3) 2 by (auto simp: list_rep_def)
    show ?thesis using assms n 2 y my by (auto simp: hev_list_add_tail_def list_wr_def list_rep_def)
  qed
qed

lemma list_del_rep:
  assumes "list_rep self (xs @ x # ys)"
  shows "\<exists>self'. hev_list_del x self = Some self' \<and> list_rep self' (xs @ ys) \<and> dom (ls_mem self') = dom (ls_mem self)"
proof -
  have d: "distinct xs" "distinct ys" "x \<notin> set xs" "x \<notin> set ys" "set xs \<inter> set ys = {}"
    and s: "seg (ls_mem self) 0 xs x" "x \<noteq> 0" "ls_mem self x = Some \<lparr>ln_next = hd0 ys 0, ln_prev = last0 0 xs\<rparr>"
      "seg (ls_mem self) x ys 0"
    and ht: "ls_head self = hd0 xs x" "ls_tail self = last0 x ys" using assms by (auto simp: list_rep_def)
  consider "xs = []" | as a where "xs = as @ [a]" using snoc_cases by blast
  then show ?thesis
  proof cases
    case 1
    show ?thesis
    proof (cases ys)
      case Nil
      then show ?thesis using 1 d s ht
        by (auto simp: hev_list_del_def hev_list_node_prev_def hev_list_node_next_def list_wr_def list_rep_def)
    next
      case (Cons b bs)
      then have "ls_mem self b = Some \<lparr>ln_next = hd0 bs 0, ln_prev = x\<rparr>" "b \<noteq> 0" "b \<noteq> x" using s(4) d by auto
      then show ?thesis using 1 Cons d s ht
        by (auto simp: hev_list_del_def hev_list_node_prev_def hev_list_node_next_def list_wr_def list_rep_def)
    qed
  next
    case 2
    then have a: "ls_mem self a = Some \<lparr>ln_next = x, ln_prev = last0 0 as\<rparr>" "a \<noteq> 0" "a \<noteq> x" using s(1) d by auto
    show ?thesis
    proof (cases ys)
      case Nil
      then show ?thesis using 2 a d s ht
        by (auto simp: hev_list_del_def hev_list_node_prev_def hev_list_node_next_def list_wr_def list_rep_def)
    next
      case (Cons b bs)
      then have "ls_mem self b = Some \<lparr>ln_next = hd0 bs 0, ln_prev = x\<rparr>" "b \<noteq> 0" "b \<noteq> x" "a \<noteq> b" using s(4) d 2 by auto
      then show ?thesis using 2 a Cons d s ht
        by (auto simp: hev_list_del_def hev_list_node_prev_def hev_list_node_next_def list_wr_def list_rep_def)
    qed
  qed
qed

lemma list_del_rep_remove1:
  assumes "list_rep self xs" and "x \<in> set xs"
  shows "\<exists>self'. hev_list_del x self = Some self' \<and> list_rep self' (remove1 x xs) \<and> dom (ls_mem self') = dom (ls_mem self)"
proof -
  obtain as bs where xs: "xs = as @ x # bs" "x \<notin> set as" using split_list_first[OF assms(2)] by blast
  with list_del_rep[of self as x bs] assms(1) show ?thesis by (auto simp: remove1_append)
qed

lemma list_ends:
  assumes "list_rep self xs"
  shows "hev_list_first self = hd0 xs 0" and "hev_list_last self = last0 0 xs"
  using assms by (simp_all add: list_rep_def hev_list_first_def hev_list_last_def)

lemma list_next:
  assumes "list_rep self (xs @ x # ys)"
  shows "hev_list_node_next x self = Some (hd0 ys 0)" and "hev_list_node_prev x self = Some (last0 0 xs)"
  using assms by (simp_all add: list_rep_def hev_list_node_next_def hev_list_node_prev_def)

lemma list_rep_mem_other:
  assumes "list_rep self xs" and "x \<notin> set xs"
  shows "list_rep (self\<lparr>ls_mem := (ls_mem self)(x := v)\<rparr>) xs"
  using assms by (simp add: list_rep_def)

end
