(* ===== verification/Mapped_DNS.thy ===== *)
theory Mapped_DNS
  imports RBTree_Search Node_List Socks5_Base
begin

text \<open>
  The mapped DNS of the tunnel (\<open>hev-mapped-dns.c\<close>): a cache that gives every host name that is asked for an
  address of a private network, so that a later connection to that address can be made by name.  Names are
  found through a red-black tree, addresses through an array, and the least recently used name gives way
  when the cache is full.
\<close>

section \<open>hev-mapped-dns.c: the cache\<close>

text \<open>
  A node is identified with its address: the tree node and the list node are parts of it
  (\<open>container_of\<close>), and \<open>md_nodes\<close> knows the nodes that are allocated.  \<open>md_heap\<close> is environment, the
  addresses that the allocator returns next.  It may return the address of a node that was freed, but
  not that of a live one: an entry 0 or one that is in use stands for exhausted memory.  Copying the
  name is taken to succeed.
\<close>

record HevMappedDNSNode =
  dn_name :: "byte list"
  dn_idx :: int

record HevMappedDNS =
  md_use :: int
  md_max :: int
  md_net :: int
  md_mask :: int
  md_list :: HevList
  md_tree :: HevRBTree
  md_records :: "u64 list"
  md_nodes :: "u64 \<Rightarrow> HevMappedDNSNode option"
  md_heap :: "u64 list"

definition hev_mapped_dns_construct :: "int \<Rightarrow> int \<Rightarrow> int \<Rightarrow> HevMappedDNS \<Rightarrow> int \<times> HevMappedDNS" where
  "hev_mapped_dns_construct net msk cap self =
     (if cap > NOT msk then (-1, self)
      else (0, self\<lparr>md_max := cap, md_net := net, md_mask := msk\<rparr>))"

text \<open>The object comes zeroed from the allocator, with room for \<open>cap\<close> records.\<close>

definition hev_mapped_dns_new :: "bool \<Rightarrow> u64 list \<Rightarrow> int \<Rightarrow> int \<Rightarrow> int \<Rightarrow> HevMappedDNS option" where
  "hev_mapped_dns_new alloc heap net msk cap =
     (if \<not> alloc then None
      else case hev_mapped_dns_construct net msk cap
          \<lparr>md_use = 0, md_max = 0, md_net = 0, md_mask = 0, md_list = \<lparr>ls_head = 0, ls_tail = 0, ls_mem = Map.empty\<rparr>,
           md_tree = \<lparr>rt_root = 0, rt_mem = Map.empty\<rparr>, md_records = replicate (nat cap) 0, md_nodes = Map.empty,
           md_heap = heap\<rparr> of (res, self) \<Rightarrow>
        if res < 0 then None else Some self)"

definition hev_mapped_dns_node_alloc :: "byte list \<Rightarrow> HevMappedDNS \<Rightarrow> u64 \<times> HevMappedDNS" where
  "hev_mapped_dns_node_alloc name self =
     (case md_heap self of
        [] \<Rightarrow> (0, self)
      | p # ps \<Rightarrow>
          if p = 0 \<or> md_nodes self p \<noteq> None then (0, self\<lparr>md_heap := ps\<rparr>)
          else (p, self\<lparr>md_heap := ps,
            md_nodes := (md_nodes self)(p \<mapsto> \<lparr>dn_name = name, dn_idx = 0\<rparr>),
            md_tree := (md_tree self)\<lparr>rt_mem := (rt_mem (md_tree self))(p \<mapsto> \<lparr>rn_pc = 0, rn_right = 0, rn_left = 0\<rparr>)\<rparr>,
            md_list := (md_list self)\<lparr>ls_mem := (ls_mem (md_list self))(p \<mapsto> \<lparr>ln_next = 0, ln_prev = 0\<rparr>)\<rparr>\<rparr>))"

text \<open>Freeing takes the memory of the node away; freeing what is not allocated is an error (\<^const>\<open>None\<close>).\<close>

definition dns_forget :: "u64 \<Rightarrow> HevMappedDNS \<Rightarrow> HevMappedDNS" where
  "dns_forget p self =
     self\<lparr>md_nodes := (md_nodes self)(p := None),
          md_tree := (md_tree self)\<lparr>rt_mem := (rt_mem (md_tree self))(p := None)\<rparr>,
          md_list := (md_list self)\<lparr>ls_mem := (ls_mem (md_list self))(p := None)\<rparr>\<rparr>"

definition hev_mapped_dns_node_free :: "u64 \<Rightarrow> HevMappedDNS \<Rightarrow> HevMappedDNS option" where
  "hev_mapped_dns_node_free p self =
     (case md_nodes self p of None \<Rightarrow> None | Some node \<Rightarrow> Some (dns_forget p self))"

definition dns_cmp :: "byte list \<Rightarrow> HevMappedDNS \<Rightarrow> u64 \<Rightarrow> int option" where
  "dns_cmp name self p = map_option (\<lambda>node. strcmp (dn_name node) name) (md_nodes self p)"

text \<open>A node that was used becomes the last of the list.\<close>

definition dns_touch :: "u64 \<Rightarrow> HevMappedDNS \<Rightarrow> HevMappedDNS option" where
  "dns_touch node self = do {
     list \<leftarrow> hev_list_del node (md_list self);
     list \<leftarrow> hev_list_add_tail node list;
     Some (self\<lparr>md_list := list\<rparr>) }"

text \<open>The index for a new node: the next unused one, or that of the least recently used node, which is removed.\<close>

definition dns_evict :: "HevMappedDNS \<Rightarrow> (int \<times> HevMappedDNS) option" where
  "dns_evict self =
     (if md_use self < md_max self then Some (md_use self, self\<lparr>md_use := md_use self + 1\<rparr>)
      else do {
        let nf = hev_list_first (md_list self);
        node \<leftarrow> md_nodes self nf;
        tree \<leftarrow> hev_rbtree_erase nf (md_tree self);
        list \<leftarrow> hev_list_del nf (md_list self);
        self \<leftarrow> hev_mapped_dns_node_free nf (self\<lparr>md_tree := tree, md_list := list\<rparr>);
        Some (dn_idx node, self) })"

definition dns_record :: "int \<Rightarrow> u64 \<Rightarrow> HevMappedDNS \<Rightarrow> (int \<times> HevMappedDNS) option" where
  "dns_record idx node self =
     (if idx < 0 \<or> int (length (md_records self)) \<le> idx then None
      else do {
        n \<leftarrow> md_nodes self node;
        Some (idx, self\<lparr>md_records := (md_records self)[nat idx := node],
                        md_nodes := (md_nodes self)(node \<mapsto> n\<lparr>dn_idx := idx\<rparr>)\<rparr>) })"

definition hev_mapped_dns_find :: "byte list \<Rightarrow> HevMappedDNS \<Rightarrow> (int \<times> HevMappedDNS) option" where
  "hev_mapped_dns_find name self = do {
     (found, parent, link) \<leftarrow>
       descend (dns_cmp name self) 0 RootLink (rt_root (md_tree self)) (md_tree self);
     if found \<noteq> 0 then do {
       node \<leftarrow> md_nodes self found;
       self \<leftarrow> dns_touch found self;
       Some (dn_idx node, self) }
     else
       (case hev_mapped_dns_node_alloc name self of (node, self) \<Rightarrow>
          if node = 0 then Some (-1, self)
          else do {
            tree \<leftarrow> hev_rbtree_node_link node parent link (md_tree self);
            tree \<leftarrow> hev_rbtree_insert_color node tree;
            list \<leftarrow> hev_list_add_tail node (md_list self);
            (idx, self) \<leftarrow> dns_evict (self\<lparr>md_tree := tree, md_list := list\<rparr>);
            dns_record idx node self }) }"

text \<open>The name for an address, \<^const>\<open>None\<close> for the null pointer.\<close>

definition hev_mapped_dns_lookup :: "int \<Rightarrow> HevMappedDNS \<Rightarrow> (byte list option \<times> HevMappedDNS) option" where
  "hev_mapped_dns_lookup ip self =
     (let idx = ip AND NOT (md_mask self) in
      if idx \<ge> md_max self then Some (None, self)
      else if idx < 0 \<or> int (length (md_records self)) \<le> idx then None
      else
        let node = md_records self ! nat idx in
        if node = 0 then Some (None, self)
        else do {
          self \<leftarrow> dns_touch node self;
          n \<leftarrow> md_nodes self node;
          Some (Some (dn_name n), self) })"

partial_function (option) dns_free_all :: "u64 \<Rightarrow> HevMappedDNS \<Rightarrow> HevMappedDNS option" where
  "dns_free_all n self =
     (if n = 0 then Some self
      else do {
        next \<leftarrow> hev_list_node_next n (md_list self);
        self \<leftarrow> hev_mapped_dns_node_free n self;
        dns_free_all next self })"

declare dns_free_all.simps [code]

text \<open>The object itself, which goes back to the allocator in the end, is the record that is returned.\<close>

definition hev_mapped_dns_destruct :: "HevMappedDNS \<Rightarrow> HevMappedDNS option" where
  "hev_mapped_dns_destruct self = dns_free_all (hev_list_first (md_list self)) self"

section \<open>hev-mapped-dns.c: queries\<close>

definition read_u16 :: "byte list \<Rightarrow> nat \<Rightarrow> u16" where
  "read_u16 b i = (push_bit 8 (ucast (b ! i))) OR ucast (b ! (i + 1))"

definition write_u16 :: "u16 \<Rightarrow> byte list" where
  "write_u16 v = [ucast (drop_bit 8 v), ucast v]"

definition write_u32 :: "32 word \<Rightarrow> byte list" where
  "write_u32 v = [ucast (drop_bit 24 v), ucast (drop_bit 16 v), ucast (drop_bit 8 v), ucast v]"

text \<open>
  The loop over the labels of a name: the length bytes after the first one become dots, the offset of the
  closing zero is returned.  \<^const>\<open>None\<close> stands for a read behind the end of the request, \<open>Some None\<close> for
  \<open>return -1\<close>.
\<close>

function dns_labels :: "nat \<Rightarrow> byte list \<Rightarrow> (nat \<times> byte list) option option" where
  "dns_labels off qb =
     (if length qb \<le> off then None
      else if qb ! off = 0 then Some (Some (off, qb))
      else if length qb \<le> off + 1 + unat (qb ! off) then Some None
      else dns_labels (off + 1 + unat (qb ! off)) (qb[off := 46]))"
  by pat_completeness auto

termination dns_labels
  by (relation "measure (\<lambda>(off, qb). length qb - off)") auto

declare dns_labels.simps [simp del]

text \<open>The loop over the questions collects the offsets of the names and the addresses for the answers.\<close>

fun dns_questions ::
  "nat \<Rightarrow> nat \<Rightarrow> byte list \<Rightarrow> (nat \<times> int) list \<Rightarrow> HevMappedDNS \<Rightarrow>
   ((nat \<times> byte list \<times> (nat \<times> int) list) option \<times> HevMappedDNS) option" where
  "dns_questions 0 off qb ips self = Some (Some (off, qb, ips), self)"
| "dns_questions (Suc n) ipo qb ips self =
     (case dns_labels ipo qb of
        None \<Rightarrow> None
      | Some None \<Rightarrow> Some (None, self)
      | Some (Some (off, qb)) \<Rightarrow>
          if off + 1 + 3 \<ge> length qb then Some (None, self)
          else if read_u16 qb (off + 1) = 1 \<and> read_u16 qb (off + 3) = 1 then do {
            (idx, self) \<leftarrow> hev_mapped_dns_find (cstr (drop (ipo + 1) qb)) self;
            dns_questions n (off + 5) qb
              (if idx \<ge> 0 then ips @ [(ipo, md_net self OR idx)] else ips) self }
          else dns_questions n (off + 5) qb ips self)"

definition dns_answer :: "nat \<Rightarrow> int \<Rightarrow> byte list" where
  "dns_answer ipo ip =
     [0xc0, of_nat ipo] @ write_u16 1 @ write_u16 1 @ write_u32 1 @ write_u16 4 @ write_u32 (of_int ip)"

fun dns_answers :: "(nat \<times> int) list \<Rightarrow> nat \<Rightarrow> byte list \<Rightarrow> (nat \<times> byte list) option" where
  "dns_answers [] off sb = Some (off, sb)"
| "dns_answers ((ipo, ip) # ips) off sb =
     (if off + 15 \<ge> length sb then None
      else dns_answers ips (off + 16) (overwrite sb off (dns_answer ipo ip)))"

text \<open>
  Request and response are the memory of the two packets; the result is that of the function with the
  memory of the response; after a failure the caller drops the response, so what a failing run leaves
  behind the header does not matter.
\<close>

definition hev_mapped_dns_handle ::
  "byte list \<Rightarrow> byte list \<Rightarrow> HevMappedDNS \<Rightarrow> (int \<times> byte list \<times> HevMappedDNS) option" where
  "hev_mapped_dns_handle req res self =
     (if length res < length req then Some (-1, res, self)
      else if length req < 6 \<or> length res < 10 then None
      else
        let sb = overwrite res 0 req;
            qd = ntohs (mem_u16 (chunk req 4 2));
            qb = overwrite req 4 (u16_mem qd);
            sb = overwrite sb 2 (u16_mem (ntohs (mem_u16 (chunk sb 2 2))));
            sb = overwrite sb 8 [0, 0];
            sb = overwrite sb 6 [0, 0] in
        if unat qd > 32 then Some (-1, sb, self)
        else do {
          (r, self) \<leftarrow> dns_questions (unat qd) 12 qb [] self;
          (case r of
             None \<Rightarrow> Some (-1, sb, self)
           | Some (off, qb, ips) \<Rightarrow>
               (case dns_answers ips off sb of
                  None \<Rightarrow> Some (-1, sb, self)
                | Some (off, sb) \<Rightarrow>
                    let fl = mem_u16 (chunk sb 2 2);
                        sb = overwrite sb 2 (u16_mem (ntohs (fl OR 0x8000 OR drop_bit 1 (fl AND 0x100))));
                        sb = overwrite sb 6 (u16_mem (ntohs (of_nat (length ips)))) in
                    Some (int off, sb, self))) })"


section \<open>Invariant and abstraction of the cache\<close>

definition node_name :: "HevMappedDNS \<Rightarrow> u64 \<Rightarrow> byte list" where
  "node_name self p = (case md_nodes self p of None \<Rightarrow> [] | Some n \<Rightarrow> dn_name n)"

definition node_idx :: "HevMappedDNS \<Rightarrow> u64 \<Rightarrow> int" where
  "node_idx self p = (case md_nodes self p of None \<Rightarrow> -1 | Some n \<Rightarrow> dn_idx n)"

text \<open>
  The tree \<open>t\<close> and the list \<open>xs\<close> in memory hold the same nodes, which are all that are allocated, the tree is sorted by name, and the first
  \<open>use\<close> records and the indices of the nodes are inverse to each other.
\<close>

definition idx_ok :: "(u64 \<Rightarrow> int) \<Rightarrow> u64 list \<Rightarrow> u64 list \<Rightarrow> bool" where
  "idx_ok f recs xs \<longleftrightarrow>
     (\<forall>i<length recs. if i < length xs then recs ! i \<in> set xs \<and> f (recs ! i) = int i else recs ! i = 0) \<and>
     (\<forall>p\<in>set xs. 0 \<le> f p \<and> f p < int (length xs) \<and> recs ! nat (f p) = p)"

definition dns_inv :: "HevMappedDNS \<Rightarrow> rbt \<Rightarrow> u64 list \<Rightarrow> bool" where
  "dns_inv self t xs \<longleftrightarrow>
     represents (md_tree self) t \<and> rb t \<and> strings.keys_sorted (node_name self) (nodes t) \<and>
     list_rep (md_list self) xs \<and> set xs = set (nodes t) \<and> dom (md_nodes self) = set xs \<and>
     int (length xs) = md_use self \<and> md_use self \<le> md_max self \<and> int (length (md_records self)) = md_max self \<and>
     idx_ok (node_idx self) (md_records self) xs"

text \<open>The names with their indices, least recently used first.\<close>

definition cache :: "HevMappedDNS \<Rightarrow> u64 list \<Rightarrow> (byte list \<times> int) list" where
  "cache self xs = map (\<lambda>p. (node_name self p, node_idx self p)) xs"

text \<open>
  What the cache promises.  A known name keeps its index; a new one gets the next unused index or, in a full
  cache, the index of the least recently used name; without memory (\<open>mem\<close>) it gets none.
\<close>

definition lru_find :: "bool \<Rightarrow> int \<Rightarrow> byte list \<Rightarrow> (byte list \<times> int) list \<Rightarrow> int \<times> (byte list \<times> int) list" where
  "lru_find mem cap name c =
     (case map_of c name of
        Some i \<Rightarrow> (i, remove1 (name, i) c @ [(name, i)])
      | None \<Rightarrow>
          if \<not> mem then (-1, c)
          else if int (length c) < cap then (int (length c), c @ [(name, int (length c))])
          else (snd (hd c), tl c @ [(name, snd (hd c))]))"

definition lru_lookup :: "int \<Rightarrow> (byte list \<times> int) list \<Rightarrow> byte list option \<times> (byte list \<times> int) list" where
  "lru_lookup i c =
     (case find (\<lambda>(n, j). j = i) c of
        None \<Rightarrow> (None, c)
      | Some (n, j) \<Rightarrow> (Some n, remove1 (n, j) c @ [(n, j)]))"

text \<open>
  The allocator returns aligned addresses or 0; the network has room for all indices.
\<close>

primrec heap_ok :: "u64 list \<Rightarrow> bool" where
  "heap_ok [] = True"
| "heap_ok (p # ps) = ((p = 0 \<or> ptr_ok p) \<and> heap_ok ps)"

definition dns_ok :: "HevMappedDNS \<Rightarrow> rbt \<Rightarrow> u64 list \<Rightarrow> bool" where
  "dns_ok self t xs \<longleftrightarrow> dns_inv self t xs \<and> 0 < md_max self \<and> md_max self \<le> NOT (md_mask self) \<and> heap_ok (md_heap self)"

definition dns_mem :: "HevMappedDNS \<Rightarrow> bool" where
  "dns_mem self \<longleftrightarrow> md_heap self \<noteq> [] \<and> hd (md_heap self) \<noteq> 0 \<and> md_nodes self (hd (md_heap self)) = None"

lemma dns_invD:
  assumes "dns_inv self t xs"
  shows "represents (md_tree self) t" "rb t" "strings.keys_sorted (node_name self) (nodes t)" "list_rep (md_list self) xs"
    "set xs = set (nodes t)" "int (length xs) = md_use self" "md_use self \<le> md_max self"
    "int (length (md_records self)) = md_max self" "distinct xs" "distinct (nodes t)"
    "idx_ok (node_idx self) (md_records self) xs" "\<And>p. p \<in> set xs \<Longrightarrow> md_nodes self p \<noteq> None"
    "dom (md_nodes self) = set xs"
  using assms by (auto simp: dns_inv_def represents_def at_def list_rep_def)

lemma dns_inv_node:
  assumes "dns_inv self t xs" and "p \<in> set xs"
  obtains n where "md_nodes self p = Some n" and "node_name self p = dn_name n" and "node_idx self p = dn_idx n"
    and "0 \<le> dn_idx n" and "dn_idx n < int (length xs)" and "md_records self ! nat (dn_idx n) = p" and "p \<noteq> 0"
proof -
  obtain n where n: "md_nodes self p = Some n" using dns_invD(12)[OF assms] by blast
  have "p \<noteq> 0" using list_rep_node[OF dns_invD(4)[OF assms(1)] assms(2)] by simp
  moreover have "0 \<le> node_idx self p \<and> node_idx self p < int (length xs) \<and> md_records self ! nat (node_idx self p) = p"
    using dns_invD(11)[OF assms(1)] assms(2) by (simp add: idx_ok_def)
  ultimately show thesis using that[OF n] n by (simp add: node_name_def node_idx_def)
qed

lemma names_inj: "dns_inv self t xs \<Longrightarrow> inj_on (node_name self) (set xs)"
  by (rule inj_onI, rule strings.keys_distinct[OF dns_invD(3)]) (simp_all add: dns_invD(5))

lemma idx_inj: "dns_inv self t xs \<Longrightarrow> inj_on (node_idx self) (set xs)"
  using dns_invD(11) unfolding idx_ok_def by (intro inj_onI) metis

lemma cache_name:
  assumes "dns_inv self t xs"
  shows "map_of (cache self xs) name = Some i \<longleftrightarrow> (\<exists>p\<in>set xs. node_name self p = name \<and> node_idx self p = i)"
proof -
  have "distinct (map fst (cache self xs))"
    using names_inj[OF assms] dns_invD(9)[OF assms] by (simp add: cache_def comp_def distinct_map)
  then show ?thesis by (auto simp: cache_def)
qed

lemma cache_no_name: "map_of (cache self xs) name = None \<longleftrightarrow> (\<forall>p\<in>set xs. node_name self p \<noteq> name)"
  by (auto simp: cache_def map_of_eq_None_iff image_image)

lemma map_remove1_inj: "inj_on f (set xs) \<Longrightarrow> p \<in> set xs \<Longrightarrow> map f (remove1 p xs) = remove1 (f p) (map f xs)"
  by (induction xs) (auto simp: inj_on_def)

lemma cache_touch:
  assumes "dns_inv self t xs" and "p \<in> set xs"
  shows "cache self (remove1 p xs @ [p]) =
    remove1 (node_name self p, node_idx self p) (cache self xs) @ [(node_name self p, node_idx self p)]"
proof -
  have "inj_on (\<lambda>p. (node_name self p, node_idx self p)) (set xs)" using names_inj[OF assms(1)] by (auto simp: inj_on_def)
  from map_remove1_inj[OF this assms(2)] show ?thesis by (simp add: cache_def)
qed

lemma idx_ok_cong:
  "length ys = length xs \<Longrightarrow> set ys = set xs \<Longrightarrow> idx_ok f recs ys = idx_ok f recs xs"
  by (simp add: idx_ok_def)

text \<open>Using a node changes only the order of the list.\<close>

lemma touch_inv:
  assumes "dns_inv self t xs" and "p \<in> set xs"
  shows "\<exists>l. dns_touch p self = Some (self\<lparr>md_list := l\<rparr>) \<and> dns_inv (self\<lparr>md_list := l\<rparr>) t (remove1 p xs @ [p])"
proof -
  obtain l1 where l1: "hev_list_del p (md_list self) = Some l1" "list_rep l1 (remove1 p xs)" "dom (ls_mem l1) = dom (ls_mem (md_list self))"
    using list_del_rep_remove1[OF dns_invD(4)[OF assms(1)] assms(2)] by blast
  have p: "p \<noteq> 0" "ls_mem l1 p \<noteq> None" using list_rep_node[OF dns_invD(4)[OF assms(1)] assms(2)] l1(3) by (auto simp: dom_def)
  have np: "p \<notin> set (remove1 p xs)" using dns_invD(9)[OF assms(1)] by simp
  obtain l where l: "hev_list_add_tail p l1 = Some l" "list_rep l (remove1 p xs @ [p])"
    using list_add_tail_rep[OF l1(2) p(1) np p(2)] by blast
  have "0 < length xs" using assms(2) by (cases xs) auto
  then have "length (remove1 p xs @ [p]) = length xs" using assms(2) by (simp add: length_remove1)
  moreover have "set (remove1 p xs @ [p]) = set xs" using dns_invD(9)[OF assms(1)] assms(2) by auto
  moreover have "node_name (self\<lparr>md_list := l\<rparr>) = node_name self" "node_idx (self\<lparr>md_list := l\<rparr>) = node_idx self"
    by (simp_all add: node_name_def node_idx_def fun_eq_iff)
  ultimately have "dns_inv (self\<lparr>md_list := l\<rparr>) t (remove1 p xs @ [p])"
    using dns_invD[OF assms(1)] l(2) idx_ok_cong[of "remove1 p xs @ [p]" xs] unfolding dns_inv_def
    by (simp del: set_append length_append)
  with l1(1) l(1) show ?thesis by (auto simp: dns_touch_def)
qed

lemma dns_cmp_name:
  assumes "dns_inv self t xs" and "p \<in> set (nodes t)"
  shows "dns_cmp name self p = Some (strcmp (node_name self p) name)"
  by (rule dns_inv_node[OF assms(1), of p]) (use assms dns_invD(5)[OF assms(1)] in \<open>simp_all add: dns_cmp_def\<close>)

lemma find_known:
  assumes "dns_inv self t xs" and "0 \<notin> set name" and "p \<in> set xs" and "node_name self p = name"
  shows "\<exists>l. hev_mapped_dns_find name self = Some (node_idx self p, self\<lparr>md_list := l\<rparr>) \<and>
    dns_inv (self\<lparr>md_list := l\<rparr>) t (remove1 p xs @ [p])"
proof -
  have pt: "p \<in> set (nodes t)" using assms(3) dns_invD(5)[OF assms(1)] by simp
  obtain parent link where d: "descend (dns_cmp name self) 0 RootLink (rt_root (md_tree self)) (md_tree self) = Some (p, parent, link)" "p \<noteq> 0"
    using strings.search_found[OF dns_invD(1,3)[OF assms(1)] assms(2) dns_cmp_name[OF assms(1)] pt assms(4)] by blast
  obtain n where "md_nodes self p = Some n" "node_idx self p = dn_idx n" by (rule dns_inv_node[OF assms(1,3)])
  with d touch_inv[OF assms(1,3)] show ?thesis by (auto simp: hev_mapped_dns_find_def)
qed


lemma idx_okI:
  assumes "\<And>i. i < length recs \<Longrightarrow> i < length xs \<Longrightarrow> recs ! i \<in> set xs \<and> f (recs ! i) = int i"
    and "\<And>i. i < length recs \<Longrightarrow> length xs \<le> i \<Longrightarrow> recs ! i = 0"
    and "\<And>p. p \<in> set xs \<Longrightarrow> \<exists>i<length xs. f p = int i \<and> recs ! i = p"
  shows "idx_ok f recs xs"
  unfolding idx_ok_def
proof (intro conjI allI impI ballI)
  fix p assume "p \<in> set xs"
  from assms(3)[OF this] show "0 \<le> f p" "f p < int (length xs)" "recs ! nat (f p) = p" by auto
next
  fix i assume "i < length recs"
  with assms(1,2)[of i] show "if i < length xs then recs ! i \<in> set xs \<and> f (recs ! i) = int i else recs ! i = 0" by simp
qed

lemma idx_okD:
  assumes "idx_ok f recs xs"
  shows "i < length recs \<Longrightarrow> i < length xs \<Longrightarrow> recs ! i \<in> set xs \<and> f (recs ! i) = int i"
    and "i < length recs \<Longrightarrow> length xs \<le> i \<Longrightarrow> recs ! i = 0"
    and "p \<in> set xs \<Longrightarrow> \<exists>i<length xs. f p = int i \<and> recs ! i = p"
proof -
  show "i < length recs \<Longrightarrow> i < length xs \<Longrightarrow> recs ! i \<in> set xs \<and> f (recs ! i) = int i"
    and "i < length recs \<Longrightarrow> length xs \<le> i \<Longrightarrow> recs ! i = 0" using assms by (simp_all add: idx_ok_def)
  assume "p \<in> set xs"
  then have "0 \<le> f p" "f p < int (length xs)" "recs ! nat (f p) = p" using assms by (simp_all add: idx_ok_def)
  then show "\<exists>i<length xs. f p = int i \<and> recs ! i = p" by (intro exI[of _ "nat (f p)"]) auto
qed

lemma idx_ok_extend:
  assumes "idx_ok f recs xs" and "length xs < length recs" and "p \<notin> set xs"
    and "\<And>q. q \<in> set xs \<Longrightarrow> f' q = f q" and "f' p = int (length xs)"
  shows "idx_ok f' (recs[length xs := p]) (xs @ [p])"
proof (rule idx_okI)
  fix i assume i: "i < length (recs[length xs := p])" "i < length (xs @ [p])"
  show "recs[length xs := p] ! i \<in> set (xs @ [p]) \<and> f' (recs[length xs := p] ! i) = int i"
    using idx_okD(1)[OF assms(1), of i] i assms(2,4,5) by (cases "i = length xs") auto
next
  fix i assume "i < length (recs[length xs := p])" "length (xs @ [p]) \<le> i"
  then show "recs[length xs := p] ! i = 0" using idx_okD(2)[OF assms(1), of i] by simp
next
  fix q assume q: "q \<in> set (xs @ [p])"
  show "\<exists>i<length (xs @ [p]). f' q = int i \<and> recs[length xs := p] ! i = q"
  proof (cases "q = p")
    case True
    then show ?thesis using assms(2,5) by (intro exI[of _ "length xs"]) simp
  next
    case False
    with q have qs: "q \<in> set xs" by simp
    then obtain i where "i < length xs" "f q = int i" "recs ! i = q" using idx_okD(3)[OF assms(1)] by blast
    then show ?thesis using assms(4)[OF qs] by (intro exI[of _ i]) simp
  qed
qed

lemma idx_ok_replace:
  assumes "idx_ok f recs (q # ys)" and "length recs = Suc (length ys)" and "distinct (q # ys)"
    and "\<And>r. r \<in> set ys \<Longrightarrow> f' r = f r" and "f' p = f q"
  shows "idx_ok f' (recs[nat (f q) := p]) (ys @ [p])"
proof -
  obtain k where k: "k < length recs" "f q = int k" "recs ! k = q" using idx_okD(3)[OF assms(1), of q] assms(2) by auto
  show ?thesis unfolding k(2) nat_int
  proof (rule idx_okI)
    fix i assume i: "i < length (recs[k := p])"
    then have "recs ! i \<in> set (q # ys) \<and> f (recs ! i) = int i" using idx_okD(1)[OF assms(1), of i] assms(2) by simp
    then show "recs[k := p] ! i \<in> set (ys @ [p]) \<and> f' (recs[k := p] ! i) = int i"
      using k i assms(4,5) by (cases "i = k") auto
  next
    fix i assume "i < length (recs[k := p])" "length (ys @ [p]) \<le> i"
    then show "recs[k := p] ! i = 0" using assms(2) by simp
  next
    fix r assume r: "r \<in> set (ys @ [p])"
    show "\<exists>i<length (ys @ [p]). f' r = int i \<and> recs[k := p] ! i = r"
    proof (cases "r \<in> set ys")
      case True
      then obtain i where i: "i < length recs" "f r = int i" "recs ! i = r"
        using idx_okD(3)[OF assms(1), of r] assms(2) by auto
      then have "i \<noteq> k" using k(3) True assms(3) by auto
      then show ?thesis using i assms(2) assms(4)[OF True] by (intro exI[of _ i]) simp
    next
      case False
      then show ?thesis using r k assms(2,5) by (intro exI[of _ k]) simp
    qed
  qed
qed

text \<open>Linking a new node into the tree and the list.\<close>

lemma find_links:
  assumes "dns_inv self t xs" and "0 \<notin> set name" and "\<And>q. q \<in> set xs \<Longrightarrow> node_name self q \<noteq> name"
    and "md_heap self = p # ps" and "ptr_ok p" and "p \<notin> set xs"
  obtains tree list t' S where "represents tree t'" and "rb t'" and "list_rep list (xs @ [p])"
    and "set (nodes t') = insert p (set xs)" and "strings.keys_sorted (node_name S) (nodes t')"
    and "S = self\<lparr>md_heap := ps, md_nodes := (md_nodes self)(p \<mapsto> \<lparr>dn_name = name, dn_idx = 0\<rparr>), md_tree := tree, md_list := list\<rparr>"
    and "hev_mapped_dns_find name self = Option.bind (dns_evict S) (\<lambda>(idx, s). dns_record idx p s)"
proof -
  note inv = dns_invD[OF assms(1)]
  have miss: "node_name self q \<noteq> name" if "q \<in> set (nodes t)" for q using that assms(3) inv(5) by simp
  obtain gs where gs: "descend (dns_cmp name self) 0 RootLink (rt_root (md_tree self)) (md_tree self) = Some (0, up gs, link_of gs)"
    "t = plug Lf gs" "strings.gap_for (node_name self) name gs"
    using strings.search_missing[OF inv(1,3) assms(2) dns_cmp_name[OF assms(1)] miss] by blast
  define m0 where "m0 = (md_tree self)\<lparr>rt_mem := (rt_mem (md_tree self))(p \<mapsto> \<lparr>rn_pc = 0, rn_right = 0, rn_left = 0\<rparr>)\<rparr>"
  define l0 where "l0 = (md_list self)\<lparr>ls_mem := (ls_mem (md_list self))(p \<mapsto> \<lparr>ln_next = 0, ln_prev = 0\<rparr>)\<rparr>"
  have pt: "p \<notin> set (nodes t)" using assms(6) inv(5) by simp
  have m0: "represents m0 (plug Lf gs)" "rt_mem m0 p = Some \<lparr>rn_pc = 0, rn_right = 0, rn_left = 0\<rparr>"
    using represents_upd[OF inv(1) pt] gs(2) by (simp_all add: m0_def)
  obtain m1 tree t' where m: "hev_rbtree_node_link p (up gs) (link_of gs) m0 = Some m1" "hev_rbtree_insert_color p m1 = Some tree"
    "represents tree t'" "rb t'" and n: "nodes t' = nodes_before gs @ [p] @ nodes_after gs"
    using insert_at[OF m0(1) _ assms(5) _ m0(2)] inv(2) pt gs(2) by auto
  have l0: "list_rep l0 xs" "ls_mem l0 p \<noteq> None" using list_rep_mem_other[OF inv(4) assms(6)] by (simp_all add: l0_def)
  have p0: "p \<noteq> 0" "md_nodes self p = None" using assms(5,6) inv(13) unfolding ptr_ok_def by auto
  obtain list where l: "hev_list_add_tail p l0 = Some list" "list_rep list (xs @ [p])"
    using list_add_tail_rep[OF l0(1) p0(1) assms(6) l0(2)] by blast
  define S where "S = self\<lparr>md_heap := ps, md_nodes := (md_nodes self)(p \<mapsto> \<lparr>dn_name = name, dn_idx = 0\<rparr>), md_tree := tree, md_list := list\<rparr>"
  have set': "set (nodes t') = insert p (set xs)" using n gs(2) inv(5) by (auto simp: nodes_plug)
  have "strings.keys_sorted (node_name S) (nodes t')" unfolding n
    by (rule strings.keys_sorted_insert[where key = "node_name self" and k = name])
      (use inv(3) gs assms(2) pt in \<open>auto simp: node_name_def S_def\<close>)
  moreover have "hev_mapped_dns_find name self = Option.bind (dns_evict S) (\<lambda>(idx, s). dns_record idx p s)"
    using gs(1) assms(4) p0 m(1,2) l(1)
    by (simp add: hev_mapped_dns_find_def hev_mapped_dns_node_alloc_def S_def m0_def l0_def)
  ultimately show thesis using that[OF m(3,4) l(2) set' _ S_def] by blast
qed

lemma find_unused:
  assumes "dns_inv self t xs" and "0 \<notin> set name" and "\<And>q. q \<in> set xs \<Longrightarrow> node_name self q \<noteq> name"
    and "md_heap self = p # ps" and "ptr_ok p" and "p \<notin> set xs" and "md_use self < md_max self"
  shows "\<exists>F t'. hev_mapped_dns_find name self = Some (int (length xs), F) \<and> dns_inv F t' (xs @ [p]) \<and>
    cache F (xs @ [p]) = cache self xs @ [(name, int (length xs))] \<and>
    (md_max F, md_net F, md_mask F, md_heap F) = (md_max self, md_net self, md_mask self, ps)"
proof -
  note inv = dns_invD[OF assms(1)]
  obtain tree list t' S where l: "represents tree t'" "rb t'" "list_rep list (xs @ [p])" "set (nodes t') = insert p (set xs)"
      "strings.keys_sorted (node_name S) (nodes t')"
    and S: "S = self\<lparr>md_heap := ps, md_nodes := (md_nodes self)(p \<mapsto> \<lparr>dn_name = name, dn_idx = 0\<rparr>), md_tree := tree, md_list := list\<rparr>"
    and f: "hev_mapped_dns_find name self = Option.bind (dns_evict S) (\<lambda>(idx, s). dns_record idx p s)"
    by (rule find_links[OF assms(1-6)])
  let ?n = "\<lparr>dn_name = name, dn_idx = 0\<rparr>"
  define S1 where "S1 = S\<lparr>md_use := md_use S + 1\<rparr>"
  define F where "F = S1\<lparr>md_records := (md_records S1)[length xs := p], md_nodes := (md_nodes S1)(p \<mapsto> ?n\<lparr>dn_idx := int (length xs)\<rparr>)\<rparr>"
  have len: "length xs < length (md_records self)" using inv(6,8) assms(7) by linarith
  have e: "dns_evict S = Some (int (length xs), S1)" using assms(7) inv(6) by (simp add: dns_evict_def S S1_def)
  have r: "dns_record (int (length xs)) p S1 = Some (int (length xs), F)"
    using len by (simp add: dns_record_def F_def S1_def S)
  have names: "node_name F = node_name S" "node_idx F p = int (length xs)" "node_name F p = name"
    by (auto simp: F_def S1_def S node_name_def node_idx_def fun_eq_iff)
  have old: "node_name F q = node_name self q" "node_idx F q = node_idx self q" if "q \<in> set xs" for q
    using that assms(6) by (auto simp: F_def S1_def S node_name_def node_idx_def)
  have "idx_ok (node_idx F) (md_records F) (xs @ [p])"
    using idx_ok_extend[OF inv(11) len assms(6), of "node_idx F"] old(2) names(2) by (simp add: F_def S1_def S)
  then have "dns_inv F t' (xs @ [p])"
    using l names(1) inv(6-8,13) assms(7) by (simp add: dns_inv_def F_def S1_def S)
  moreover have "cache F (xs @ [p]) = cache self xs @ [(name, int (length xs))]" using old names by (simp add: cache_def)
  moreover have "(md_max F, md_net F, md_mask F, md_heap F) = (md_max self, md_net self, md_mask self, ps)"
    by (simp add: F_def S1_def S)
  ultimately show ?thesis using f e r by auto
qed

lemma find_evicts:
  assumes "dns_inv self t (q # ys)" and "0 \<notin> set name" and "\<And>r. r \<in> set (q # ys) \<Longrightarrow> node_name self r \<noteq> name"
    and "md_heap self = p # ps" and "ptr_ok p" and "p \<notin> set (q # ys)" and "\<not> md_use self < md_max self"
  shows "\<exists>F t'. hev_mapped_dns_find name self = Some (node_idx self q, F) \<and> dns_inv F t' (ys @ [p]) \<and>
    cache F (ys @ [p]) = cache self ys @ [(name, node_idx self q)] \<and>
    (md_max F, md_net F, md_mask F, md_heap F) = (md_max self, md_net self, md_mask self, ps)"
proof -
  note inv = dns_invD[OF assms(1)]
  obtain tree list t1 S where l: "represents tree t1" "rb t1" "list_rep list ((q # ys) @ [p])" "set (nodes t1) = insert p (set (q # ys))"
      "strings.keys_sorted (node_name S) (nodes t1)"
    and S: "S = self\<lparr>md_heap := ps, md_nodes := (md_nodes self)(p \<mapsto> \<lparr>dn_name = name, dn_idx = 0\<rparr>), md_tree := tree, md_list := list\<rparr>"
    and f: "hev_mapped_dns_find name self = Option.bind (dns_evict S) (\<lambda>(idx, s). dns_record idx p s)"
    by (rule find_links[OF assms(1-6)])
  let ?n = "\<lparr>dn_name = name, dn_idx = 0\<rparr>"
  have q: "q \<in> set (q # ys)" "q \<noteq> p" using assms(6) by auto
  obtain n where n: "md_nodes self q = Some n" "node_idx self q = dn_idx n" "0 \<le> dn_idx n" "dn_idx n < int (length (q # ys))"
    by (rule dns_inv_node[OF assms(1) q(1)])
  obtain tree2 t' where t': "hev_rbtree_erase q tree = Some tree2" "represents tree2 t'" "rb t'" "nodes t' = remove1 q (nodes t1)"
    using rbtree_erased[OF l(1,2), of q] l(4) by auto
  obtain list2 where l2: "hev_list_del q list = Some list2" "list_rep list2 (ys @ [p])"
    using list_del_rep[of list "[]" q "ys @ [p]"] l(3) by auto
  have d1: "distinct (nodes t1)" using l(1) by (simp add: represents_def at_def)
  have nq: "q \<notin> set (nodes t')" "q \<notin> set (ys @ [p])" using t'(4) d1 inv(9) q(2) by auto
  define S1 where "S1 = dns_forget q (S\<lparr>md_tree := tree2, md_list := list2\<rparr>)"
  define F where "F = S1\<lparr>md_records := (md_records S1)[nat (dn_idx n) := p], md_nodes := (md_nodes S1)(p \<mapsto> ?n\<lparr>dn_idx := dn_idx n\<rparr>)\<rparr>"
  have full: "length (md_records self) = Suc (length ys)" using inv(6-8) assms(7) by simp
  have "hev_list_first list = q" using list_ends(1)[OF l(3)] by simp
  then have e: "dns_evict S = Some (dn_idx n, S1)"
    using assms(7) t'(1) l2(1) n(1) q(2) by (simp add: dns_evict_def S S1_def hev_mapped_dns_node_free_def)
  have r: "dns_record (dn_idx n) p S1 = Some (dn_idx n, F)"
    using n full q(2) by (simp add: dns_record_def F_def S1_def S dns_forget_def)
  have names: "node_name F p = name" "node_idx F p = dn_idx n" by (simp_all add: F_def node_name_def node_idx_def)
  have sn: "node_name F r = node_name S r" if "r \<noteq> q" for r
    using that by (simp add: F_def S1_def S dns_forget_def node_name_def)
  have old: "node_name F r = node_name self r" "node_idx F r = node_idx self r" if "r \<in> set ys" for r
    using that assms(6) nq by (auto simp: F_def S1_def S dns_forget_def node_name_def node_idx_def)
  have "idx_ok (node_idx F) (md_records F) (ys @ [p])"
    using idx_ok_replace[OF inv(11) full inv(9), of "node_idx F" p] old(2) names(2) n(2)
    by (simp add: F_def S1_def S dns_forget_def)
  moreover have "represents (md_tree F) t'" "list_rep (md_list F) (ys @ [p])"
    using represents_upd[OF t'(2) nq(1)] list_rep_mem_other[OF l2(2) nq(2)]
    by (simp_all add: F_def S1_def S dns_forget_def)
  moreover have "strings.keys_sorted (node_name F) (nodes t')"
    using strings.keys_sorted_remove1[OF l(5), of q] t'(4) strings.keys_sorted_cong[of "nodes t'" "node_name F" "node_name S"] sn nq(1)
    by metis
  moreover have "set (nodes t') = set (ys @ [p])" using t'(4) d1 l(4) q(2) inv(9) by auto
  moreover have "dom (md_nodes F) = set (ys @ [p])"
    using inv(9,13) nq by (auto simp: F_def S1_def S dns_forget_def)
  ultimately have "dns_inv F t' (ys @ [p])"
    using t'(3) inv(6-8) unfolding dns_inv_def by (simp add: F_def S1_def S dns_forget_def)
  moreover have "cache F (ys @ [p]) = cache self ys @ [(name, dn_idx n)]" using old names by (simp add: cache_def)
  moreover have "(md_max F, md_net F, md_mask F, md_heap F) = (md_max self, md_net self, md_mask self, ps)"
    by (simp add: F_def S1_def S dns_forget_def)
  ultimately show ?thesis using f e r n(2) by auto
qed


lemma find_no_memory:
  assumes "dns_inv self t xs" and "0 \<notin> set name" and "\<And>q. q \<in> set xs \<Longrightarrow> node_name self q \<noteq> name" and "\<not> dns_mem self"
  shows "hev_mapped_dns_find name self = Some (-1, self\<lparr>md_heap := tl (md_heap self)\<rparr>)"
proof -
  obtain parent link where d: "descend (dns_cmp name self) 0 RootLink (rt_root (md_tree self)) (md_tree self) = Some (0, parent, link)"
    using strings.search_missing[OF dns_invD(1,3)[OF assms(1)] assms(2) dns_cmp_name[OF assms(1)]] assms(3) dns_invD(5)[OF assms(1)]
    by blast
  show ?thesis using d assms(4)
    by (cases "md_heap self") (simp_all add: hev_mapped_dns_find_def hev_mapped_dns_node_alloc_def dns_mem_def)
qed


section \<open>The cache implements its promise\<close>

lemma heap_step:
  assumes "dns_ok self t xs" and "dns_mem self"
  obtains p ps where "md_heap self = p # ps" and "ptr_ok p" and "p \<notin> set xs" and "heap_ok ps"
proof (cases "md_heap self")
  case (Cons p ps)
  with assms dns_invD(13)[of self t xs] that show thesis by (auto simp: dns_ok_def dns_mem_def)
qed (use assms(2) in \<open>simp add: dns_mem_def\<close>)

lemma node_upd [simp]:
  "node_name (self\<lparr>md_heap := h\<rparr>) = node_name self" "node_idx (self\<lparr>md_heap := h\<rparr>) = node_idx self"
  "node_name (self\<lparr>md_list := l\<rparr>) = node_name self" "node_idx (self\<lparr>md_list := l\<rparr>) = node_idx self"
  by (simp_all add: node_name_def node_idx_def fun_eq_iff)

lemma dns_inv_heap: "dns_inv (self\<lparr>md_heap := h\<rparr>) t xs = dns_inv self t xs"
  by (simp add: dns_inv_def)

lemma cache_upd [simp]:
  "cache (self\<lparr>md_heap := h\<rparr>) xs = cache self xs" "cache (self\<lparr>md_list := l\<rparr>) xs = cache self xs"
  by (simp_all add: cache_def)

lemma touch_ok:
  assumes "dns_ok self t xs" and "dns_inv (self\<lparr>md_list := l\<rparr>) t (remove1 p xs @ [p])" and "p \<in> set xs"
  shows "dns_ok (self\<lparr>md_list := l\<rparr>) t (remove1 p xs @ [p])"
  using assms by (simp add: dns_ok_def)

lemma find_lru_known:
  assumes "dns_ok self t xs" and "0 \<notin> set name" and "p \<in> set xs" and "node_name self p = name"
  shows "\<exists>i s t' xs'. hev_mapped_dns_find name self = Some (i, s) \<and> dns_ok s t' xs' \<and>
    (md_max s, md_net s, md_mask s) = (md_max self, md_net self, md_mask self) \<and>
    lru_find (dns_mem self) (md_max self) name (cache self xs) = (i, cache s xs')"
proof -
  have inv: "dns_inv self t xs" using assms(1) by (simp add: dns_ok_def)
  obtain l where l: "hev_mapped_dns_find name self = Some (node_idx self p, self\<lparr>md_list := l\<rparr>)"
      "dns_inv (self\<lparr>md_list := l\<rparr>) t (remove1 p xs @ [p])"
    using find_known[OF inv assms(2-4)] by blast
  have "map_of (cache self xs) name = Some (node_idx self p)" using cache_name[OF inv] assms(3,4) by blast
  then have "lru_find (dns_mem self) (md_max self) name (cache self xs) =
      (node_idx self p, cache (self\<lparr>md_list := l\<rparr>) (remove1 p xs @ [p]))"
    using cache_touch[OF inv assms(3)] assms(4) by (simp add: lru_find_def)
  moreover have "dns_ok (self\<lparr>md_list := l\<rparr>) t (remove1 p xs @ [p])"
    by (rule touch_ok[OF assms(1) l(2) assms(3)])
  ultimately show ?thesis using l(1) by auto
qed

lemma find_lru_new:
  assumes "dns_ok self t xs" and "0 \<notin> set name" and "\<And>q. q \<in> set xs \<Longrightarrow> node_name self q \<noteq> name" and "dns_mem self"
  shows "\<exists>i s t' xs'. hev_mapped_dns_find name self = Some (i, s) \<and> dns_ok s t' xs' \<and>
    (md_max s, md_net s, md_mask s) = (md_max self, md_net self, md_mask self) \<and>
    lru_find (dns_mem self) (md_max self) name (cache self xs) = (i, cache s xs')"
proof -
  have inv: "dns_inv self t xs" using assms(1) by (simp add: dns_ok_def)
  obtain p ps where h: "md_heap self = p # ps" and p: "ptr_ok p" "p \<notin> set xs" and ps: "heap_ok ps"
    by (rule heap_step[OF assms(1,4)])
  have miss: "map_of (cache self xs) name = None" using assms(3) by (simp add: cache_no_name)
  have len: "int (length xs) = md_use self" "length (cache self xs) = length xs" "0 < md_max self"
    using dns_invD(6)[OF inv] assms(1) by (simp_all add: cache_def dns_ok_def)
  show ?thesis
  proof (cases "md_use self < md_max self")
    case True
    obtain F t' where F: "hev_mapped_dns_find name self = Some (int (length xs), F)" "dns_inv F t' (xs @ [p])"
        "cache F (xs @ [p]) = cache self xs @ [(name, int (length xs))]"
        "(md_max F, md_net F, md_mask F, md_heap F) = (md_max self, md_net self, md_mask self, ps)"
      using find_unused[OF inv assms(2,3) h p True] by blast
    have "dns_ok F t' (xs @ [p])" using F(2,4) ps assms(1) by (simp add: dns_ok_def)
    moreover have "lru_find (dns_mem self) (md_max self) name (cache self xs) = (int (length xs), cache F (xs @ [p]))"
      using F(3) miss True len assms(4) by (simp add: lru_find_def)
    ultimately show ?thesis using F(1,4) by auto
  next
    case False
    then obtain q ys where xs: "xs = q # ys" using len by (cases xs) auto
    obtain F t' where F: "hev_mapped_dns_find name self = Some (node_idx self q, F)" "dns_inv F t' (ys @ [p])"
        "cache F (ys @ [p]) = cache self ys @ [(name, node_idx self q)]"
        "(md_max F, md_net F, md_mask F, md_heap F) = (md_max self, md_net self, md_mask self, ps)"
      using find_evicts[OF inv[unfolded xs] assms(2) assms(3)[unfolded xs] h p(1) p(2)[unfolded xs] False] by blast
    have "dns_ok F t' (ys @ [p])" using F(2,4) ps assms(1) by (simp add: dns_ok_def)
    moreover have "lru_find (dns_mem self) (md_max self) name (cache self xs) = (node_idx self q, cache F (ys @ [p]))"
      using miss False len assms(4) F(3) by (simp add: lru_find_def xs cache_def)
    ultimately show ?thesis using F(1,4) by auto
  qed
qed

lemma find_lru:
  assumes "dns_ok self t xs" and "0 \<notin> set name"
  shows "\<exists>i s t' xs'. hev_mapped_dns_find name self = Some (i, s) \<and> dns_ok s t' xs' \<and>
    (md_max s, md_net s, md_mask s) = (md_max self, md_net self, md_mask self) \<and>
    lru_find (dns_mem self) (md_max self) name (cache self xs) = (i, cache s xs')"
proof (cases "\<exists>p\<in>set xs. node_name self p = name")
  case True
  with find_lru_known[OF assms] show ?thesis by blast
next
  case False
  then have new: "q \<in> set xs \<Longrightarrow> node_name self q \<noteq> name" for q by blast
  have inv: "dns_inv self t xs" using assms(1) by (simp add: dns_ok_def)
  show ?thesis
  proof (cases "dns_mem self")
    case True
    with find_lru_new[OF assms new] show ?thesis by blast
  next
    case False
    let ?s = "self\<lparr>md_heap := tl (md_heap self)\<rparr>"
    have "dns_ok ?s t xs" using assms(1) dns_inv_heap
      by (cases "md_heap self") (simp_all add: dns_ok_def)
    moreover have "lru_find (dns_mem self) (md_max self) name (cache self xs) = (-1, cache ?s xs)"
      using False new by (simp add: lru_find_def cache_no_name[THEN iffD2])
    moreover have "hev_mapped_dns_find name self = Some (-1, ?s)" by (rule find_no_memory[OF inv assms(2) new False])
    ultimately show ?thesis by auto
  qed
qed

lemma cache_find_idx:
  assumes "dns_inv self t xs"
  shows "p \<in> set xs \<Longrightarrow> node_idx self p = i \<Longrightarrow> find (\<lambda>(n, j). j = i) (cache self xs) = Some (node_name self p, i)"
    and "(\<And>p. p \<in> set xs \<Longrightarrow> node_idx self p \<noteq> i) \<Longrightarrow> find (\<lambda>(n, j). j = i) (cache self xs) = None"
proof -
  have "find (\<lambda>(n, j). j = i) (map (\<lambda>p. (node_name self p, node_idx self p)) ys) = Some (node_name self p, i)"
    if "p \<in> set ys" "node_idx self p = i" "inj_on (node_idx self) (set ys)" for ys
    using that by (induction ys) (auto simp: inj_on_def)
  with idx_inj[OF assms] show "p \<in> set xs \<Longrightarrow> node_idx self p = i \<Longrightarrow>
    find (\<lambda>(n, j). j = i) (cache self xs) = Some (node_name self p, i)" by (simp add: cache_def)
  show "(\<And>p. p \<in> set xs \<Longrightarrow> node_idx self p \<noteq> i) \<Longrightarrow> find (\<lambda>(n, j). j = i) (cache self xs) = None"
    by (auto simp: cache_def find_None_iff)
qed

lemma lookup_lru:
  assumes "dns_ok self t xs"
  shows "\<exists>r s xs'. hev_mapped_dns_lookup ip self = Some (r, s) \<and> dns_ok s t xs' \<and>
    (md_max s, md_net s, md_mask s) = (md_max self, md_net self, md_mask self) \<and>
    lru_lookup (ip AND NOT (md_mask self)) (cache self xs) = (r, cache s xs')"
proof -
  have inv: "dns_inv self t xs" and pos: "0 < NOT (md_mask self)"
    using assms unfolding dns_ok_def by (auto intro: less_le_trans)
  define i where "i = ip AND NOT (md_mask self)"
  have "md_mask self < 0" using pos by (simp add: not_int_def)
  then have i: "0 \<le> i" by (simp add: i_def)
  note d = dns_invD[OF inv]
  show ?thesis
  proof (cases "i < int (length xs)")
    case False
    have none: "lru_lookup i (cache self xs) = (None, cache self xs)"
      using cache_find_idx(2)[OF inv, of i] idx_okD(3)[OF d(11)] False by (force simp: lru_lookup_def)
    have "hev_mapped_dns_lookup ip self = Some (None, self)"
      using idx_okD(2)[OF d(11), of "nat i"] d(8) False i
      by (auto simp: hev_mapped_dns_lookup_def Let_def i_def[symmetric])
    with none assms show ?thesis by (auto simp: i_def[symmetric])
  next
    case True
    then have k: "nat i < length xs" "nat i < length (md_records self)" "i < md_max self" using i d(6-8) by auto
    define p where "p = md_records self ! nat i"
    have p: "p \<in> set xs" "node_idx self p = i" using idx_okD(1)[OF d(11) k(2,1)] i by (auto simp: p_def)
    obtain n where n: "md_nodes self p = Some n" "node_name self p = dn_name n" "p \<noteq> 0" by (rule dns_inv_node[OF inv p(1)])
    obtain l where l: "dns_touch p self = Some (self\<lparr>md_list := l\<rparr>)" "dns_inv (self\<lparr>md_list := l\<rparr>) t (remove1 p xs @ [p])"
      using touch_inv[OF inv p(1)] by blast
    have "hev_mapped_dns_lookup ip self = Some (Some (dn_name n), self\<lparr>md_list := l\<rparr>)"
      using k i n l(1) by (simp add: hev_mapped_dns_lookup_def Let_def i_def[symmetric] p_def[symmetric])
    moreover have "dns_ok (self\<lparr>md_list := l\<rparr>) t (remove1 p xs @ [p])"
      by (rule touch_ok[OF assms l(2) p(1)])
    moreover have "lru_lookup i (cache self xs) = (Some (dn_name n), cache (self\<lparr>md_list := l\<rparr>) (remove1 p xs @ [p]))"
      using cache_find_idx(1)[OF inv p] cache_touch[OF inv p(1)] p(2) n(2) by (simp add: lru_lookup_def)
    ultimately show ?thesis by (auto simp: i_def[symmetric])
  qed
qed

end
