(* ===== verification/DNS_Answers.thy ===== *)
theory DNS_Answers
  imports Mapped_DNS
begin

text \<open>
  What a client of the mapped DNS (\<open>hev-mapped-dns.c\<close>) can rely on: an address that it gave out leads back to the
  name for as long as the cache has not been used for too many other names, and the answer to a query carries
  such an address.
\<close>

section \<open>Sequences of operations\<close>

datatype dns_op = Find "byte list" | Lookup int

fun dns_run :: "dns_op list \<Rightarrow> HevMappedDNS \<Rightarrow> HevMappedDNS option" where
  "dns_run [] self = Some self"
| "dns_run (Find name # ops) self = Option.bind (hev_mapped_dns_find name self) (\<lambda>(_, self). dns_run ops self)"
| "dns_run (Lookup ip # ops) self = Option.bind (hev_mapped_dns_lookup ip self) (\<lambda>(_, self). dns_run ops self)"

fun op_ok :: "dns_op \<Rightarrow> bool" where
  "op_ok (Find name) \<longleftrightarrow> 0 \<notin> set name"
| "op_ok (Lookup ip) \<longleftrightarrow> True"

text \<open>\<open>recent n x c\<close>: at most \<open>n\<close> entries of the cache were used after the entry \<open>x\<close>.\<close>

definition recent :: "nat \<Rightarrow> 'a \<Rightarrow> 'a list \<Rightarrow> bool" where
  "recent n x c \<longleftrightarrow> (\<exists>as bs. c = as @ x # bs \<and> length bs \<le> n)"

lemma recentI: "c = as @ x # bs \<Longrightarrow> length bs \<le> n \<Longrightarrow> recent n x c"
  unfolding recent_def by blast

lemma recent_last [simp]: "recent n x (c @ [x])"
  by (rule recentI[of _ c _ "[]"]) simp_all

lemma recent_Suc: "recent n x c \<Longrightarrow> recent (Suc n) x c"
  unfolding recent_def using le_SucI by blast

lemma recent_snoc: "recent n x c \<Longrightarrow> recent (Suc n) x (c @ [y])"
  by (force simp: recent_def)

lemma recent_use:
  assumes "recent n x c"
  shows "recent (Suc n) x (remove1 y c @ [y])"
proof (cases "x = y")
  case False
  from assms obtain as bs where "c = as @ x # bs" "length bs \<le> n" by (auto simp: recent_def)
  with False have "remove1 y c = remove1 y as @ x # bs \<or> remove1 y c = as @ x # remove1 y bs" "length (remove1 y bs) \<le> n"
    by (auto simp: remove1_append length_remove1)
  with \<open>length bs \<le> n\<close> have "recent n x (remove1 y c)" unfolding recent_def by metis
  then show ?thesis by (rule recent_snoc)
qed simp

lemma recent_drop:
  assumes "recent n x c" and "Suc n < length c"
  shows "recent (Suc n) x (tl c @ [y])"
proof -
  from assms obtain as bs where "c = as @ x # bs" "length bs \<le> n" by (auto simp: recent_def)
  with assms(2) have "c = as @ x # bs" "length bs \<le> n" "as \<noteq> []" by auto
  then have "recent n x (tl c)" by (auto simp: recent_def neq_Nil_conv)
  then show ?thesis by (rule recent_snoc)
qed

lemma recent_find:
  assumes "recent n x c" and "int (Suc n) < cap"
  shows "recent (Suc n) x (snd (lru_find mem cap name c))"
proof -
  show ?thesis
    using recent_Suc[OF assms(1)] recent_use[OF assms(1)] recent_snoc[OF assms(1)] recent_drop[OF assms(1)] assms(2)
    by (auto simp: lru_find_def split: option.splits)
qed

lemma recent_lookup:
  assumes "recent n x c"
  shows "recent (Suc n) x (snd (lru_lookup i c))"
proof -
  show ?thesis using recent_Suc[OF assms] recent_use[OF assms] by (auto simp: lru_lookup_def split: option.splits)
qed

lemma run_step:
  assumes "dns_ok self t xs" and "op_ok op"
  shows "\<exists>s t' xs'. dns_run (op # ops) self = dns_run ops s \<and> dns_ok s t' xs' \<and>
    (md_max s, md_net s, md_mask s) = (md_max self, md_net self, md_mask self) \<and>
    (\<forall>n x. recent n x (cache self xs) \<longrightarrow> int (Suc n) < md_max self \<longrightarrow> recent (Suc n) x (cache s xs'))"
proof (cases op)
  case (Find name)
  with find_lru[OF assms(1), of name] assms(2) obtain i s t' xs'
    where f: "hev_mapped_dns_find name self = Some (i, s)" "dns_ok s t' xs'"
      "(md_max s, md_net s, md_mask s) = (md_max self, md_net self, md_mask self)"
      "lru_find (dns_mem self) (md_max self) name (cache self xs) = (i, cache s xs')" by auto
  have "\<forall>n x. recent n x (cache self xs) \<longrightarrow> int (Suc n) < md_max self \<longrightarrow> recent (Suc n) x (cache s xs')"
    using recent_find[of _ _ "cache self xs" "md_max self" "dns_mem self" name] by (simp add: f(4))
  with f(1-3) Find show ?thesis by auto
next
  case (Lookup ip)
  obtain r s xs' where f: "hev_mapped_dns_lookup ip self = Some (r, s)" "dns_ok s t xs'"
      "(md_max s, md_net s, md_mask s) = (md_max self, md_net self, md_mask self)"
      "lru_lookup (ip AND NOT (md_mask self)) (cache self xs) = (r, cache s xs')"
    using lookup_lru[OF assms(1), of ip] by blast
  have "\<forall>n x. recent n x (cache self xs) \<longrightarrow> int (Suc n) < md_max self \<longrightarrow> recent (Suc n) x (cache s xs')"
    using recent_lookup[of _ _ "cache self xs" "ip AND NOT (md_mask self)"] by (simp add: f(4))
  with f(1-3) Lookup show ?thesis by auto
qed

lemma run_recent:
  assumes "dns_ok self t xs" and "list_all op_ok ops" and "recent n x (cache self xs)" and "int (n + length ops) < md_max self"
  shows "\<exists>s t' xs'. dns_run ops self = Some s \<and> dns_ok s t' xs' \<and> recent (n + length ops) x (cache s xs') \<and>
    (md_max s, md_net s, md_mask s) = (md_max self, md_net self, md_mask self)"
  using assms
proof (induction ops arbitrary: self t xs n)
  case (Cons op ops)
  have op: "op_ok op" "int (Suc n) < md_max self" using Cons.prems(2,4) by simp_all
  from run_step[OF Cons.prems(1) op(1), of ops] op(2) Cons.prems(3)
  obtain s t' xs' where s: "dns_run (op # ops) self = dns_run ops s" "dns_ok s t' xs'"
      "(md_max s, md_net s, md_mask s) = (md_max self, md_net self, md_mask self)" "recent (Suc n) x (cache s xs')"
    by blast
  have "list_all op_ok ops" "int (Suc n + length ops) < md_max s" using Cons.prems(2,4) s(3) by simp_all
  from Cons.IH[OF s(2) this(1) s(4) this(2)] s(1,3) show ?case by auto
qed auto

lemma run_ok:
  assumes "dns_ok self t xs" and "list_all op_ok ops"
  shows "\<exists>s t' xs'. dns_run ops self = Some s \<and> dns_ok s t' xs' \<and>
    (md_max s, md_net s, md_mask s) = (md_max self, md_net self, md_mask self)"
  using assms
proof (induction ops arbitrary: self t xs)
  case (Cons op ops)
  then obtain s t' xs' where s: "dns_run (op # ops) self = dns_run ops s" "dns_ok s t' xs'"
      "(md_max s, md_net s, md_mask s) = (md_max self, md_net self, md_mask self)"
    using run_step[OF Cons.prems(1), of op ops] by auto
  from Cons.IH[OF s(2)] Cons.prems(2) s(1,3) show ?case by auto
qed auto

text \<open>
  C33: The cache implements its specification, a list of names with their indices, least recently used first: a
  known name keeps its index, a new one takes an unused index or that of the least recently used name, an
  address gives the name of its index and counts as use, and when memory runs out a new name gets no index
  and nothing changes.  The tree, the list and the array stay consistent with each other.
\<close>

theorem mapped_dns_implements_lru:
  assumes "dns_ok self t xs" and "0 \<notin> set name"
  shows "(\<exists>i s t' xs'. hev_mapped_dns_find name self = Some (i, s) \<and> dns_ok s t' xs' \<and>
      lru_find (dns_mem self) (md_max self) name (cache self xs) = (i, cache s xs')) \<and>
    (\<exists>r s xs'. hev_mapped_dns_lookup ip self = Some (r, s) \<and> dns_ok s t xs' \<and>
      lru_lookup (ip AND NOT (md_mask self)) (cache self xs) = (r, cache s xs'))"
  using find_lru[OF assms] lookup_lru[OF assms(1), of ip] by blast

section \<open>Names for addresses\<close>

lemma network_index:
  assumes "NOT msk = mask k" and "net AND mask k = 0" and "0 \<le> i" and "i \<le> NOT msk"
  shows "(net OR i) AND NOT msk = (i :: int)"
proof -
  have "i < 2 ^ k" using assms(1,4) by (simp add: mask_eq_exp_minus_1)
  then have "i AND mask k = i" using assms(3) by (simp add: take_bit_eq_mask[symmetric] take_bit_int_eq_self)
  with assms(1,2) show ?thesis by (simp add: bit.conj_disj_distrib2)
qed

lemma network_member:
  assumes "NOT msk = mask k" and "net AND mask k = 0" and "0 \<le> i" and "i \<le> NOT msk"
  shows "(net OR i) AND msk = (net :: int)"
proof (rule bit_eqI)
  fix n
  have "i < 2 ^ k" using assms(1,4) by (simp add: mask_eq_exp_minus_1)
  then have "i AND mask k = i" using assms(3) by (simp add: take_bit_eq_mask[symmetric] take_bit_int_eq_self)
  then have "bit i n \<longrightarrow> bit (mask k :: int) n" by (metis bit_and_iff)
  moreover have "bit net n \<longrightarrow> \<not> bit (mask k :: int) n" using assms(2) by (metis bit_and_iff bit_0_eq bot_apply bot_bool_def)
  moreover have "bit msk n \<longleftrightarrow> \<not> bit (mask k :: int) n" using assms(1) by (metis bit_not_int_iff)
  ultimately show "bit ((net OR i) AND msk) n = bit net n" by (auto simp: bit_and_iff bit_or_iff)
qed

lemma recent_indices:
  assumes "dns_inv s t xs" and "recent n (name, i) (cache s xs)"
  shows "fst (lru_lookup i (cache s xs)) = Some name" and "0 \<le> i" and "i < md_max s"
proof -
  have "(name, i) \<in> set (cache s xs)" using assms(2) by (auto simp: recent_def)
  then obtain p where p: "p \<in> set xs" "node_name s p = name" "node_idx s p = i" by (auto simp: cache_def)
  from cache_find_idx(1)[OF assms(1) p(1,3)] p(2) show "fst (lru_lookup i (cache s xs)) = Some name"
    by (simp add: lru_lookup_def)
  from idx_okD(3)[OF dns_invD(11)[OF assms(1)] p(1)] dns_invD(6,7)[OF assms(1)] p(3) show "0 \<le> i" "i < md_max s" by auto
qed

lemma recent_resolves:
  assumes "dns_ok s t xs" and "recent n (name, i) (cache s xs)" and "NOT (md_mask s) = mask k" and "md_net s AND mask k = 0"
  shows "\<exists>s' xs'. hev_mapped_dns_lookup (md_net s OR i) s = Some (Some name, s') \<and> dns_ok s' t xs'"
proof -
  have inv: "dns_inv s t xs" "md_max s \<le> NOT (md_mask s)" using assms(1) by (simp_all add: dns_ok_def)
  note i = recent_indices[OF inv(1) assms(2)]
  have "(md_net s OR i) AND NOT (md_mask s) = i" by (rule network_index[OF assms(3,4) i(2)]) (use i(3) inv(2) in linarith)
  with lookup_lru[OF assms(1), of "md_net s OR i"] i(1) show ?thesis by (metis fst_conv)
qed

lemma run_resolves:
  assumes "dns_ok s t xs" and "recent 0 (name, i) (cache s xs)" and "list_all op_ok ops" and "int (length ops) < md_max s"
    and "NOT (md_mask s) = mask k" and "md_net s AND mask k = 0"
  shows "\<exists>s' s''. dns_run ops s = Some s' \<and> hev_mapped_dns_lookup (md_net s OR i) s' = Some (Some name, s'')"
proof -
  have "int (0 + length ops) < md_max s" using assms(4) by simp
  from run_recent[OF assms(1,3,2) this] obtain s' t' xs' where s': "dns_run ops s = Some s'" "dns_ok s' t' xs'"
      "recent (0 + length ops) (name, i) (cache s' xs')" "(md_max s', md_net s', md_mask s') = (md_max s, md_net s, md_mask s)"
    by blast
  have "NOT (md_mask s') = mask k" "md_net s' AND mask k = 0" "md_net s' = md_net s" using assms(5,6) s'(4) by simp_all
  with recent_resolves[OF s'(2,3)] s'(1) show ?thesis by metis
qed

lemma find_recent:
  assumes "dns_ok self t xs" and "0 \<notin> set name" and "dns_mem self"
  shows "\<exists>i s t' xs'. hev_mapped_dns_find name self = Some (i, s) \<and> dns_ok s t' xs' \<and> recent 0 (name, i) (cache s xs') \<and> 0 \<le> i \<and>
    (md_max s, md_net s, md_mask s) = (md_max self, md_net self, md_mask self)"
proof -
  obtain i s t' xs' where s: "hev_mapped_dns_find name self = Some (i, s)" "dns_ok s t' xs'"
      "(md_max s, md_net s, md_mask s) = (md_max self, md_net self, md_mask self)"
      "lru_find (dns_mem self) (md_max self) name (cache self xs) = (i, cache s xs')"
    using find_lru[OF assms(1,2)] by blast
  have r: "recent 0 (name, i) (cache s xs')"
    using s(4)[symmetric] assms(3) by (auto simp: lru_find_def split: option.splits if_splits)
  then have "0 \<le> i" using recent_indices(2) s(2) unfolding dns_ok_def by blast
  with s r show ?thesis by blast
qed

text \<open>
  C34: An address that the mapped DNS hands out is good for a while: after \<open>find\<close> gave a name an index, any fewer
  than \<open>max\<close> further finds and lookups run to their end, whether memory runs out or the memory of freed nodes is
  used again, and the address made of the network and the index still leads to the name.  The network has
  to be given as a proper prefix and without host bits.
\<close>

theorem address_stays_valid:
  assumes "dns_ok self t xs" and "0 \<notin> set name" and "dns_mem self"
    and "list_all op_ok ops" and "int (length ops) < md_max self"
    and "NOT (md_mask self) = mask k" and "md_net self AND mask k = 0"
  shows "\<exists>i s s' s''. hev_mapped_dns_find name self = Some (i, s) \<and> dns_run ops s = Some s' \<and>
    hev_mapped_dns_lookup (md_net self OR i) s' = Some (Some name, s'')"
proof -
  obtain i s t1 xs1 where s: "hev_mapped_dns_find name self = Some (i, s)" "dns_ok s t1 xs1" "recent 0 (name, i) (cache s xs1)"
      "(md_max s, md_net s, md_mask s) = (md_max self, md_net self, md_mask self)"
    using find_recent[OF assms(1-3)] by blast
  have "int (length ops) < md_max s" "NOT (md_mask s) = mask k" "md_net s AND mask k = 0" using assms(5-7) s(4) by simp_all
  from run_resolves[OF s(2,3) assms(4) this] s(1,4) show ?thesis by auto
qed


definition dns_empty :: "u64 list \<Rightarrow> int \<Rightarrow> int \<Rightarrow> int \<Rightarrow> HevMappedDNS" where
  "dns_empty heap net msk cap =
     \<lparr>md_use = 0, md_max = cap, md_net = net, md_mask = msk, md_list = \<lparr>ls_head = 0, ls_tail = 0, ls_mem = Map.empty\<rparr>,
      md_tree = \<lparr>rt_root = 0, rt_mem = Map.empty\<rparr>, md_records = replicate (nat cap) 0, md_nodes = Map.empty, md_heap = heap\<rparr>"

lemma dns_new: "cap \<le> NOT msk \<Longrightarrow> hev_mapped_dns_new True heap net msk cap = Some (dns_empty heap net msk cap)"
  by (simp add: hev_mapped_dns_new_def hev_mapped_dns_construct_def dns_empty_def del: not_int_def)

lemma dns_new_ok:
  assumes "0 < cap" and "cap \<le> NOT msk" and "heap_ok heap"
  shows "dns_ok (dns_empty heap net msk cap) Lf []"
proof -
  have "idx_ok f (replicate n 0) []" for f n by (simp add: idx_ok_def)
  moreover have "represents \<lparr>rt_root = 0, rt_mem = Map.empty\<rparr> Lf" by (simp add: represents_def at_def)
  ultimately show ?thesis using assms
    by (simp add: dns_ok_def dns_inv_def dns_empty_def list_rep_def rb_def del: not_int_def)
qed


text \<open>
  C35: The mapped DNS is always well formed: whatever finds and lookups follow its creation, and also when the
  allocator fails or returns the addresses of freed nodes again, none accesses bad memory, frees a node twice or
  goes round in circles.  In the end the tree is a red-black tree sorted by name, tree and list hold the
  same nodes and all that are allocated, and records and indices are inverse to each other.
\<close>

theorem mapped_dns_well_formed:
  assumes "hev_mapped_dns_new True heap net msk cap = Some self" and "0 < cap" and "heap_ok heap" and "list_all op_ok ops"
  shows "\<exists>s t xs. dns_run ops self = Some s \<and> dns_ok s t xs"
proof -
  have "cap \<le> NOT msk" using assms(1) by (auto simp: hev_mapped_dns_new_def hev_mapped_dns_construct_def split: if_splits)
  with assms(1) dns_new[of cap msk heap net] have "self = dns_empty heap net msk cap" by simp
  with run_ok[OF dns_new_ok[OF assms(2) \<open>cap \<le> NOT msk\<close> assms(3)] assms(4)] show ?thesis by blast
qed

theorem mapped_dns_well_formed_witness:
  "\<exists>s t xs. dns_run [Find [97], Find [98], Find [99], Lookup 1, Find [98], Find [97]]
     (dns_empty [8, 0, 16, 24, 8, 16] 0x0A000000 (-256) 2) = Some s \<and> dns_ok s t xs"
proof -
  have "hev_mapped_dns_new True [8, 0, 16, 24, 8, 16] 0x0A000000 (-256) 2 = Some (dns_empty [8, 0, 16, 24, 8, 16] 0x0A000000 (-256) 2)"
    by (rule dns_new) simp
  then show ?thesis by (rule mapped_dns_well_formed) (simp_all add: ptr_ok_def al_def)
qed

theorem address_stays_valid_witness:
  "\<exists>i s s' s''. hev_mapped_dns_find [97] (dns_empty [8, 16] 0x0A000000 (-256) 2) = Some (i, s) \<and>
    dns_run [Find [98]] s = Some s' \<and> hev_mapped_dns_lookup (0x0A000000 OR i) s' = Some (Some [97], s'')"
proof -
  have "dns_ok (dns_empty [8, 16] 0x0A000000 (-256) 2) Lf []" by (rule dns_new_ok) (simp_all add: ptr_ok_def al_def)
  from address_stays_valid[OF this, of "[97]" "[Find [98]]" 8] show ?thesis
    by (simp add: dns_empty_def dns_mem_def mask_eq_exp_minus_1)
qed

theorem mapped_dns_implements_lru_witness:
  "(\<exists>i s t' xs'. hev_mapped_dns_find [97] (dns_empty [8] 0x0A000000 (-256) 1) = Some (i, s) \<and> dns_ok s t' xs' \<and>
      (0, [([97], 0)]) = (i, cache s xs')) \<and>
    (\<exists>r s xs'. hev_mapped_dns_lookup 3 (dns_empty [8] 0x0A000000 (-256) 1) = Some (r, s) \<and> dns_ok s Lf xs' \<and>
      (None, []) = (r, cache s xs'))"
proof -
  have "dns_ok (dns_empty [8] 0x0A000000 (-256) 1) Lf []" by (rule dns_new_ok) (simp_all add: ptr_ok_def al_def)
  from mapped_dns_implements_lru[OF this, of "[97]" 3] show ?thesis
    by (simp add: cache_def lru_find_def lru_lookup_def dns_mem_def) (simp add: dns_empty_def)
qed

text \<open>The object after the nodes \<open>xs\<close> have been freed.\<close>

definition dns_freed :: "u64 list \<Rightarrow> HevMappedDNS \<Rightarrow> HevMappedDNS" where
  "dns_freed xs self =
     self\<lparr>md_nodes := (md_nodes self) |` (- set xs),
          md_tree := (md_tree self)\<lparr>rt_mem := rt_mem (md_tree self) |` (- set xs)\<rparr>,
          md_list := (md_list self)\<lparr>ls_mem := ls_mem (md_list self) |` (- set xs)\<rparr>\<rparr>"

lemma restrict_forget: "m |` UNIV = m" "m |` (- insert x A) = m(x := None) |` (- A)"
  by (auto simp: restrict_map_def fun_eq_iff)

lemma dns_freed_Nil: "dns_freed [] self = self"
  by (simp add: dns_freed_def restrict_forget)

lemma dns_freed_Cons: "dns_freed xs (dns_forget x self) = dns_freed (x # xs) self"
  unfolding dns_freed_def dns_forget_def list.set restrict_forget(2) by simp

lemma free_all:
  assumes "seg (ls_mem (md_list self)) q xs 0" and "distinct xs" and "set xs \<subseteq> dom (md_nodes self)"
  shows "dns_free_all (hd0 xs 0) self = Some (dns_freed xs self)"
  using assms
proof (induction xs arbitrary: self q)
  case Nil
  then show ?case by (subst dns_free_all.simps) (simp add: dns_freed_Nil)
next
  case (Cons x xs)
  let ?s = "dns_forget x self"
  have "hev_mapped_dns_node_free x self = Some ?s" using Cons.prems(3) by (auto simp: hev_mapped_dns_node_free_def)
  moreover have "seg (ls_mem (md_list ?s)) x xs 0" "set xs \<subseteq> dom (md_nodes ?s)"
    using Cons.prems by (auto simp: dns_forget_def)
  with Cons.IH[of ?s x] Cons.prems(2) have "dns_free_all (hd0 xs 0) ?s = Some (dns_freed (x # xs) self)"
    by (simp add: dns_freed_Cons)
  moreover have "x \<noteq> 0" "hev_list_node_next x (md_list self) = Some (hd0 xs 0)"
    using Cons.prems(1) by (auto simp: hev_list_node_next_def)
  ultimately show ?case by (subst dns_free_all.simps) simp
qed

text \<open>
  C36: Destroying the mapped DNS walks the list to its end and frees every node that is allocated exactly once, none
  of them twice and none read after it was freed.  Afterwards no node is allocated, the memory of exactly the
  nodes of the cache is gone, and nothing else of the state has changed.
\<close>

theorem mapped_dns_destruct_frees:
  assumes "dns_ok self t xs"
  shows "hev_mapped_dns_destruct self = Some (self\<lparr>md_nodes := Map.empty,
     md_tree := (md_tree self)\<lparr>rt_mem := rt_mem (md_tree self) |` (- set xs)\<rparr>,
     md_list := (md_list self)\<lparr>ls_mem := ls_mem (md_list self) |` (- set xs)\<rparr>\<rparr>)"
proof -
  have inv: "dns_inv self t xs" using assms by (simp add: dns_ok_def)
  have l: "list_rep (md_list self) xs" "distinct xs" "dom (md_nodes self) = set xs" using dns_invD(4,9,13)[OF inv] .
  have "md_nodes self p = None" if "p \<notin> set xs" for p using that l(3) by auto
  then have "(md_nodes self) |` (- set xs) = Map.empty" by (auto simp: restrict_map_def fun_eq_iff)
  moreover have "seg (ls_mem (md_list self)) 0 xs 0" using l(1) by (simp add: list_rep_def)
  ultimately show ?thesis using free_all[of self 0 xs] l
    by (simp add: hev_mapped_dns_destruct_def list_ends dns_freed_def)
qed

theorem mapped_dns_destruct_frees_witness:
  "\<exists>s s'. dns_run [Find [97], Find [98]] (dns_empty [8, 16] 0x0A000000 (-256) 2) = Some s \<and>
     md_nodes s 8 \<noteq> None \<and> md_nodes s 16 \<noteq> None \<and>
     hev_mapped_dns_destruct s = Some s' \<and> md_nodes s' = Map.empty"
proof -
  let ?s = "dns_empty [8, 16] 0x0A000000 (-256) 2"
  have "dns_ok ?s Lf []" by (rule dns_new_ok) (simp_all add: ptr_ok_def al_def)
  from run_ok[OF this, of "[Find [97], Find [98]]"] obtain s t xs where s: "dns_run [Find [97], Find [98]] ?s = Some s" "dns_ok s t xs"
    by auto
  have "map_option (\<lambda>s. (md_nodes s 8 \<noteq> None, md_nodes s 16 \<noteq> None)) (dns_run [Find [97], Find [98]] ?s) = Some (True, True)"
    by code_simp
  with s(1) mapped_dns_destruct_frees[OF s(2)] show ?thesis by auto
qed


section \<open>Queries\<close>

text \<open>A name in a query: the labels, each with its length in front, and a closing zero.\<close>

definition label_ok :: "byte list \<Rightarrow> bool" where
  "label_ok l \<longleftrightarrow> l \<noteq> [] \<and> length l < 256 \<and> 0 \<notin> set l"

definition encode_labels :: "byte list list \<Rightarrow> byte list" where
  "encode_labels ls = concat (map (\<lambda>l. of_nat (length l) # l) ls)"

definition dots :: "byte list list \<Rightarrow> byte list" where
  "dots ls = concat (map (\<lambda>l. 46 # l) ls)"

definition dotted :: "byte list list \<Rightarrow> byte list" where
  "dotted ls = tl (dots ls)"

lemma labels_simps [simp]:
  "encode_labels [] = []" "encode_labels (l # ls) = of_nat (length l) # l @ encode_labels ls"
  "dots [] = []" "dots (l # ls) = 46 # l @ dots ls" "length (dots ls) = length (encode_labels ls)"
  by (simp_all add: encode_labels_def dots_def length_concat comp_def)

lemma dots_ok: "list_all label_ok ls \<Longrightarrow> 0 \<notin> set (dots ls)"
  by (induction ls) (auto simp: label_ok_def)

lemma dotted_ok: "list_all label_ok ls \<Longrightarrow> 0 \<notin> set (dotted ls)"
  using dots_ok[of ls] by (cases ls) (auto simp: dotted_def)

lemma label_len: "label_ok l \<Longrightarrow> unat (of_nat (length l) :: byte) = length l"
  by (simp add: label_ok_def unat_of_nat)

lemma dns_labels_encoded:
  assumes "list_all label_ok ls" and "off = length pre"
  shows "dns_labels off (pre @ encode_labels ls @ 0 # rest) =
    Some (Some (off + length (encode_labels ls), pre @ dots ls @ 0 # rest))"
  using assms
proof (induction ls arbitrary: pre off)
  case Nil
  then show ?case by (subst dns_labels.simps) simp
next
  case (Cons l ls)
  have l: "label_ok l" "l \<noteq> []" using Cons.prems(1) by (simp_all add: label_ok_def)
  have nz: "(of_nat (length l) :: byte) \<noteq> 0" using label_len[OF l(1)] l(2) by auto
  have "dns_labels (off + 1 + length l) ((pre @ 46 # l) @ encode_labels ls @ 0 # rest) =
      Some (Some (off + 1 + length l + length (encode_labels ls), (pre @ 46 # l) @ dots ls @ 0 # rest))"
    by (rule Cons.IH) (use Cons.prems in simp_all)
  then show ?case using nz Cons.prems(2) by (subst dns_labels.simps) (simp add: label_len[OF l(1)] nth_append)
qed

lemma cstr_dots:
  assumes "list_all label_ok ls" and "length pre = 12" and "ls \<noteq> []"
  shows "cstr (drop 13 (pre @ dots ls @ 0 # rest)) = dotted ls"
proof -
  obtain ds where ds: "dots ls = 46 # ds" using assms(3) by (cases ls) auto
  have "0 \<notin> set ds" using dots_ok[OF assms(1)] ds by simp
  then have "takeWhile (\<lambda>b. b \<noteq> 0) (ds @ 0 # rest) = ds" by (subst takeWhile_append2) auto
  then show ?thesis using assms(2) ds by (simp add: cstr_def dotted_def)
qed


lemma read_u16_append: "length pre = k \<Longrightarrow> read_u16 (pre @ a # b # rest) k = push_bit 8 (ucast a) OR ucast b"
  "length pre = k \<Longrightarrow> read_u16 (pre @ x # y # a # b # rest) (k + 2) = push_bit 8 (ucast a) OR ucast b"
  by (simp_all add: read_u16_def nth_append)

lemma questions_one:
  assumes "list_all label_ok ls" and "length pre = 12" and "ls \<noteq> []"
  shows "dns_questions (Suc 0) 12 (pre @ encode_labels ls @ [0, 0, 1, 0, 1] @ rest) [] self =
    Option.bind (hev_mapped_dns_find (dotted ls) self) (\<lambda>(idx, s).
      Some (Some (17 + length (encode_labels ls), pre @ dots ls @ [0, 0, 1, 0, 1] @ rest,
        if idx \<ge> 0 then [(12, md_net s OR idx)] else []), s))"
proof -
  define n where "n = 12 + length (encode_labels ls)"
  define req where "req = pre @ encode_labels ls @ [0, 0, 1, 0, 1] @ rest"
  define qb where "qb = pre @ dots ls @ [0, 0, 1, 0, 1] @ rest"
  have l: "dns_labels 12 req = Some (Some (n, qb))"
    using dns_labels_encoded[OF assms(1), of 12 pre "[0, 1, 0, 1] @ rest"] assms(2) by (simp add: req_def qb_def n_def)
  have len: "length ((pre @ dots ls) @ [0]) = n + 1" using assms(2) by (simp add: n_def)
  have r: "read_u16 qb (n + 1) = 1" "read_u16 qb (n + 3) = 1"
    using read_u16_append(1)[OF len, of 0 1 "[0, 1] @ rest"] read_u16_append(2)[OF len, of 0 1 0 1 rest]
    by (simp_all add: qb_def numeral_3_eq_3)
  have c: "cstr (drop 13 qb) = dotted ls"
    using cstr_dots[OF assms, of "[0, 1, 0, 1] @ rest"] by (simp only: qb_def append_Cons)
  have b: "\<not> length qb \<le> n + 1 + 3" using assms(2) by (simp add: qb_def n_def)
  have "dns_questions (Suc 0) 12 req [] self = Option.bind (hev_mapped_dns_find (dotted ls) self) (\<lambda>(idx, s).
      Some (Some (n + 5, qb, if idx \<ge> 0 then [(12, md_net s OR idx)] else []), s))"
    using l r c b by (simp cong: if_cong)
  then show ?thesis by (simp add: n_def req_def qb_def)
qed


lemma overwrite_header: "length h = k \<Longrightarrow> off + length ys \<le> k \<Longrightarrow> overwrite (h @ xs) off ys = overwrite h off ys @ xs"
  by (simp add: overwrite_def)

lemma overwrite_middle: "length h = off \<Longrightarrow> overwrite (h @ xs) off ys = h @ ys @ drop (length ys) xs"
  by (simp add: overwrite_def)

lemma bit_push_1: "bit (push_bit k 1 :: 'a :: len word) n \<longleftrightarrow> n = k \<and> k < LENGTH('a)"
  by (auto simp: bit_simps bit_1_iff)

lemma reply_flags:
  fixes f0 f1 :: byte
  defines "fl \<equiv> ntohs (mem_u16 [f0, f1])"
  shows "u16_mem (ntohs (fl OR 0x8000 OR drop_bit 1 (fl AND 0x100))) = [f0 OR 0x80, f1 OR push_bit 7 (f0 AND 1)]"
proof -
  define a b :: u16 and c :: byte where "a = push_bit 15 1" and "b = push_bit 8 1" and "c = push_bit 7 1"
  have n: "bit a n \<longleftrightarrow> n = 15" "bit b n \<longleftrightarrow> n = 8" "bit c n \<longleftrightarrow> n = 7" for n
    unfolding a_def b_def c_def by (simp_all add: bit_push_1 del: push_bit_of_1)
  have k: "(0x8000 :: u16) = a" "(0x100 :: u16) = b" "(0x80 :: byte) = c" by (simp_all add: a_def b_def c_def)
  have f: "\<not> bit f0 (8 + n)" "\<not> bit f1 (8 + n)" for n
    using bit_imp_le_length[of f0 "8 + n"] bit_imp_le_length[of f1 "8 + n"] by auto
  have "ucast (ntohs (fl OR a OR drop_bit 1 (fl AND b))) = f0 OR c"
    unfolding fl_def using f by (intro bit_word_eqI) (auto simp: ntohs_def mem_u16_def bit_simps n)
  moreover have "ucast (drop_bit 8 (ntohs (fl OR a OR drop_bit 1 (fl AND b)))) = f1 OR push_bit 7 (f0 AND 1)"
    unfolding fl_def using f by (intro bit_word_eqI) (auto simp: ntohs_def mem_u16_def bit_simps n)
  ultimately show ?thesis unfolding k by (simp add: u16_mem_def)
qed


text \<open>A query for one address, and its answer.\<close>

definition dns_query :: "byte list \<Rightarrow> byte \<Rightarrow> byte \<Rightarrow> byte list \<Rightarrow> byte list list \<Rightarrow> byte list" where
  "dns_query qid f0 f1 counts ls = qid @ [f0, f1, 0, 1] @ counts @ encode_labels ls @ [0, 0, 1, 0, 1]"

definition dns_reply :: "byte list \<Rightarrow> byte \<Rightarrow> byte \<Rightarrow> byte list \<Rightarrow> byte list list \<Rightarrow> int \<Rightarrow> byte list" where
  "dns_reply qid f0 f1 ar ls ip =
     qid @ [f0 OR 0x80, f1 OR push_bit 7 (f0 AND 1), 0, 1, 0, 1, 0, 0] @ ar @ encode_labels ls @ [0, 0, 1, 0, 1] @
     [0xc0, 12, 0, 1, 0, 1, 0, 0, 0, 1, 0, 4] @ write_u32 (of_int ip)"

lemma header_first:
  "overwrite (overwrite (overwrite ([i0, i1, f0, f1, 0, 1, a0, a1, n0, n1, r0, r1] @ X) 2 (u16_mem v)) 8 [0, 0]) 6 [0, 0] =
    ([i0, i1] @ u16_mem v @ [0, 1, 0, 0, 0, 0, r0, r1]) @ X"
  by (simp add: overwrite_def u16_mem_def)

lemma header_last:
  "overwrite (overwrite (([i0, i1] @ u16_mem v @ [0, 1, 0, 0, 0, 0, r0, r1]) @ X) 2 (u16_mem w)) 6 (u16_mem (ntohs (of_nat (length [z])))) =
    ([i0, i1] @ u16_mem w @ [0, 1, 0, 1, 0, 0, r0, r1]) @ X"
  by (simp add: overwrite_def u16_mem_def ntohs_def)

lemma header_qd: "overwrite ([i0, i1, f0, f1, 0, 1, a0, a1, n0, n1, r0, r1] @ X) 4 (u16_mem v) =
    ([i0, i1, f0, f1] @ u16_mem v @ [a0, a1, n0, n1, r0, r1]) @ X"
  by (simp add: overwrite_def u16_mem_def)


lemma answer_one:
  assumes "length H = 12" and "off = 12 + length Q" and "off + 16 \<le> length (H @ Q @ Y)"
  shows "dns_answers [(12, ip)] off (H @ Q @ Y) = Some (off + 16, H @ Q @ dns_answer 12 ip @ drop 16 Y)"
proof -
  have l: "length (dns_answer 12 ip) = 16" by (simp add: dns_answer_def write_u16_def write_u32_def)
  have "overwrite ((H @ Q) @ Y) off (dns_answer 12 ip) = (H @ Q) @ dns_answer 12 ip @ drop 16 Y"
    using overwrite_middle[of "H @ Q" off Y "dns_answer 12 ip"] assms(1,2) l by simp
  with assms(3) show ?thesis by simp
qed

lemma handle_one:
  assumes "list_all label_ok ls" and "ls \<noteq> []"
    and "hev_mapped_dns_find (dotted ls) self = Some (idx, s)" and "0 \<le> idx"
    and "length (dns_query [i0, i1] f0 f1 [a0, a1, n0, n1, r0, r1] ls @ rest) \<le> length res"
    and "33 + length (encode_labels ls) \<le> length res"
  shows "\<exists>sb. hev_mapped_dns_handle (dns_query [i0, i1] f0 f1 [a0, a1, n0, n1, r0, r1] ls @ rest) res self =
      Some (int (33 + length (encode_labels ls)), dns_reply [i0, i1] f0 f1 [r0, r1] ls (md_net s OR idx) @ sb, s)"
proof -
  define Q where "Q = encode_labels ls @ [0, 0, 1, 0, 1]"
  define req where "req = dns_query [i0, i1] f0 f1 [a0, a1, n0, n1, r0, r1] ls @ rest"
  have req: "req = [i0, i1, f0, f1, 0, 1, a0, a1, n0, n1, r0, r1] @ Q @ rest" by (simp add: req_def dns_query_def Q_def)
  define Y where "Y = rest @ drop (length req) res"
  have len: "length req \<le> length res" using assms(5) by (simp only: req_def)
  have sb: "overwrite res 0 req = [i0, i1, f0, f1, 0, 1, a0, a1, n0, n1, r0, r1] @ Q @ Y"
    using overwrite_prefix[OF refl len] by (simp add: Y_def req)
  have qd: "ntohs (mem_u16 (chunk req 4 2)) = 1" by (simp add: req chunk_def mem_u16_def ntohs_def)
  define fl where "fl = ntohs (mem_u16 [f0, f1])"
  have fl: "mem_u16 (chunk ([i0, i1, f0, f1, 0, 1, a0, a1, n0, n1, r0, r1] @ Q @ Y) 2 2) = mem_u16 [f0, f1]"
    by (simp add: chunk_def)
  have fl2: "mem_u16 (chunk (([i0, i1] @ u16_mem fl @ [0, 1, 0, 0, 0, 0, r0, r1]) @ Z) 2 2) = fl" for Z
    by (simp add: chunk_def u16_mem_def[of fl]) (simp add: u16_mem_def[symmetric])
  have lh: "length ([i0, i1] @ u16_mem v @ [0, 1, 0, 0, 0, 0, r0, r1]) = 12" for v by simp
  have q: "dns_questions (unat (1 :: u16)) 12 (([i0, i1, f0, f1] @ u16_mem 1 @ [a0, a1, n0, n1, r0, r1]) @ Q @ rest) [] self =
      Some (Some (17 + length (encode_labels ls), ([i0, i1, f0, f1] @ u16_mem 1 @ [a0, a1, n0, n1, r0, r1]) @ dots ls @ [0, 0, 1, 0, 1] @ rest,
        [(12, md_net s OR idx)]), s)"
    using questions_one[OF assms(1) _ assms(2), of "[i0, i1, f0, f1] @ u16_mem 1 @ [a0, a1, n0, n1, r0, r1]" rest self] assms(3,4)
    by (simp add: Q_def)
  have "length (overwrite res 0 req) = length res" using len by simp
  then have room: "33 + length (encode_labels ls) \<le> 12 + length (Q @ Y)" using assms(6) sb by simp
  have a: "dns_answers [(12, ip)] (17 + length (encode_labels ls)) (([i0, i1] @ u16_mem v @ [0, 1, 0, 0, 0, 0, r0, r1]) @ Q @ Y) =
      Some (17 + length (encode_labels ls) + 16, ([i0, i1] @ u16_mem v @ [0, 1, 0, 0, 0, 0, r0, r1]) @ Q @ dns_answer 12 ip @ drop 16 Y)" for v ip
    by (rule answer_one) (use room in \<open>simp_all add: Q_def\<close>)
  have reply: "([i0, i1] @ u16_mem (ntohs (fl OR 0x8000 OR drop_bit 1 (fl AND 0x100))) @ [0, 1, 0, 1, 0, 0, r0, r1]) @ Q @ dns_answer 12 ip @ Z =
      dns_reply [i0, i1] f0 f1 [r0, r1] ls ip @ Z" for ip Z
    unfolding fl_def reply_flags by (simp add: dns_reply_def Q_def dns_answer_def write_u16_def write_u32_def)
  have qb: "overwrite req 4 (u16_mem 1) = ([i0, i1, f0, f1] @ u16_mem 1 @ [a0, a1, n0, n1, r0, r1]) @ Q @ rest"
    by (simp only: req header_qd)
  have g: "\<not> length res < length req" "\<not> (length req < 6 \<or> length res < 10)" "\<not> 32 < unat (1 :: u16)"
    using len by (simp_all add: req)
  show ?thesis
    unfolding hev_mapped_dns_handle_def Let_def req_def[symmetric] qd sb qb fl fl_def[symmetric] header_first
    by (simp only: g if_False q a Option.bind.simps prod.case option.case fl2 header_last reply) (simp add: add.commute)
qed


text \<open>
  C32: A query for the address of a name is answered: the reply is the query with the answer flag, recursion
  available exactly if it was desired, one answer for the name with an address of the network (the network
  with an index below \<open>max\<close>), and no authority records.  A later connection to that address finds the name, with any fewer than \<open>max\<close> uses of the
  cache in between.  Data behind the question is dropped, but the count of additional records (the last two
  bytes of the header) is that of the query.
\<close>

theorem query_answered:
  assumes "dns_ok self t xs" and "dns_mem self" and "list_all label_ok ls" and "ls \<noteq> []"
    and "length (dns_query [i0, i1] f0 f1 [a0, a1, n0, n1, r0, r1] ls @ rest) \<le> length res"
    and "33 + length (encode_labels ls) \<le> length res"
    and "list_all op_ok ops" and "int (length ops) < md_max self"
    and "NOT (md_mask self) = mask k" and "md_net self AND mask k = 0"
  shows "\<exists>idx sb s s' s''. 0 \<le> idx \<and> idx < md_max self \<and> (md_net self OR idx) AND md_mask self = md_net self \<and>
    hev_mapped_dns_handle (dns_query [i0, i1] f0 f1 [a0, a1, n0, n1, r0, r1] ls @ rest) res self =
      Some (int (33 + length (encode_labels ls)), dns_reply [i0, i1] f0 f1 [r0, r1] ls (md_net self OR idx) @ sb, s) \<and>
    dns_run ops s = Some s' \<and> hev_mapped_dns_lookup (md_net self OR idx) s' = Some (Some (dotted ls), s'')"
proof -
  obtain i s t1 xs1 where s: "hev_mapped_dns_find (dotted ls) self = Some (i, s)" "dns_ok s t1 xs1" "recent 0 (dotted ls, i) (cache s xs1)"
      "(md_max s, md_net s, md_mask s) = (md_max self, md_net self, md_mask self)" "0 \<le> i"
    using find_recent[OF assms(1) dotted_ok[OF assms(3)] assms(2)] by blast
  have "int (length ops) < md_max s" "NOT (md_mask s) = mask k" "md_net s AND mask k = 0" using assms(8-10) s(4) by simp_all
  moreover have "dns_inv s t1 xs1" "md_max s \<le> NOT (md_mask s)" using s(2) by (simp_all add: dns_ok_def)
  then have "i < md_max s" "i \<le> NOT (md_mask s)" using recent_indices(3)[of s t1 xs1, OF _ s(3)] by linarith+
  moreover have "md_net s = md_net self" "md_max s = md_max self" "md_mask s = md_mask self" using s(4) by simp_all
  moreover have "(md_net self OR i) AND md_mask self = md_net self"
    by (rule network_member[OF assms(9,10) s(5)]) (use calculation in simp)
  ultimately show ?thesis using s(5) run_resolves[OF s(2,3) assms(7)] handle_one[OF assms(3,4) s(1,5) assms(5,6)] by metis
qed

theorem query_answered_witness:
  "\<exists>idx sb s s' s''. 0 \<le> idx \<and> idx < 2 \<and> (0x0A000000 OR idx) AND (-256) = 0x0A000000 \<and>
    hev_mapped_dns_handle (dns_query [7, 7] 1 0 [0, 0, 0, 0, 0, 1] [[97], [98, 99]] @ [0, 0, 41]) (replicate 64 0)
      (dns_empty [8, 16] 0x0A000000 (-256) 2) =
      Some (38, dns_reply [7, 7] 1 0 [0, 1] [[97], [98, 99]] (0x0A000000 OR idx) @ sb, s) \<and>
    dns_run [Find [100]] s = Some s' \<and> hev_mapped_dns_lookup (0x0A000000 OR idx) s' = Some (Some [97, 46, 98, 99], s'')"
proof -
  have "dns_ok (dns_empty [8, 16] 0x0A000000 (-256) 2) Lf []" by (rule dns_new_ok) (simp_all add: ptr_ok_def al_def)
  moreover have "list_all label_ok [[97], [98, 99]]" by (simp add: label_ok_def)
  moreover have "dotted [[97], [98, 99]] = [97, 46, 98, 99]" by (simp add: dotted_def)
  ultimately show ?thesis
    using query_answered[of "dns_empty [8, 16] 0x0A000000 (-256) 2" Lf "[]" "[[97], [98, 99]]" 7 7 1 0 0 0 0 0 0 1 "[0, 0, 41]"
        "replicate 64 0" "[Find [100]]" 8]
    by (simp add: dns_mem_def dns_query_def mask_eq_exp_minus_1) (simp add: dns_empty_def)
qed

text \<open>A request that ends behind its header although it announces a question is read behind its end.\<close>

lemma short_query_overread:
  "hev_mapped_dns_handle [i0, i1, f0, f1, 0, 1, a0, a1, n0, n1, r0, r1] (replicate 64 0) self = None"
  by (simp add: hev_mapped_dns_handle_def Let_def chunk_def mem_u16_def ntohs_def header_qd[of _ _ _ _ _ _ _ _ _ _ "[]", simplified] dns_labels.simps)

end
