(* ===== verification/Spec2Isabelle.thy ===== *)
theory Spec2Isabelle
  imports Prelude Ring_Buffer Task_IO Socks5_Base Socks5_Client Socks5_Handshake Splice Socks5_UDP RBTree_Walk
    RBTree_Search Authenticator Socks5_Server Server_Session Mapped_DNS DNS_Answers
begin

text \<open>
  A verification library for the native networking core of the Android client: the tunnel
  \<open>hev-socks5-tunnel\<close> (under \<open>src/hev-socks5-tunnel/src\<close>), the SOCKS5 core it uses
  (\<open>src/hev-socks5-tunnel/src/core\<close>) and the parts of the cooperative task system below it
  (\<open>src/hev-socks5-tunnel/third-part/hev-task-system/src\<close>).

  \<^bold>\<open>The program.\<close>  The tunnel reads IP packets from a TUN device, terminates TCP and UDP with lwIP and
  forwards every connection through a SOCKS5 server.  A TCP session connects a client object
  (\<open>hev-socks5-client.c\<close>), runs the SOCKS5 handshake and then copies bytes both ways, through a ring
  buffer on the lwIP side; a UDP session frames datagrams inside the control stream or sends them
  through a relay socket (\<open>hev-socks5-udp.c\<close>).  All of it runs as cooperative tasks whose blocking calls
  (\<open>hev-task-io-socket.c\<close>) retry a non-blocking system call and yield in between.

  \<^bold>\<open>Theories.\<close>
  \<^item> \<open>Prelude\<close>: machine words, byte buffers, scatter/gather vectors, circular index arithmetic.
  \<^item> \<open>Ring_Buffer\<close>: \<open>misc/hev-ring-buffer.c\<close> and the circular buffer of the task system, with 64-bit size
    arithmetic.  Both implement the same queue interface (a locale); any trace of operations refines a
    byte queue, the regions handed out stay inside the buffer, and whatever is stored in the writable ones
    changes neither the queued bytes nor those held for lwIP.
  \<^item> \<open>Task_IO\<close>: the retry loops of \<open>connect\<close>, \<open>recv\<close>, \<open>send\<close>, \<open>recvmsg\<close>, \<open>sendmsg\<close>.  The kernel is a script of
    events per direction; the yielder is a parameter with its contract as a locale.  The regions of \<open>recvmsg\<close>
    lie in objects of the caller's memory, so that it shows which byte lands where.
  \<^item> \<open>Socks5_Base\<close>: the base object, sockets, the yielder with its timeout, and SOCKS5 addresses as raw
    memory, with their conversions from and to \<open>struct sockaddr_in6\<close>.  It interprets the locales of \<open>Task_IO\<close>.
  \<^item> \<open>Socks5_Client\<close>, \<open>Socks5_Handshake\<close>: the client classes and both handshakes; soundness (what a
    successful handshake has sent and received), progress against a correct server, descriptors.
  \<^item> \<open>Splice\<close>: the copy loop \<open>hev_task_io_splice\<close> between two sockets over two circular buffers.
  \<^item> \<open>Socks5_UDP\<close>: the framing of datagrams and the relay header; round trips with their limits (252 bytes of
    address in the stream, 1500 bytes of datagram through the relay) and what happens beyond them.
  \<^item> \<open>RBTree\<close>, \<open>RBTree_Shape\<close>, \<open>RBTree_Insert\<close>, \<open>RBTree_Erase\<close>, \<open>RBTree_Walk\<close>: the intrusive red-black tree on
    memory with packed parent and colour words.  The shape theory gives the trees and positions that a
    memory represents; insertion, removal, traversal and replacement are shown to act on the in-order
    sequence and to keep the red-black invariants; replacement keeps the shape, too.
  \<^item> \<open>RBTree_Search\<close>, \<open>Authenticator\<close>: the descent by key that the clients of the tree share, over any key
    order (a locale, interpreted for length-then-bytes and for \<open>strcmp\<close>), and the server's table of
    reference-counted users, which implements a finite map.
  \<^item> \<open>Socks5_Server\<close>, \<open>Server_Session\<close>: the SOCKS5 server with its authentication, requests and responses.
    Nobody is served without known credentials; client and server complete the dialogue with each
    other for every segmentation; destruction gives back descriptors and references.
  \<^item> \<open>Node_List\<close>, \<open>Mapped_DNS\<close>, \<open>DNS_Answers\<close>: the doubly linked list, and the mapped DNS
    (\<open>hev-mapped-dns.c\<close>), which answers queries with addresses of a private network and finds the name for
    such an address again.  Tree, list and array implement a least-recently-used cache; an address in
    an answer leads back to its name for a number of further uses that the size of the cache fixes.  The
    allocator may fail and may hand out freed addresses again; a double free is an error of the model.

  \<^bold>\<open>State and effects.\<close>  A C struct is a record, a struct that embeds another as its first member an
  extension of that record.  The kernel's behaviour (segments, would-block, errors, end of stream) is a
  script in the state, so that every theorem holds for every behaviour.  A result \<^const>\<open>None\<close> means that the
  call does not return (the script is used up, so the task blocks) or that the code would access memory
  through a null pointer, to memory that is not allocated or outside of an object; theorems that a call returns are stated as equations with \<^const>\<open>Some\<close>.  Loops of
  the source are \<open>partial_function (option)\<close> definitions, so no fuel is involved.  Virtual methods are a
  record of functions.  Resolver and system calls that the repository does not contain are parameters
  or script entries.  Stack objects start with arbitrary contents, which \<open>net_junk\<close> gives.

  \<^bold>\<open>Simplifications.\<close>  Sizes and pointers have 64 bits; the 32-bit builds are not covered.  Reference counts do
  not overflow.  Allocation of the mapped DNS and its nodes, of users and of circular buffers may fail; copies of
  names and addresses are taken to succeed where the definitions say so.

  \<^bold>\<open>Not modelled.\<close>  lwIP, libyaml, wintun and the generated parsers (third-party code), the OS back ends
  of the TUN device, JNI glue, logging and configuration file I/O, badvpn (the alternative tunnel), and
  the Go and Kotlin parts of the application.
\<close>

end
